(* ===== verification/Prelude.thy ===== *)
theory Prelude
  imports Main "HOL-Library.Word" "HOL-Library.Monad_Syntax" "HOL-Library.Sublist"
begin

text \<open>
  Shared vocabulary of the development: C objects and the parts of the C library that
  the sources call.

  \<^item> A C array of characters is a list of characters of the array's declared size
    (\<open>cbuf\<close>). Every access is checked: reading or writing outside the array is
    \<^const>\<open>None\<close>, so \<^const>\<open>None\<close> stands for undefined behaviour of the C program
    and never for an error that the program handles itself.
  \<^item> A C string is the part of an array before the first NUL (\<open>c_str\<close>).
  \<^item> \<open>unsigned long\<close> and \<open>long\<close> are 32 bits wide on the target (Win32), hence
    \<^typ>\<open>32 word\<close>; signed readings use \<^const>\<open>sint\<close>.
  \<^item> The functions of \<^verbatim>\<open>string.h\<close>, \<^verbatim>\<open>stdlib.h\<close> and \<^verbatim>\<open>stdio.h\<close> used by the
    sources are defined here once (\<open>c_strstr\<close>, \<open>c_atol\<close>, \<open>c_strncpy\<close>,
    \<open>fmt_d\<close>, ...).
\<close>

section \<open>Collections\<close>

named_theorems cbuf_simps \<open>evaluation of accesses to C arrays\<close>
named_theorems cbuf_len \<open>accesses to C arrays keep their size\<close>

section \<open>Types\<close>

type_synonym u8 = "8 word"
type_synonym u16 = "16 word"
type_synonym u32 = "32 word"
type_synonym s32 = "32 word"
type_synonym u64 = "64 word"
type_synonym cbuf = "char list"

abbreviation NUL :: char where "NUL \<equiv> CHR 0x00"
abbreviation CR :: char where "CR \<equiv> CHR 0x0D"
abbreviation LF :: char where "LF \<equiv> CHR 0x0A"
abbreviation TAB :: char where "TAB \<equiv> CHR 0x09"

abbreviation CRLF :: string where "CRLF \<equiv> [CR, LF]"

section \<open>Lists\<close>

lemma takeWhile_append_stop:
  "\<forall>x \<in> set xs. P x \<Longrightarrow> \<not> P y \<Longrightarrow> takeWhile P (xs @ y # ys) = xs"
  by (induction xs) auto

lemma dropWhile_append_stop:
  "\<forall>x \<in> set xs. P x \<Longrightarrow> \<not> P y \<Longrightarrow> dropWhile P (xs @ y # ys) = y # ys"
  by (induction xs) auto

lemma takeWhile_ne_noteq: "c \<notin> set xs \<Longrightarrow> takeWhile (\<lambda>x. x \<noteq> c) (xs @ c # ys) = xs"
  by (induction xs) auto

lemma takeWhile_ne_id: "c \<notin> set xs \<Longrightarrow> takeWhile (\<lambda>x. x \<noteq> c) xs = xs"
  by (induction xs) auto

lemma notin_takeWhile_ne: "c \<notin> set (takeWhile (\<lambda>x. x \<noteq> c) xs)"
  by (metis (mono_tags, lifting) set_takeWhileD)

lemma in_set_split_takeWhile:
  "c \<in> set xs \<Longrightarrow> \<exists>zs. xs = takeWhile (\<lambda>x. x \<noteq> c) xs @ c # zs"
proof (induction xs)
  case Nil
  then show ?case by simp
next
  case (Cons x xs)
  then show ?case by (cases "x = c") auto
qed

section \<open>Words\<close>

lemma unat_u32_lt: "unat (n :: u32) < 4294967296"
  using unsigned_less [of n] by simp

lemma unat_u64_lt: "unat (n :: u64) < 18446744073709551616"
  using unsigned_less [of n] by simp

lemma unat_of_nat_u32: "m < 4294967296 \<Longrightarrow> unat (of_nat m :: u32) = m"
  by (simp add: unat_of_nat take_bit_nat_eq_self_iff)

lemma unat_of_nat_u64: "m < 18446744073709551616 \<Longrightarrow> unat (of_nat m :: u64) = m"
  by (simp add: unat_of_nat take_bit_nat_eq_self_iff)

section \<open>Checked accesses to arrays\<close>

definition c_rd :: "cbuf \<Rightarrow> nat \<Rightarrow> char option" where
  "c_rd b i = (if i < length b then Some (b ! i) else None)"

definition c_wr :: "cbuf \<Rightarrow> nat \<Rightarrow> char \<Rightarrow> cbuf option" where
  "c_wr b i c = (if i < length b then Some (b[i := c]) else None)"

text \<open>\<^verbatim>\<open>memcpy(b + i, s, strlen)\<close>: the bytes \<open>s\<close> are stored from index \<open>i\<close> on.\<close>

definition c_cpy :: "cbuf \<Rightarrow> nat \<Rightarrow> char list \<Rightarrow> cbuf option" where
  "c_cpy b i s =
     (if i + length s \<le> length b
      then Some (take i b @ s @ drop (i + length s) b) else None)"

text \<open>\<^verbatim>\<open>n\<close> bytes read from index \<open>i\<close> on, the source of a \<^verbatim>\<open>memcpy\<close>.\<close>

definition c_bytes :: "cbuf \<Rightarrow> nat \<Rightarrow> nat \<Rightarrow> char list option" where
  "c_bytes b i n = (if i + n \<le> length b then Some (take n (drop i b)) else None)"

text \<open>\<^verbatim>\<open>memmove(b + d, b + s, n)\<close> within one array.\<close>

definition c_memmove :: "cbuf \<Rightarrow> nat \<Rightarrow> nat \<Rightarrow> nat \<Rightarrow> cbuf option" where
  "c_memmove b d s n = Option.bind (c_bytes b s n) (c_cpy b d)"

text \<open>The C string that starts at index \<open>i\<close>; no terminator inside the array is an overread.\<close>

definition c_str :: "cbuf \<Rightarrow> nat \<Rightarrow> string option" where
  "c_str b i =
     (if NUL \<in> set (drop i b) then Some (takeWhile (\<lambda>c. c \<noteq> NUL) (drop i b)) else None)"

definition c_strcpy :: "cbuf \<Rightarrow> nat \<Rightarrow> string \<Rightarrow> cbuf option" where
  "c_strcpy b i s = c_cpy b i (s @ [NUL])"

text \<open>\<^verbatim>\<open>strncpy\<close> always writes \<open>n\<close> bytes: it cuts the source or pads with NULs.\<close>

definition c_strncpy :: "cbuf \<Rightarrow> nat \<Rightarrow> string \<Rightarrow> nat \<Rightarrow> cbuf option" where
  "c_strncpy b i s n = c_cpy b i (take n (s @ replicate n NUL))"

definition c_strcat :: "cbuf \<Rightarrow> string \<Rightarrow> cbuf option" where
  "c_strcat b s = Option.bind (c_str b 0) (\<lambda>o0. c_strcpy b (length o0) s)"

definition c_memset0 :: "cbuf \<Rightarrow> cbuf" where
  "c_memset0 b = replicate (length b) NUL"

lemma c_rd_Some [cbuf_simps]: "i < length b \<Longrightarrow> c_rd b i = Some (b ! i)"
  by (simp add: c_rd_def)

lemma c_wr_Some [cbuf_simps]: "i < length b \<Longrightarrow> c_wr b i c = Some (b[i := c])"
  by (simp add: c_wr_def)

lemma c_wr_len [cbuf_len]: "c_wr b i c = Some b' \<Longrightarrow> length b' = length b"
  by (auto simp: c_wr_def split: if_splits)

lemma c_cpy_len [cbuf_len]: "c_cpy b i s = Some b' \<Longrightarrow> length b' = length b"
  by (auto simp: c_cpy_def split: if_splits)

lemma c_memmove_len [cbuf_len]: "c_memmove b d s n = Some b' \<Longrightarrow> length b' = length b"
  by (auto simp: c_memmove_def Option.bind_eq_Some_conv dest: c_cpy_len)

lemma c_strcpy_len [cbuf_len]: "c_strcpy b i s = Some b' \<Longrightarrow> length b' = length b"
  by (auto simp: c_strcpy_def dest: c_cpy_len)

lemma c_strncpy_len [cbuf_len]: "c_strncpy b i s n = Some b' \<Longrightarrow> length b' = length b"
  by (auto simp: c_strncpy_def dest: c_cpy_len)

lemma c_strcat_len [cbuf_len]: "c_strcat b s = Some b' \<Longrightarrow> length b' = length b"
  by (auto simp: c_strcat_def Option.bind_eq_Some_conv dest: c_strcpy_len)

lemma c_memset0_len [simp]: "length (c_memset0 b) = length b"
  by (simp add: c_memset0_def)

lemma c_str_app [cbuf_simps]: "NUL \<notin> set s \<Longrightarrow> c_str (s @ NUL # r) 0 = Some s"
  by (simp add: c_str_def takeWhile_ne_noteq)

lemma c_str_Some_no_NUL: "c_str b i = Some s \<Longrightarrow> NUL \<notin> set s"
  by (auto simp: c_str_def notin_takeWhile_ne split: if_splits)

lemma c_str_Some_bound: "c_str b i = Some s \<Longrightarrow> i + length s < length b"
proof -
  assume "c_str b i = Some s"
  then have s: "s = takeWhile (\<lambda>c. c \<noteq> NUL) (drop i b)" and n: "NUL \<in> set (drop i b)"
    by (auto simp: c_str_def split: if_splits)
  from in_set_split_takeWhile [OF n] s obtain zs where "drop i b = s @ NUL # zs" by blast
  then have "length (drop i b) = length s + Suc (length zs)" by simp
  then show ?thesis by simp
qed

lemma c_str_split: "c_str b 0 = Some s \<Longrightarrow> \<exists>r. b = s @ NUL # r \<and> NUL \<notin> set s"
  using in_set_split_takeWhile [of NUL b]
  by (auto simp: c_str_def notin_takeWhile_ne split: if_splits)

lemma c_strcpy_str:
  assumes "c_strcpy b 0 s = Some b'" and "NUL \<notin> set s"
  shows "c_str b' 0 = Some s"
  using assms by (auto simp: c_strcpy_def c_cpy_def c_str_app split: if_splits)

lemma c_str_mid:
  "NUL \<notin> set s \<Longrightarrow> c_str (a @ s @ NUL # r) (length a) = Some s"
  by (simp add: c_str_def takeWhile_ne_noteq)

lemma c_str_parts:
  assumes "c_str b i = Some s"
  obtains a r where "b = a @ s @ NUL # r" "length a = i" "NUL \<notin> set s"
proof -
  have "s = takeWhile (\<lambda>c. c \<noteq> NUL) (drop i b)" "NUL \<in> set (drop i b)"
    using assms by (auto simp: c_str_def split: if_splits)
  with in_set_split_takeWhile [of NUL "drop i b"] obtain r where r: "drop i b = s @ NUL # r" by metis
  have "i \<le> length b" using c_str_Some_bound [OF assms] by simp
  then have "length (take i b) = i" by simp
  moreover have "b = take i b @ s @ NUL # r" using append_take_drop_id [of i b] r by simp
  ultimately show ?thesis using that c_str_Some_no_NUL [OF assms] by blast
qed

lemma c_str_drop: "c_str b i = Some (s @ t) \<Longrightarrow> c_str b (i + length s) = Some t"
proof (elim c_str_parts)
  fix a r assume b: "b = a @ (s @ t) @ NUL # r" "length a = i" "NUL \<notin> set (s @ t)"
  then show ?thesis using c_str_mid [of t "a @ s" r] by simp
qed

lemma c_str_rd: "c_str b i = Some (x # t) \<Longrightarrow> c_rd b i = Some x"
  by (elim c_str_parts) (auto simp: c_rd_def)

lemma c_strcpy_append:
  assumes "c_str b i = Some t" and "NUL \<notin> set x" and "i + length t + length x < length b"
  shows "\<exists>b'. c_strcpy b (i + length t) x = Some b' \<and> c_str b' i = Some (t @ x) \<and> length b' = length b"
  using assms(1)
proof (rule c_str_parts)
  fix a r assume b: "b = a @ t @ NUL # r" "length a = i" "NUL \<notin> set t"
  define q where "q = drop (Suc (length x)) (NUL # r)"
  have "c_strcpy b (i + length t) x = Some (a @ (t @ x) @ NUL # q)"
    using assms(3) b by (simp add: c_strcpy_def c_cpy_def q_def)
  moreover have "length (a @ (t @ x) @ NUL # q) = length b" using assms(3) b by (simp add: q_def)
  ultimately show ?thesis using c_str_mid [of "t @ x" a q] assms(2) b by auto
qed

section \<open>The C library\<close>

text \<open>\<^verbatim>\<open>strstr(s, t)\<close> as the index of the first occurrence.\<close>

fun c_strstr :: "string \<Rightarrow> string \<Rightarrow> nat option" where
  "c_strstr [] t = (if t = [] then Some 0 else None)"
| "c_strstr (c # s) t =
     (if prefix t (c # s) then Some 0 else map_option Suc (c_strstr s t))"

text \<open>\<^verbatim>\<open>strchr(s, c)\<close> for \<open>c\<close> not NUL, as an index.\<close>

fun c_strchr :: "string \<Rightarrow> char \<Rightarrow> nat option" where
  "c_strchr [] c = None"
| "c_strchr (x # s) c = (if x = c then Some 0 else map_option Suc (c_strchr s c))"

lemma c_strstr_Some: "c_strstr s t = Some i \<Longrightarrow> i \<le> length s \<and> prefix t (drop i s)"
proof (induction s arbitrary: i)
  case Nil
  then show ?case by (auto split: if_splits)
next
  case (Cons c s)
  then show ?case by (auto split: if_splits)
qed

lemma c_strstr_None: "c_strstr s t = None \<Longrightarrow> \<not> prefix t (drop i s)"
proof (induction s arbitrary: i)
  case Nil
  then show ?case by (auto split: if_splits)
next
  case (Cons c s)
  then have h: "\<not> prefix t (c # s)" "c_strstr s t = None" by (auto split: if_splits)
  with Cons.IH show ?case by (cases i) auto
qed

lemma c_strstr_iff_sublist: "c_strstr s t \<noteq> None \<longleftrightarrow> sublist t s"
proof
  assume "c_strstr s t \<noteq> None"
  then obtain i where "prefix t (drop i s)" using c_strstr_Some by blast
  then show "sublist t s" by (metis append_take_drop_id prefix_def sublist_def)
next
  assume "sublist t s"
  then obtain a b where s: "s = a @ t @ b" by (auto simp: sublist_def)
  then have "prefix t (drop (length a) s)" by simp
  then show "c_strstr s t \<noteq> None" using c_strstr_None by blast
qed

lemma c_strchr_first: "c \<notin> set s \<Longrightarrow> c_strchr (s @ c # r) c = Some (length s)"
  by (induction s) auto

lemma c_strchr_None: "c \<notin> set s \<Longrightarrow> c_strchr s c = None"
  by (induction s) auto

definition is_digit :: "char \<Rightarrow> bool" where
  "is_digit c \<longleftrightarrow> 48 \<le> (of_char c :: nat) \<and> (of_char c :: nat) \<le> 57"

definition digit_val :: "char \<Rightarrow> nat" where
  "digit_val c = of_char c - 48"

fun dec_val :: "nat \<Rightarrow> string \<Rightarrow> nat" where
  "dec_val r [] = r"
| "dec_val r (c # s) = (if is_digit c then dec_val (10 * r + digit_val c) s else r)"

definition is_space :: "char \<Rightarrow> bool" where
  "is_space c \<longleftrightarrow> c \<in> {CHR '' '', TAB, LF, CHR 0x0B, CHR 0x0C, CR}"

text \<open>
  \<^verbatim>\<open>atol\<close>: white space, a sign, decimal digits; a value outside the range of
  \<^verbatim>\<open>long\<close> is clamped to its bounds.
\<close>

definition c_atol :: "string \<Rightarrow> int" where
  "c_atol s =
     (let p = dropWhile is_space s;
          v = (case p of
                 [] \<Rightarrow> 0
               | c # q \<Rightarrow> if c = CHR ''-'' then - int (dec_val 0 q)
                         else if c = CHR ''+'' then int (dec_val 0 q)
                         else int (dec_val 0 p))
      in max (- (2 ^ 31)) (min (2 ^ 31 - 1) v))"

section \<open>Formatted numbers\<close>

definition digit_char :: "nat \<Rightarrow> char" where
  "digit_char d = (if d < 10 then char_of (48 + d) else char_of (55 + d))"

fun fmt_nat :: "nat \<Rightarrow> nat \<Rightarrow> string" where
  "fmt_nat b n =
     (if n < b \<or> b < 2 then [digit_char n] else fmt_nat b (n div b) @ [digit_char (n mod b)])"

declare fmt_nat.simps [simp del]

text \<open>\<^verbatim>\<open>%u\<close> and \<^verbatim>\<open>%d\<close>.\<close>

definition fmt_u :: "nat \<Rightarrow> string" where "fmt_u n = fmt_nat 10 n"

definition fmt_d :: "int \<Rightarrow> string" where
  "fmt_d i = (if i < 0 then CHR ''-'' # fmt_u (nat (- i)) else fmt_u (nat i))"

text \<open>\<^verbatim>\<open>%X\<close>, and zero padding to a width (\<^verbatim>\<open>%02d\<close>, \<^verbatim>\<open>%08lX\<close>).\<close>

definition fmt_X :: "nat \<Rightarrow> string" where "fmt_X n = fmt_nat 16 n"

definition pad0 :: "nat \<Rightarrow> string \<Rightarrow> string" where
  "pad0 w s = replicate (w - length s) CHR ''0'' @ s"

lemma is_digit_digit_char [simp]: "d < 10 \<Longrightarrow> is_digit (digit_char d)"
  by (simp add: is_digit_def digit_char_def)

lemma digit_val_digit_char [simp]: "d < 10 \<Longrightarrow> digit_val (digit_char d) = d"
  by (simp add: digit_val_def digit_char_def)

lemma dec_val_app_digits:
  "\<forall>c \<in> set s. is_digit c \<Longrightarrow> dec_val r (s @ t) = dec_val (dec_val r s) t"
  by (induction s arbitrary: r) auto

lemma fmt_u_digits: "c \<in> set (fmt_u n) \<Longrightarrow> is_digit c"
  unfolding fmt_u_def
proof (induction "10::nat" n rule: fmt_nat.induct)
  case (1 n)
  then show ?case by (cases "n < 10") (auto simp: fmt_nat.simps [of 10 n])
qed

lemma fmt_u_nonempty [simp]: "fmt_u n \<noteq> []"
  unfolding fmt_u_def by (subst fmt_nat.simps) simp

lemma dec_val_fmt_u: "dec_val 0 (fmt_u n) = n"
  unfolding fmt_u_def
proof (induction "10::nat" n rule: fmt_nat.induct)
  case (1 n)
  show ?case
  proof (cases "n < 10")
    case True
    then show ?thesis by (simp add: fmt_nat.simps [of 10 n])
  next
    case False
    have d: "\<forall>c \<in> set (fmt_nat 10 (n div 10)). is_digit c"
      using fmt_u_digits by (auto simp: fmt_u_def)
    from False 1 have "dec_val 0 (fmt_nat 10 (n div 10)) = n div 10" by simp
    with False d show ?thesis
      by (simp add: fmt_nat.simps [of 10 n] dec_val_app_digits)
  qed
qed

lemma dec_val_stop: "\<not> is_digit c \<Longrightarrow> dec_val r (c # s) = r"
  by simp

lemma not_digit_special [simp]:
  "\<not> is_digit CHR ''.''" "\<not> is_digit NUL" "\<not> is_digit CHR ''-''" "\<not> is_digit CHR '' ''"
  "\<not> is_digit CHR '':''" "\<not> is_digit CHR ''+''" "\<not> is_digit TAB" "\<not> is_digit CR"
  by (simp_all add: is_digit_def)

lemma length_fmt_nat_le:
  "n < b ^ k \<Longrightarrow> 0 < k \<Longrightarrow> 2 \<le> b \<Longrightarrow> length (fmt_nat b n) \<le> k"
proof (induction k arbitrary: n)
  case 0
  then show ?case by simp
next
  case (Suc k)
  show ?case
  proof (cases "n < b")
    case True
    then show ?thesis by (simp add: fmt_nat.simps [of b n])
  next
    case False
    with Suc.prems have "0 < k" by (auto intro: Nat.gr0I)
    moreover have "n div b < b ^ k"
      using Suc.prems by (simp add: less_mult_imp_div_less mult.commute)
    ultimately show ?thesis using Suc.IH [of "n div b"] Suc.prems False
      by (simp add: fmt_nat.simps [of b n])
  qed
qed

lemma length_fmt_u_le: "n < 10 ^ k \<Longrightarrow> 0 < k \<Longrightarrow> length (fmt_u n) \<le> k"
  unfolding fmt_u_def by (rule length_fmt_nat_le) simp_all

lemma NUL_notin_fmt_nat: "2 \<le> b \<Longrightarrow> b \<le> 16 \<Longrightarrow> NUL \<notin> set (fmt_nat b n)"
proof (induction b n rule: fmt_nat.induct)
  case (1 b n)
  have d: "NUL \<noteq> digit_char k" if "k < 16" for k
  proof -
    have "(of_char (digit_char k) :: nat) \<noteq> 0" using that by (simp add: digit_char_def)
    moreover have "(of_char NUL :: nat) = 0" by simp
    ultimately show ?thesis by metis
  qed
  have "n mod b < b" using 1(2) by simp
  then have m: "n mod b < 16" using 1(3) by (rule less_le_trans)
  show ?case
  proof (cases "n < b")
    case True
    then show ?thesis using 1(2,3) d [of n] by (simp add: fmt_nat.simps [of b n])
  next
    case False
    then show ?thesis using 1(1) [OF _ 1(2,3)] 1(2) d [OF m] by (simp add: fmt_nat.simps [of b n])
  qed
qed

text \<open>The value of a text of hexadecimal digits, leading zeros included.\<close>

definition hex_val :: "string \<Rightarrow> nat" where
  "hex_val s = foldl (\<lambda>r c. 16 * r +
     (if (of_char c :: nat) \<le> 57 then of_char c - 48 else of_char c - 55)) 0 s"

lemma hex_val_fmt_X: "hex_val (fmt_X n) = n"
  unfolding fmt_X_def
proof (induction "16::nat" n rule: fmt_nat.induct)
  case (1 n)
  have d: "(if (of_char (digit_char k) :: nat) \<le> 57 then of_char (digit_char k) - 48
      else of_char (digit_char k) - 55) = k" if "k < 16" for k :: nat
    using that by (simp add: digit_char_def)
  show ?case
  proof (cases "n < 16")
    case True
    then show ?thesis using d by (simp add: fmt_nat.simps [of 16 n] hex_val_def)
  next
    case False
    then show ?thesis using 1 d [of "n mod 16"] by (simp add: fmt_nat.simps [of 16 n] hex_val_def)
  qed
qed

lemma hex_val_pad0: "hex_val (pad0 w s) = hex_val s"
proof -
  have "foldl (\<lambda>r c. 16 * r + (if (of_char c :: nat) \<le> 57 then of_char c - 48 else of_char c - 55)) 0
     (replicate k CHR ''0'') = (0 :: nat)" for k
    by (induction k) simp_all
  then show ?thesis by (simp add: pad0_def hex_val_def)
qed

lemma pad0_fmt_X_inj: "pad0 w (fmt_X m) = pad0 w (fmt_X n) \<Longrightarrow> m = n"
  by (metis hex_val_pad0 hex_val_fmt_X)

section \<open>What holds of a result\<close>

text \<open>
  \<open>returns m P\<close>: if \<open>m\<close> returns, its result has the property \<open>P\<close>. The rules of the collection
  \<open>returns_simps\<close> compute what is left to show of a body with binds, conditionals and case
  distinctions; they are given to the simplifier together with the definition of the body.
\<close>

named_theorems returns_simps \<open>evaluation of \<open>returns\<close>\<close>

definition returns :: "'a option \<Rightarrow> ('a \<Rightarrow> bool) \<Rightarrow> bool" where
  "returns m P \<longleftrightarrow> (\<forall>r. m = Some r \<longrightarrow> P r)"

lemma returns_None [returns_simps]: "returns None P"
  by (simp add: returns_def)

lemma returns_Some [returns_simps]: "returns (Some x) P \<longleftrightarrow> P x"
  by (simp add: returns_def)

lemma returns_True [returns_simps]: "returns m (\<lambda>x. True)"
  by (simp add: returns_def)

lemma returns_bind [returns_simps]: "returns (Option.bind m f) P \<longleftrightarrow> returns m (\<lambda>x. returns (f x) P)"
  by (cases m) (simp_all add: returns_def)

lemma returns_if [returns_simps]: "returns (if b then m else n) P \<longleftrightarrow> (b \<longrightarrow> returns m P) \<and> (\<not> b \<longrightarrow> returns n P)"
  by simp

lemma returns_option [returns_simps]:
  "returns (case x of None \<Rightarrow> m | Some y \<Rightarrow> f y) P \<longleftrightarrow> (x = None \<longrightarrow> returns m P) \<and> (\<forall>y. x = Some y \<longrightarrow> returns (f y) P)"
  by (cases x) simp_all

lemma returns_prod [returns_simps]: "returns (case x of (a, b) \<Rightarrow> f a b) P \<longleftrightarrow> returns (f (fst x) (snd x)) P"
  by (cases x) simp

lemma returns_map [returns_simps]: "returns (map_option f m) P \<longleftrightarrow> returns m (\<lambda>x. P (f x))"
  by (cases m) (simp_all add: returns_def)

lemma returns_mono: "returns m P \<Longrightarrow> (\<And>r. P r \<Longrightarrow> Q r) \<Longrightarrow> returns m Q"
  by (simp add: returns_def)

lemma returnsI: "(\<And>r. m = Some r \<Longrightarrow> P r) \<Longrightarrow> returns m P"
  by (simp add: returns_def)

lemma returnsD: "returns m P \<Longrightarrow> m = Some r \<Longrightarrow> P r"
  by (simp add: returns_def)

lemma returns_bindI: "returns m Q \<Longrightarrow> (\<And>x. Q x \<Longrightarrow> returns (f x) P) \<Longrightarrow> returns (Option.bind m f) P"
  by (cases m) (simp_all add: returns_def)

text \<open>The same as introduction rules, which take a body apart step by step.\<close>

lemma returns_ifI: "(b \<Longrightarrow> returns m P) \<Longrightarrow> (\<not> b \<Longrightarrow> returns n P) \<Longrightarrow> returns (if b then m else n) P"
  by simp

lemma returns_optionI:
  "(x = None \<Longrightarrow> returns m P) \<Longrightarrow> (\<And>y. x = Some y \<Longrightarrow> returns (f y) P) \<Longrightarrow> returns (case x of None \<Rightarrow> m | Some y \<Rightarrow> f y) P"
  by (cases x) simp_all

lemma returns_prodI: "(\<And>a b. x = (a, b) \<Longrightarrow> returns (f a b) P) \<Longrightarrow> returns (case x of (a, b) \<Rightarrow> f a b) P"
  by (cases x) simp

lemma returns_SomeI: "P x \<Longrightarrow> returns (Some x) P"
  by (simp add: returns_simps)

lemma returns_NoneI: "returns None P"
  by (simp add: returns_simps)

text \<open>A step whose result is an array keeps its size; of other steps nothing is kept.\<close>

lemma returns_bind_array:
  "returns m (\<lambda>b :: cbuf. length b = n) \<Longrightarrow> (\<And>b. length b = n \<Longrightarrow> returns (f b) P) \<Longrightarrow> returns (Option.bind m f) P"
  by (rule returns_bindI)

lemma returns_bind_any: "(\<And>x. returns (f x) P) \<Longrightarrow> returns (Option.bind m f) P"
  by (rule returns_bindI [OF returns_True]) simp

lemma returns_length:
  "length b = n \<Longrightarrow> returns (c_wr b i x) (\<lambda>b'. length b' = n)"
  "length b = n \<Longrightarrow> returns (c_cpy b i s) (\<lambda>b'. length b' = n)"
  "length b = n \<Longrightarrow> returns (c_memmove b i j m) (\<lambda>b'. length b' = n)"
  "length b = n \<Longrightarrow> returns (c_strcpy b i s) (\<lambda>b'. length b' = n)"
  "length b = n \<Longrightarrow> returns (c_strncpy b i s m) (\<lambda>b'. length b' = n)"
  "length b = n \<Longrightarrow> returns (c_strcat b s) (\<lambda>b'. length b' = n)"
  by (auto simp: returns_def dest: cbuf_len)

end
