(* ===== verification/Utils.thy ===== *)
theory Utils
  imports Prelude
begin

text \<open>
  \<^verbatim>\<open>straight-httpd/utils.c\<close>: number conversion (\<open>ston\<close>, \<open>ntos\<close>), case-insensitive
  comparison (\<open>Strnicmp\<close>, \<open>token_match\<close>), the in-place decoders \<open>DecodeB64\<close> and
  \<open>URLDecode\<close>, content types and dotted IP addresses.

  The in-place decoders work on the whole array, so that what they leave behind the
  decoded text is part of the model. Each is related to a functional description of the
  decoding (\<open>b64_groups\<close>, \<open>url_decode\<close>).
\<close>

unbundle bit_operations_syntax

section \<open>Numbers\<close>

fun ston_digits :: "s32 \<Rightarrow> string \<Rightarrow> s32" where
  "ston_digits result [] = result"
| "ston_digits result (c # p) =
     (if is_digit c then ston_digits (result * 10 + of_nat (digit_val c)) p else result)"

text \<open>The argument is the C string behind the pointer; \<^verbatim>\<open>long\<close> arithmetic wraps.\<close>

definition ston :: "string \<Rightarrow> s32" where
  "ston s =
     (if s = [] then 0
      else
        let p = dropWhile (\<lambda>c. c = CHR '' '' \<or> c = TAB) s;
            (sign, p) = (case p of c # q \<Rightarrow> if c = CHR ''-'' then (-1, q) else (1, p) | [] \<Rightarrow> (1, p));
            p = (case p of c # q \<Rightarrow> if c = CHR ''+'' then q else p | [] \<Rightarrow> p)
        in sign * ston_digits 0 p)"

text \<open>
  The loop of \<open>ntos\<close>: \<open>dv\<close> runs through the powers of ten down to 1, and leading
  zeros are skipped while \<open>first\<close> is set. \<open>n\<close> and \<open>dv\<close> are divided as unsigned
  values, because \<^verbatim>\<open>div\<close> is an \<^verbatim>\<open>unsigned long\<close> in the source.
\<close>

definition hex_alpha :: string where "hex_alpha = ''0123456789''"

function ntos_loop :: "u32 \<Rightarrow> nat \<Rightarrow> bool \<Rightarrow> string" where
  "ntos_loop n dv first =
     (let remain = unat n div dv;
          n' = (if remain \<noteq> 0 then n - of_nat (dv * remain) else n);
          first' = (if remain \<noteq> 0 then False else first);
          out = (if first' then [] else [hex_alpha ! remain])
      in if dv \<le> 1 then out else out @ ntos_loop n' (dv div 10) first')"
  by pat_completeness auto
termination
  by (relation "measure (\<lambda>(n, dv, first). dv)") auto

declare ntos_loop.simps [simp del]

definition ntos :: "s32 \<Rightarrow> string" where
  "ntos n =
     (if n = 0 then ''0''
      else if sint n < 0 then CHR ''-'' # ntos_loop (- n) 1000000000 True
      else ntos_loop n 1000000000 True)"

section \<open>Characters and comparison\<close>

definition ToLower :: "char \<Rightarrow> u8" where
  "ToLower nChar =
     (let cTemp = of_char nChar :: u8
      in if 65 \<le> cTemp \<and> cTemp \<le> 90 then cTemp OR 0x20 else cTemp)"

definition ToUpper :: "char \<Rightarrow> u8" where
  "ToUpper nChar =
     (let cTemp = of_char nChar :: u8
      in if 97 \<le> cTemp \<and> cTemp \<le> 122 then cTemp AND 0xDF else cTemp)"

fun Strnicmp :: "string \<Rightarrow> string \<Rightarrow> nat \<Rightarrow> int" where
  "Strnicmp (a # str1) (b # str2) (Suc n) =
     (let res = uint (ToUpper a) - uint (ToUpper b)
      in if res \<noteq> 0 then (if res < 0 then -1 else 1) else Strnicmp str1 str2 n)"
| "Strnicmp str1 str2 n =
     (if n = 0 then 0 else if str1 \<noteq> [] then 1 else if str2 \<noteq> [] then -1 else 0)"

text \<open>\<^verbatim>\<open>ctype.h\<close> in the C locale, on the 7-bit characters.\<close>

definition is_upper :: "char \<Rightarrow> bool" where
  "is_upper c \<longleftrightarrow> 65 \<le> (of_char c :: nat) \<and> (of_char c :: nat) \<le> 90"

definition is_lower :: "char \<Rightarrow> bool" where
  "is_lower c \<longleftrightarrow> 97 \<le> (of_char c :: nat) \<and> (of_char c :: nat) \<le> 122"

definition to_lower :: "char \<Rightarrow> char" where
  "to_lower c = (if is_upper c then char_of ((of_char c :: nat) + 32) else c)"

definition token_char :: "char \<Rightarrow> bool" where
  "token_char c \<longleftrightarrow> is_upper c \<or> is_lower c \<or> is_digit c \<or> c = CHR ''_'' \<or> c = CHR ''-''"

text \<open>
  \<open>token_match\<close> reads both strings, terminators included, until one token ends or the
  characters differ; the arguments are the C strings.
\<close>

definition token_end :: "string \<Rightarrow> bool" where
  "token_end s = (\<not> token_char (to_lower (case s of [] \<Rightarrow> NUL | c # _ \<Rightarrow> c)))"

fun token_match :: "string \<Rightarrow> string \<Rightarrow> bool" where
  "token_match (c1 # s1) (c2 # s2) =
     (let end1 = token_end (c1 # s1); end2 = token_end (c2 # s2)
      in if end1 \<or> end2 \<or> to_lower c1 \<noteq> to_lower c2 then end1 \<and> end2
         else token_match s1 s2)"
| "token_match s1 s2 = (token_end s1 \<and> token_end s2)"

text \<open>\<open>TrimFloat\<close> on the C string: trailing zeros go, and then a trailing point.\<close>

fun TrimFloat_loop :: "string \<Rightarrow> string" where
  "TrimFloat_loop s =
     (if s = [] then s
      else if last s \<noteq> CHR ''0'' then (if last s = CHR ''.'' then butlast s else s)
      else TrimFloat_loop (butlast s))"

declare TrimFloat_loop.simps [simp del]

definition TrimFloat :: "string \<Rightarrow> string" where
  "TrimFloat s = (if c_strchr s CHR ''.'' = None then s else TrimFloat_loop s)"

section \<open>Base64\<close>

text \<open>The value of a character; \<open>None\<close> is the early return on a bad character.\<close>

definition b64_value :: "char \<Rightarrow> nat option" where
  "b64_value ch =
     (let c = of_char ch :: nat
      in if 65 \<le> c \<and> c \<le> 90 then Some (c - 65)
         else if 97 \<le> c \<and> c \<le> 122 then Some (c - 97 + 26)
         else if 48 \<le> c \<and> c \<le> 57 then Some (c - 48 + 52)
         else if c = 43 then Some 62
         else if 47 \<le> c then Some 63
         else None)"

definition b64_byte :: "nat \<Rightarrow> nat \<Rightarrow> char" where
  "b64_byte convered sh = char_of (convered div 2 ^ sh mod 256)"

text \<open>
  The loop: \<open>i\<close> reads, \<open>resultCount\<close> writes, in the same array. The result is the
  returned count and the array; the outer \<^const>\<open>None\<close> is an access outside the array.
\<close>

function DecodeB64_loop ::
    "cbuf \<Rightarrow> nat \<Rightarrow> nat \<Rightarrow> nat \<Rightarrow> nat \<Rightarrow> (nat \<times> cbuf) option" where
  "DecodeB64_loop data i resultCount validCount convered =
     (if length data \<le> i then None
      else if data ! i = NUL then
        do {
          (resultCount, data) \<leftarrow>
            (if validCount mod 4 = 3 then do {
               data \<leftarrow> c_cpy data resultCount [b64_byte convered 10, b64_byte convered 2];
               Some (resultCount + 2, data) }
             else if validCount mod 4 = 2 then do {
               data \<leftarrow> c_wr data resultCount (b64_byte convered 4);
               Some (resultCount + 1, data) }
             else Some (resultCount, data));
          data \<leftarrow> c_wr data resultCount NUL;
          Some (resultCount, data)
        }
      else if data ! i = CR \<or> data ! i = LF \<or> data ! i = CHR ''='' then
        DecodeB64_loop data (Suc i) resultCount validCount convered
      else case b64_value (data ! i) of
        None \<Rightarrow> Some (0, data)
      | Some value \<Rightarrow>
          let validCount = validCount + 1;
              convered = (convered * 64 + value) mod 2 ^ 32
          in if validCount mod 4 = 0 then
               (case c_cpy data resultCount
                       [b64_byte convered 16, b64_byte convered 8, b64_byte convered 0] of
                  None \<Rightarrow> None
                | Some data' \<Rightarrow>
                    if length data' = length data
                    then DecodeB64_loop data' (Suc i) (resultCount + 3) validCount 0
                    else None)
             else DecodeB64_loop data (Suc i) resultCount validCount convered)"
  by pat_completeness auto
termination
  by (relation "measure (\<lambda>(data, i, r, v, c). length data - i)") auto

declare DecodeB64_loop.simps [simp del]

definition DecodeB64 :: "cbuf \<Rightarrow> (nat \<times> cbuf) option" where
  "DecodeB64 data = DecodeB64_loop data 0 0 0 0"

section \<open>URL decoding\<close>

fun Hex2Int_loop :: "string \<Rightarrow> nat \<Rightarrow> char \<Rightarrow> int" where
  "Hex2Int_loop [] i c = -1"
| "Hex2Int_loop (x # xs) i c = (if c = x then int (i div 2) else Hex2Int_loop xs (Suc i) c)"

definition Hex2Int :: "char \<Rightarrow> int" where
  "Hex2Int c = Hex2Int_loop ''00112233445566778899AaBbCcDdEeFf'' 0 c"

text \<open>
  The loop of \<open>URLDecode\<close>: \<open>len\<close> shrinks by two with every decoded escape. The text
  behind the decoded part is only shifted, never terminated again.
\<close>

function URLDecode_loop :: "cbuf \<Rightarrow> nat \<Rightarrow> nat \<Rightarrow> (nat \<times> cbuf) option" where
  "URLDecode_loop url len i =
     (if i < len then
        do {
          c \<leftarrow> c_rd url i;
          if c = NUL then Some (i, url)
          else if c \<noteq> CHR ''%'' then URLDecode_loop url len (Suc i)
          else if i + 2 < len then
            do {
              c1 \<leftarrow> c_rd url (i + 1);
              c2 \<leftarrow> c_rd url (i + 2);
              let a = Hex2Int c1; b = Hex2Int c2
              in if 0 \<le> a \<and> 0 \<le> b then
                   do {
                     url \<leftarrow> c_wr url i (char_of (nat (a * 16 + b)));
                     url \<leftarrow> c_memmove url (i + 1) (i + 3) (len - i - 3);
                     URLDecode_loop url (len - 2) (Suc i)
                   }
                 else URLDecode_loop url len (Suc i)
            }
          else URLDecode_loop url len (Suc i)
        }
      else Some (i, url))"
  by pat_completeness auto
termination
  by (relation "measure (\<lambda>(url, len, i). len - i)") auto

declare URLDecode_loop.simps [simp del]

definition URLDecode :: "cbuf \<Rightarrow> (nat \<times> cbuf) option" where
  "URLDecode url =
     do { s \<leftarrow> c_str url 0; URLDecode_loop url (length s) 0 }"

section \<open>Reference descriptions of the encodings\<close>

text \<open>The standard Base64 encoding with padding, and percent-decoding as a function on strings.\<close>

definition b64_char :: "nat \<Rightarrow> char" where
  "b64_char v = char_of (if v < 26 then 65 + v else if v < 52 then 71 + v
     else if v < 62 then v - 4 else if v = 62 then 43 else (47::nat))"

fun b64_encode :: "char list \<Rightarrow> string" where
  "b64_encode [] = []"
| "b64_encode [x] =
     (let a = of_char x
      in [b64_char (a div 4), b64_char (a mod 4 * 16), CHR ''='', CHR ''=''])"
| "b64_encode [x, y] =
     (let a = of_char x; b = of_char y
      in [b64_char (a div 4), b64_char (a mod 4 * 16 + b div 16), b64_char (b mod 16 * 4), CHR ''=''])"
| "b64_encode (x # y # z # r) =
     (let a = of_char x; b = of_char y; c = of_char z
      in [b64_char (a div 4), b64_char (a mod 4 * 16 + b div 16),
          b64_char (b mod 16 * 4 + c div 64), b64_char (c mod 64)] @ b64_encode r)"

fun url_decode :: "string \<Rightarrow> char list" where
  "url_decode (c # a # b # s) =
     (if c = CHR ''%'' \<and> 0 \<le> Hex2Int a \<and> 0 \<le> Hex2Int b
      then char_of (nat (Hex2Int a * 16 + Hex2Int b)) # url_decode s
      else c # url_decode (a # b # s))"
| "url_decode [c, a] = [c, a]"
| "url_decode [c] = [c]"
| "url_decode [] = []"

section \<open>Content types\<close>

definition contentTypes :: "(string \<times> string) list" where
  "contentTypes =
    [(''html'', ''text/html''), (''htm'', ''text/html''),
     (''shtml'', ''text/html''), (''shtm'', ''text/html''), (''ssi'', ''text/html''),
     (''css'', ''text/css''),
     (''json'', ''application/json''), (''js'', ''application/javascript''),
     (''gif'', ''image/gif''), (''png'', ''image/png''), (''jpg'', ''image/jpeg''),
     (''bmp'', ''image/bmp''), (''ico'', ''image/x-icon''),
     (''mp4'', ''video/mp4''), (''flv'', ''video/x-flv''), (''3gp'', ''video/3gpp''),
     (''mov'', ''video/quicktime''), (''avi'', ''video/x-msvideo''), (''wmv'', ''video/x-ms-wmv''),
     (''class'', ''application/octet-stream''), (''cls'', ''application/octet-stream''),
     (''swf'', ''application/x-shockwave-flash''), (''ram'', ''application/javascript''),
     (''pdf'', ''application/pdf''),
     (''xml'', ''text/xml''), (''xsl'', ''text/xml''),
     ('''', ''text/plain'')]"

text \<open>The search stops at the entry with the empty extension; running past the table is \<open>None\<close>.\<close>

fun GetContentType_loop :: "(string \<times> string) list \<Rightarrow> string \<Rightarrow> string option" where
  "GetContentType_loop [] extension = None"
| "GetContentType_loop ((ext, content_type) # ts) extension =
     (if length ext = 0 then Some content_type
      else if length ext = length extension \<and> Strnicmp extension ext (length ext) = 0
      then Some content_type
      else GetContentType_loop ts extension)"

definition GetContentType :: "string \<Rightarrow> string option" where
  "GetContentType extension = GetContentType_loop contentTypes extension"

section \<open>Dotted addresses\<close>

definition GetIpAddress :: "string \<Rightarrow> u32" where
  "GetIpAddress addr =
     (let p = addr; ip = ston p AND 0xFF
      in case c_strchr p CHR ''.'' of None \<Rightarrow> ip | Some k \<Rightarrow>
         let p = drop (k + 1) p; ip = push_bit 8 ip + ston p
         in case c_strchr p CHR ''.'' of None \<Rightarrow> ip | Some k \<Rightarrow>
            let p = drop (k + 1) p; ip = push_bit 8 ip + ston p
            in case c_strchr p CHR ''.'' of None \<Rightarrow> ip | Some k \<Rightarrow>
               let p = drop (k + 1) p in push_bit 8 ip + ston p)"

section \<open>Number conversion\<close>

lemma ston_digits_dec_val: "ston_digits (of_nat r) s = of_nat (dec_val r s)"
proof (induction s arbitrary: r)
  case (Cons c s)
  show ?case using Cons [of "10 * r + digit_val c"] by (simp add: algebra_simps)
qed simp

lemma hex_alpha_digit: "d < 10 \<Longrightarrow> hex_alpha ! d = digit_char d"
proof -
  assume "d < 10"
  then have "d \<in> {0,1,2,3,4,5,6,7,8,9}" by auto
  then show ?thesis by (elim insertE emptyE) (simp_all add: digit_char_def hex_alpha_def, (code_simp)+)
qed

lemma ten_pow_not_one: "\<not> 10 * 10 ^ k \<le> Suc 0"
proof -
  have "(1::nat) \<le> 10 ^ k" by simp
  then show ?thesis by linarith
qed

lemma ntos_loop_rest:
  assumes "unat n < 10 ^ Suc k"
  shows "(\<forall>c \<in> set (ntos_loop n (10 ^ k) False). is_digit c)
       \<and> dec_val r (ntos_loop n (10 ^ k) False) = r * 10 ^ Suc k + unat n"
  using assms
proof (induction k arbitrary: n r)
  case 0
  then show ?case by (simp add: ntos_loop.simps [of n] Let_def hex_alpha_digit)
next
  case (Suc k)
  let ?d = "10 ^ Suc k :: nat" let ?q = "unat n div ?d"
  have q: "?q < 10" using Suc.prems by (simp add: less_mult_imp_div_less)
  have le: "?d * ?q \<le> unat n" by simp
  have "unat (of_nat (?d * ?q) :: u32) = ?d * ?q"
    by (rule unat_of_nat_u32) (use le unat_u32_lt [of n] in linarith)
  then have m: "unat (n - of_nat (?d * ?q)) = unat n mod ?d"
    using le by (simp add: unat_sub_if' minus_mult_div_eq_mod)
  let ?n = "if ?q \<noteq> 0 then n - of_nat (?d * ?q) else n"
  have m': "unat ?n = unat n mod ?d"
    using m by (auto simp: div_eq_0_iff)
  then have "unat ?n < 10 ^ Suc k" by simp
  note IH = Suc.IH [OF this, of "10 * r + ?q"]
  have e: "ntos_loop n ?d False = digit_char ?q # ntos_loop ?n (10 ^ k) False"
    using q by (simp add: ntos_loop.simps [of n "10 * 10 ^ k"] Let_def ten_pow_not_one hex_alpha_digit)
  have "(10 * r + ?q) * 10 ^ Suc k + unat n mod ?d = r * 10 ^ Suc (Suc k) + (?q * ?d + unat n mod ?d)"
    by (simp add: algebra_simps)
  also have "?q * ?d + unat n mod ?d = unat n" by (rule div_mult_mod_eq)
  finally have v: "(10 * r + ?q) * 10 ^ Suc k + unat n mod ?d = r * 10 ^ Suc (Suc k) + unat n" .
  from IH m' v have "dec_val (10 * r + ?q) (ntos_loop ?n (10 ^ k) False) = r * 10 ^ Suc (Suc k) + unat n"
    by presburger
  with IH q show ?case unfolding e by simp
qed

lemma ntos_loop_first:
  assumes "unat n < 10 ^ Suc k" and "n \<noteq> 0"
  shows "(\<forall>c \<in> set (ntos_loop n (10 ^ k) True). is_digit c)
       \<and> dec_val 0 (ntos_loop n (10 ^ k) True) = unat n \<and> ntos_loop n (10 ^ k) True \<noteq> []"
  using assms
proof (induction k)
  case 0
  then have "0 < unat n" "unat n < 10" by (simp_all add: unat_gt_0)
  then show ?case by (simp add: ntos_loop.simps [of n] Let_def hex_alpha_digit)
next
  case (Suc k)
  show ?case
  proof (cases "unat n div 10 ^ Suc k = 0")
    case True
    then have "unat n < 10 ^ Suc k" by (simp add: div_eq_0_iff)
    moreover have "ntos_loop n (10 ^ Suc k) True = ntos_loop n (10 ^ k) True"
      using True by (simp add: ntos_loop.simps [of n "10 * 10 ^ k"] Let_def ten_pow_not_one)
    ultimately show ?thesis using Suc by simp
  next
    case False
    have "ntos_loop n (10 ^ Suc k) True = ntos_loop n (10 ^ Suc k) False"
      using False by (simp add: ntos_loop.simps [of n "10 * 10 ^ k"] Let_def ten_pow_not_one)
    moreover have "ntos_loop n (10 ^ Suc k) False \<noteq> []"
      by (simp add: ntos_loop.simps [of n "10 * 10 ^ k"] Let_def ten_pow_not_one)
    ultimately show ?thesis using ntos_loop_rest [OF Suc.prems(1), of 0] by simp
  qed
qed

lemma ston_unsigned:
  assumes "s \<noteq> []" and "is_digit (hd s)"
  shows "ston s = of_nat (dec_val 0 s)"
proof -
  obtain c q where s: "s = c # q" and c: "is_digit c" using assms by (cases s) auto
  from c have "c \<noteq> CHR '' ''" "c \<noteq> TAB" "c \<noteq> CHR ''-''" "c \<noteq> CHR ''+''"
    by (auto simp: is_digit_def)
  with s show ?thesis using ston_digits_dec_val [of 0 s] by (simp add: ston_def)
qed

lemma ston_negative:
  assumes "s \<noteq> []" and "is_digit (hd s)"
  shows "ston (CHR ''-'' # s) = - of_nat (dec_val 0 s)"
proof -
  obtain c q where s: "s = c # q" and c: "is_digit c" using assms by (cases s) auto
  from c have "c \<noteq> CHR ''+''" by (auto simp: is_digit_def)
  with s show ?thesis using ston_digits_dec_val [of 0 s] by (simp add: ston_def)
qed

lemma unat_u32_lt_pow: "unat (n :: u32) < 10 ^ Suc 9"
  using unat_u32_lt [of n] by simp

text \<open>
  C30. the two number converters are inverse to each other on every 32-bit \<^verbatim>\<open>long\<close>,
  negative numbers and the smallest one included: reading back what \<open>ntos\<close> wrote gives
  the number.
\<close>

lemma ston_ntos: "ston (ntos n) = n"
proof -
  consider "n = 0" | "n \<noteq> 0" "sint n < 0" | "n \<noteq> 0" "\<not> sint n < 0" by blast
  then show ?thesis
  proof cases
    case 1
    then show ?thesis by (simp add: ntos_def ston_def is_digit_def digit_val_def)
  next
    case 2
    then have "- n \<noteq> 0" by simp
    note ntos_loop_first [OF unat_u32_lt_pow this]
    then show ?thesis using 2 ston_negative by (simp add: ntos_def)
  next
    case 3
    note ntos_loop_first [OF unat_u32_lt_pow 3(1)]
    then show ?thesis using 3 ston_unsigned by (simp add: ntos_def)
  qed
qed
lemma Strnicmp_zero_iff:
  "Strnicmp s t n = 0 \<longleftrightarrow> map ToUpper (take n s) = map ToUpper (take n t)"
  by (induction s t n rule: Strnicmp.induct) (auto simp: Let_def take_Cons' word_uint_eq_iff split: if_splits)

lemma GetContentType_total: "\<exists>t. GetContentType e = Some t \<and> t \<in> snd ` set contentTypes"
proof -
  have "\<exists>t. GetContentType_loop ts e = Some t \<and> t \<in> snd ` set ts"
    if "[] \<in> fst ` set ts" for ts
    using that
  proof (induction ts)
    case (Cons x ts)
    then show ?case by (cases x) (auto simp: image_iff)
  qed simp
  then show ?thesis by (simp add: GetContentType_def contentTypes_def)
qed

lemma ston_fmt_u: "ston (fmt_u n @ r) = of_nat (dec_val n r)"
proof -
  have "fmt_u n @ r \<noteq> []" "is_digit (hd (fmt_u n @ r))"
    using fmt_u_digits [of "hd (fmt_u n)" n] by simp_all
  from ston_unsigned [OF this] show ?thesis
    using fmt_u_digits by (simp add: dec_val_app_digits dec_val_fmt_u)
qed

lemma dot_notin_fmt_u: "CHR ''.'' \<notin> set (fmt_u n)"
  using fmt_u_digits not_digit_special(1) by blast

lemma and_ff_of_nat: "a < 256 \<Longrightarrow> (of_nat a :: u32) AND 0xFF = of_nat a"
proof -
  assume "a < 256"
  then have "take_bit 8 (of_nat a :: u32) = of_nat a"
    by (simp add: take_bit_of_nat take_bit_nat_eq_self)
  then show ?thesis by (simp add: take_bit_eq_mask mask_eq_exp_minus_1)
qed

lemma GetIpAddress_dotted:
  assumes "a < 256" "b < 256" "c < 256" "d < 256"
  shows "GetIpAddress (fmt_u a @ ''.'' @ fmt_u b @ ''.'' @ fmt_u c @ ''.'' @ fmt_u d)
       = of_nat (((a * 256 + b) * 256 + c) * 256 + d)"
proof -
  have last: "ston (fmt_u d) = of_nat d" using ston_fmt_u [of d "[]"] by simp
  show ?thesis
    using assms and_ff_of_nat [of a]
    by (simp add: GetIpAddress_def ston_fmt_u last c_strchr_first c_strchr_None dot_notin_fmt_u
        push_bit_eq_mult algebra_simps)
qed

section \<open>Base64 decoding\<close>

lemma b64_value_char: "v < 64 \<Longrightarrow> b64_value (b64_char v) = Some v"
  by (auto simp: b64_char_def b64_value_def Let_def)

lemma b64_char_plain:
  "v < 64 \<Longrightarrow> b64_char v \<noteq> NUL \<and> b64_char v \<noteq> CR \<and> b64_char v \<noteq> LF \<and> b64_char v \<noteq> CHR ''=''"
  by (auto simp: b64_char_def char_of_eq_iff take_bit_nat_eq_self)

lemma DecodeB64_sextet:
  assumes "v < 64" and "Suc n mod 4 \<noteq> 0"
  shows "DecodeB64_loop (pre @ b64_char v # post) (length pre) r n c
       = DecodeB64_loop ((pre @ [b64_char v]) @ post) (length (pre @ [b64_char v])) r (Suc n)
           ((c * 64 + v) mod 2 ^ 32)"
  using assms b64_value_char b64_char_plain
  by (subst DecodeB64_loop.simps) (simp add: Let_def)

lemma DecodeB64_sextet4:
  assumes "v < 64" and "Suc n mod 4 = 0" and "r + 2 \<le> length pre"
    and c': "c' = (c * 64 + v) mod 2 ^ 32"
    and out: "out = [b64_byte c' 16, b64_byte c' 8, b64_byte c' 0]"
  shows "\<exists>pre'. length pre' = Suc (length pre) \<and> take (r + 3) pre' = take r pre @ out
       \<and> DecodeB64_loop (pre @ b64_char v # post) (length pre) r n c
       = DecodeB64_loop (pre' @ post) (length pre') (r + 3) (Suc n) 0"
proof -
  define pre' where "pre' = take r pre @ out @ drop (r + 3) (pre @ [b64_char v])"
  have len: "length pre' = Suc (length pre)" using assms(3) by (simp add: pre'_def out)
  have cpy: "c_cpy (pre @ b64_char v # post) r out = Some (pre' @ post)"
    using assms(3) by (auto simp: c_cpy_def pre'_def out drop_Cons' numeral_eq_Suc)
  have "DecodeB64_loop (pre @ b64_char v # post) (length pre) r n c
      = DecodeB64_loop (pre' @ post) (length pre') (r + 3) (Suc n) 0"
    using assms b64_value_char b64_char_plain cpy len
    by (subst DecodeB64_loop.simps) (simp add: Let_def)
  moreover have "take (r + 3) pre' = take r pre @ out"
    using assms(3) by (simp add: pre'_def out)
  ultimately show ?thesis using len by blast
qed

lemma DecodeB64_equals:
  "DecodeB64_loop (pre @ CHR ''='' # post) (length pre) r n c
       = DecodeB64_loop ((pre @ [CHR ''='']) @ post) (length (pre @ [CHR ''=''])) r n c"
  by (subst DecodeB64_loop.simps) (simp add: Let_def)
lemma list_update_app_le:
  "r \<le> length pre \<Longrightarrow> \<exists>rest'. (pre @ c # rest)[r := x] = take r pre @ x # rest'"
  by (rule exI [of _ "drop (Suc r) (pre @ c # rest)"]) (simp add: upd_conv_take_nth_drop)

lemma DecodeB64_end:
  assumes "r \<le> length pre" and "n mod 4 = 0"
  shows "\<exists>rest'. DecodeB64_loop (pre @ NUL # rest) (length pre) r n c
     = Some (r, take r pre @ NUL # rest')"
  using assms list_update_app_le [of r pre NUL rest NUL]
  by (subst DecodeB64_loop.simps) (simp add: c_wr_def)

lemma DecodeB64_end1:
  assumes "r + 2 \<le> length pre" and "n mod 4 = 2"
  shows "\<exists>rest'. DecodeB64_loop (pre @ NUL # rest) (length pre) r n c
     = Some (Suc r, take r pre @ b64_byte c 4 # NUL # rest')"
proof -
  have u: "(pre @ NUL # rest)[r := b64_byte c 4, Suc r := NUL]
      = take r pre @ b64_byte c 4 # NUL # drop (r + 2) (pre @ NUL # rest)"
    using assms(1) by (simp add: upd_conv_take_nth_drop take_Suc_conv_app_nth nth_list_update
        nth_append Suc_le_lessD)
  show ?thesis using assms u
    by (subst DecodeB64_loop.simps) (auto simp: c_wr_def intro!: exI)
qed

lemma DecodeB64_end2:
  assumes "r + 3 \<le> length pre" and "n mod 4 = 3"
  shows "\<exists>rest'. DecodeB64_loop (pre @ NUL # rest) (length pre) r n c
     = Some (r + 2, take r pre @ b64_byte c 10 # b64_byte c 2 # NUL # rest')"
proof -
  let ?L = "pre @ NUL # rest" let ?o = "[b64_byte c 10, b64_byte c 2]"
  have "r + 2 < length ?L" using assms(1) by simp
  then obtain x ys where L: "drop (r + 2) ?L = x # ys" by (metis Cons_nth_drop_Suc)
  have cpy: "c_cpy ?L r ?o = Some (take r pre @ ?o @ x # ys)"
    using assms(1) L by (simp add: c_cpy_def)
  have wr: "c_wr (take r pre @ ?o @ x # ys) (r + 2) NUL = Some (take r pre @ ?o @ NUL # ys)"
    using assms(1) by (simp add: c_wr_def list_update_append)
  show ?thesis using assms cpy wr
    by (subst DecodeB64_loop.simps) simp
qed

lemma b64_recombine:
  fixes a b c :: nat
  shows "((a div 4 * 64 + (a mod 4 * 16 + b div 16)) * 64 + (b mod 16 * 4 + c div 64)) * 64 + c mod 64
     = a * 65536 + b * 256 + c"
proof -
  have "((p * 64 + (q * 16 + s)) * 64 + (t * 4 + u)) * 64 + v
      = (p * 4 + q) * 65536 + (s * 16 + t) * 256 + (u * 64 + v)" for p q s t u v :: nat
    by (simp add: algebra_simps)
  from this [of "a div 4" "a mod 4" "b div 16" "b mod 16" "c div 64" "c mod 64"]
  show ?thesis by (simp only: div_mult_mod_eq)
qed

lemma b64_recombine2:
  fixes a b :: nat
  shows "(a div 4 * 64 + (a mod 4 * 16 + b div 16)) * 64 + b mod 16 * 4 = (a * 256 + b) * 4"
  using b64_recombine [of a b 0] by simp

lemma b64_recombine1:
  fixes a :: nat
  shows "a div 4 * 64 + a mod 4 * 16 = a * 16"
  using b64_recombine [of a 0 0] by simp

lemma b64_byte_simps:
  fixes a b c :: nat
  assumes "a < 256" "b < 256" "c < 256"
  shows "b64_byte (a * 65536 + b * 256 + c) 16 = char_of a"
    and "b64_byte (a * 65536 + b * 256 + c) 8 = char_of b"
    and "b64_byte (a * 65536 + b * 256 + c) 0 = char_of c"
    and "b64_byte ((a * 256 + b) * 4) 10 = char_of a"
    and "b64_byte ((a * 256 + b) * 4) 2 = char_of b"
    and "b64_byte (a * 16) 4 = char_of a"
proof -
  have e: "(a * 65536 + b * 256 + c) div 65536 = a" "(a * 65536 + b * 256 + c) div 256 = a * 256 + b"
    using assms by linarith+
  have "a * 65536 + b * 256 + c = c + 256 * (a * 256 + b)" by simp
  then have "(a * 65536 + b * 256 + c) mod 256 = (c + 256 * (a * 256 + b)) mod 256" by presburger
  also have "\<dots> = c" using assms by (simp only: mod_mult_self2) simp
  finally have m: "(a * 65536 + b * 256 + c) mod 256 = c" .
  have "(a * 1024 + b * 4) div 1024 = a" using assms by linarith
  then have "(a * 256 + b) * 4 div 1024 = a" by (simp add: algebra_simps)
  with e show "b64_byte (a * 65536 + b * 256 + c) 16 = char_of a"
    and "b64_byte (a * 65536 + b * 256 + c) 8 = char_of b"
    and "b64_byte (a * 65536 + b * 256 + c) 0 = char_of c"
    and "b64_byte ((a * 256 + b) * 4) 10 = char_of a"
    and "b64_byte ((a * 256 + b) * 4) 2 = char_of b"
    and "b64_byte (a * 16) 4 = char_of a"
    using assms m unfolding b64_byte_def by (simp_all add: mod_mult_self3)
qed
lemma b64_sextets:
  fixes a b c :: nat
  assumes "a < 256" "b < 256" "c < 256"
  shows "a div 4 < 64" "a mod 4 * 16 < 64" "a mod 4 * 16 + b div 16 < 64"
    "b mod 16 * 4 < 64" "b mod 16 * 4 + c div 64 < 64" "c mod 64 < 64"
proof -
  have "a mod 4 < 4" "b div 16 < 16" "b mod 16 < 16" "c div 64 < 4"
    using assms by (simp_all add: less_mult_imp_div_less)
  then show "a div 4 < 64" "a mod 4 * 16 < 64" "a mod 4 * 16 + b div 16 < 64"
    "b mod 16 * 4 < 64" "b mod 16 * 4 + c div 64 < 64" "c mod 64 < 64"
    using assms by (simp_all add: less_mult_imp_div_less)
qed

lemma b64_mod_small: "v < 16777216 \<Longrightarrow> (v::nat) mod 2 ^ 32 = v"
  by simp

lemma DecodeB64_loop_encode:
  assumes "r \<le> length pre" and "n mod 4 = 0"
  shows "\<exists>rest'. DecodeB64_loop (pre @ b64_encode xs @ NUL # rest) (length pre) r n 0
     = Some (r + length xs, take r pre @ xs @ NUL # rest')"
  using assms
proof (induction xs arbitrary: pre r n rule: b64_encode.induct)
  case 1
  then show ?case using DecodeB64_end by simp
next
  case (2 x)
  let ?a = "of_char x :: nat"
  let ?v1 = "?a div 4" let ?v2 = "?a mod 4 * 16"
  have lt: "?a < 256" by simp
  then have v: "?v1 < 64" "?v2 < 64" using b64_sextets(1,2) [of ?a 0 0] by simp_all
  let ?pre = "((pre @ [b64_char ?v1]) @ [b64_char ?v2]) @ CHR ''='' # [CHR ''='']"
  have n: "Suc n mod 4 \<noteq> 0" "Suc (Suc n) mod 4 \<noteq> 0" "Suc (Suc n) mod 4 = 2"
    using 2(2) by (simp_all add: mod_Suc)
  have c: "((0 * 64 + ?v1) mod 2 ^ 32 * 64 + ?v2) mod 2 ^ 32 = ?a * 16"
    using v lt by (simp add: b64_recombine1)
  have "DecodeB64_loop (pre @ b64_encode [x] @ NUL # rest) (length pre) r n 0
      = DecodeB64_loop (?pre @ NUL # rest) (length ?pre) r (Suc (Suc n)) (?a * 16)"
    using DecodeB64_sextet [OF v(1) n(1), of pre "b64_char ?v2 # ''=='' @ NUL # rest" r 0]
      DecodeB64_sextet [OF v(2) n(2), of "pre @ [b64_char ?v1]" "''=='' @ NUL # rest" r "(0 * 64 + ?v1) mod 2 ^ 32"]
      DecodeB64_equals [of "(pre @ [b64_char ?v1]) @ [b64_char ?v2]" "CHR ''='' # NUL # rest" r]
      DecodeB64_equals [of "((pre @ [b64_char ?v1]) @ [b64_char ?v2]) @ [CHR ''='']" "NUL # rest" r]
    by (simp add: Let_def c [simplified])
  moreover obtain rest' where "DecodeB64_loop (?pre @ NUL # rest) (length ?pre) r (Suc (Suc n)) (?a * 16)
      = Some (Suc r, take r ?pre @ b64_byte (?a * 16) 4 # NUL # rest')"
    using DecodeB64_end1 [of r ?pre "Suc (Suc n)" rest "?a * 16"] n 2(1) by auto
  ultimately show ?case using 2(1) b64_byte_simps(6) [OF lt, of 0 0] by simp
next
  case (3 x y)
  let ?a = "of_char x :: nat" let ?b = "of_char y :: nat"
  let ?v1 = "?a div 4" let ?v2 = "?a mod 4 * 16 + ?b div 16" let ?v3 = "?b mod 16 * 4"
  have lt: "?a < 256" "?b < 256" by simp_all
  then have v: "?v1 < 64" "?v2 < 64" "?v3 < 64" using b64_sextets(1,3,4) [of ?a ?b 0] by simp_all
  let ?pre = "((pre @ [b64_char ?v1]) @ [b64_char ?v2]) @ [b64_char ?v3]"
  have n: "Suc n mod 4 \<noteq> 0" "Suc (Suc n) mod 4 \<noteq> 0" "Suc (Suc (Suc n)) mod 4 \<noteq> 0"
      "Suc (Suc (Suc n)) mod 4 = 3"
    using 3(2) by (simp_all add: mod_Suc)
  have c: "(((0 * 64 + ?v1) mod 2 ^ 32 * 64 + ?v2) mod 2 ^ 32 * 64 + ?v3) mod 2 ^ 32 = (?a * 256 + ?b) * 4"
    using v lt b64_recombine2 [of ?a ?b] by simp
  have "DecodeB64_loop (pre @ b64_encode [x, y] @ NUL # rest) (length pre) r n 0
      = DecodeB64_loop ((?pre @ [CHR ''='']) @ NUL # rest) (length (?pre @ [CHR ''=''])) r
          (Suc (Suc (Suc n))) ((?a * 256 + ?b) * 4)"
    using DecodeB64_sextet [OF v(1) n(1), of pre "b64_char ?v2 # b64_char ?v3 # ''='' @ NUL # rest" r 0]
      DecodeB64_sextet [OF v(2) n(2), of "pre @ [b64_char ?v1]" "b64_char ?v3 # ''='' @ NUL # rest" r
         "(0 * 64 + ?v1) mod 2 ^ 32"]
      DecodeB64_sextet [OF v(3) n(3), of "(pre @ [b64_char ?v1]) @ [b64_char ?v2]" "''='' @ NUL # rest" r
         "((0 * 64 + ?v1) mod 2 ^ 32 * 64 + ?v2) mod 2 ^ 32"]
      DecodeB64_equals [of ?pre "NUL # rest" r "Suc (Suc (Suc n))" "(?a * 256 + ?b) * 4"]
    unfolding c by (simp add: Let_def)
  moreover obtain rest' where "DecodeB64_loop ((?pre @ [CHR ''='']) @ NUL # rest) (length (?pre @ [CHR ''=''])) r
          (Suc (Suc (Suc n))) ((?a * 256 + ?b) * 4)
      = Some (r + 2, take r (?pre @ [CHR ''='']) @ b64_byte ((?a * 256 + ?b) * 4) 10
           # b64_byte ((?a * 256 + ?b) * 4) 2 # NUL # rest')"
    using DecodeB64_end2 [of r "?pre @ [CHR ''='']" "Suc (Suc (Suc n))" rest "(?a * 256 + ?b) * 4"] n 3(1)
    by auto
  ultimately show ?case using 3(1) b64_byte_simps(4,5) [OF lt, of 0] by simp
next
  case (4 x y z xs)
  let ?a = "of_char x :: nat" let ?b = "of_char y :: nat" let ?c = "of_char z :: nat"
  let ?v1 = "?a div 4" let ?v2 = "?a mod 4 * 16 + ?b div 16"
  let ?v3 = "?b mod 16 * 4 + ?c div 64" let ?v4 = "?c mod 64"
  have lt: "?a < 256" "?b < 256" "?c < 256" by simp_all
  then have v: "?v1 < 64" "?v2 < 64" "?v3 < 64" "?v4 < 64"
    using b64_sextets(1,3,5,6) [of ?a ?b ?c] by simp_all
  let ?pre = "((pre @ [b64_char ?v1]) @ [b64_char ?v2]) @ [b64_char ?v3]"
  let ?R = "b64_encode xs @ NUL # rest"
  let ?w = "?a * 65536 + ?b * 256 + ?c"
  let ?c3 = "(((0 * 64 + ?v1) mod 2 ^ 32 * 64 + ?v2) mod 2 ^ 32 * 64 + ?v3) mod 2 ^ 32"
  have n: "Suc n mod 4 \<noteq> 0" "Suc (Suc n) mod 4 \<noteq> 0" "Suc (Suc (Suc n)) mod 4 \<noteq> 0"
      "Suc (Suc (Suc (Suc n))) mod 4 = 0"
    using 4(3) by (simp_all add: mod_Suc)
  have "(?v1 * 64 + ?v2) * 64 + ?v3 < 16777216" using v by auto
  then have c3: "?c3 = (?v1 * 64 + ?v2) * 64 + ?v3" using v by simp
  have w: "?w = (?c3 * 64 + ?v4) mod 2 ^ 32"
  proof -
    have "?w < 16777216" using lt by linarith
    then have "?w < 2 ^ 32" by simp
    then show ?thesis unfolding c3 b64_recombine by (simp only: mod_less)
  qed
  have "DecodeB64_loop (pre @ b64_encode (x # y # z # xs) @ NUL # rest) (length pre) r n 0
      = DecodeB64_loop (?pre @ b64_char ?v4 # ?R) (length ?pre) r (Suc (Suc (Suc n))) ?c3"
    using DecodeB64_sextet [OF v(1) n(1), of pre "b64_char ?v2 # b64_char ?v3 # b64_char ?v4 # ?R" r 0]
      DecodeB64_sextet [OF v(2) n(2), of "pre @ [b64_char ?v1]" "b64_char ?v3 # b64_char ?v4 # ?R" r
         "(0 * 64 + ?v1) mod 2 ^ 32"]
      DecodeB64_sextet [OF v(3) n(3), of "(pre @ [b64_char ?v1]) @ [b64_char ?v2]" "b64_char ?v4 # ?R" r
         "((0 * 64 + ?v1) mod 2 ^ 32 * 64 + ?v2) mod 2 ^ 32"]
    by (simp add: Let_def)
  moreover have "r + 2 \<le> length ?pre" using 4(2) by simp
  from DecodeB64_sextet4 [OF v(4) n(4) this w refl, of ?R]
  obtain pre' where p: "length pre' = Suc (length ?pre)"
      "take (r + 3) pre' = take r ?pre @ [b64_byte ?w 16, b64_byte ?w 8, b64_byte ?w 0]"
      "DecodeB64_loop (?pre @ b64_char ?v4 # ?R) (length ?pre) r (Suc (Suc (Suc n))) ?c3
       = DecodeB64_loop (pre' @ ?R) (length pre') (r + 3) (Suc (Suc (Suc (Suc n)))) 0"
    by blast
  moreover have "r + 3 \<le> length pre'" using p(1) 4(2) by simp
  from 4(1) [OF refl refl refl this n(4)] obtain rest' where
    "DecodeB64_loop (pre' @ ?R) (length pre') (r + 3) (Suc (Suc (Suc (Suc n)))) 0
     = Some (r + 3 + length xs, take (r + 3) pre' @ xs @ NUL # rest')" by blast
  ultimately show ?case using 4(2) b64_byte_simps(1-3) [OF lt] by simp
qed
text \<open>
  C29. decoding in place undoes standard Base64 encoding: on an array that holds the encoding
  of any byte sequence, \<open>DecodeB64\<close> stays inside the array, returns the length of the
  sequence and leaves it, NUL-terminated, at the front of the array.
\<close>

lemma DecodeB64_encode:
  "\<exists>rest'. DecodeB64 (b64_encode xs @ NUL # rest) = Some (length xs, xs @ NUL # rest')"
  using DecodeB64_loop_encode [of 0 "[]" 0 xs rest] by (simp add: DecodeB64_def)

section \<open>URL decoding\<close>

lemma URLDecode_loop_spec:
  assumes "NUL \<notin> set s" and "NUL \<notin> set g"
  shows "\<exists>g'. URLDecode_loop (pre @ s @ g @ r) (length pre + length s) (length pre)
     = Some (length pre + length (url_decode s), pre @ url_decode s @ g' @ r)
     \<and> length g' + length (url_decode s) = length s + length g \<and> NUL \<notin> set g'"
  using assms
proof (induction s arbitrary: pre g rule: url_decode.induct)
  case (1 c a b s)
  let ?L = "pre @ (c # a # b # s) @ g @ r"
  have rd: "c_rd ?L (length pre) = Some c" "c_rd ?L (Suc (length pre)) = Some a"
    "c_rd ?L (Suc (Suc (length pre))) = Some b"
    by (simp_all add: c_rd_def nth_append)
  show ?case
  proof (cases "c = CHR ''%'' \<and> 0 \<le> Hex2Int a \<and> 0 \<le> Hex2Int b")
    case True
    let ?x = "char_of (nat (Hex2Int a * 16 + Hex2Int b)) :: char"
    define g2 where "g2 = drop (length s) (a # b # s) @ g"
    have g2: "NUL \<notin> set g2" "length g2 = 2 + length g"
      using 1(3,4) by (auto simp: g2_def dest: in_set_dropD)
    have sp: "drop (length s) (a # b # s @ g @ r) = g2 @ r"
      using drop_append [of "length s" "a # b # s" "g @ r"] by (simp add: g2_def)
    have "c_wr ?L (length pre) ?x = Some (pre @ (?x # a # b # s) @ g @ r)"
      by (simp add: c_wr_def)
    moreover have "c_memmove (pre @ (?x # a # b # s) @ g @ r) (length pre + 1) (length pre + 3) (length s)
        = Some ((pre @ [?x]) @ s @ g2 @ r)"
      by (simp add: c_memmove_def c_bytes_def c_cpy_def sp numeral_eq_Suc)
    ultimately have e: "URLDecode_loop ?L (length pre + length (c # a # b # s)) (length pre)
       = URLDecode_loop ((pre @ [?x]) @ s @ g2 @ r) (length (pre @ [?x]) + length s) (length (pre @ [?x]))"
      using True 1(3) rd by (subst URLDecode_loop.simps) (simp add: Let_def)
    have "NUL \<notin> set s" using 1(3) by simp
    from 1(1) [OF True this g2(1), of "pre @ [?x]"] e True g2(2) show ?thesis by auto
  next
    case False
    have e: "URLDecode_loop ?L (length pre + length (c # a # b # s)) (length pre)
       = URLDecode_loop ((pre @ [c]) @ (a # b # s) @ g @ r) (length (pre @ [c]) + length (a # b # s)) (length (pre @ [c]))"
      using False 1(3) rd by (subst URLDecode_loop.simps) (auto simp: Let_def)
    have u: "url_decode (c # a # b # s) = c # url_decode (a # b # s)" using False by auto
    have "NUL \<notin> set (a # b # s)" using 1(3) by simp
    from 1(2) [OF False this 1(4), of "pre @ [c]"] e show ?thesis
      by (simp add: u del: url_decode.simps)
  qed
next
  case (2 c a)
  let ?L = "pre @ [c, a] @ g @ r"
  have rd: "c_rd ?L (length pre) = Some c" "c_rd ?L (Suc (length pre)) = Some a"
    by (simp_all add: c_rd_def nth_append)
  have "URLDecode_loop ?L (Suc (Suc (length pre))) (length pre)
     = URLDecode_loop ?L (Suc (Suc (length pre))) (Suc (length pre))"
    using 2 rd by (subst URLDecode_loop.simps) auto
  also have "\<dots> = URLDecode_loop ?L (Suc (Suc (length pre))) (Suc (Suc (length pre)))"
    using 2 rd by (subst URLDecode_loop.simps) auto
  also have "\<dots> = Some (Suc (Suc (length pre)), ?L)" by (subst URLDecode_loop.simps) simp
  finally show ?case using 2 by auto
next
  case (3 c)
  have "c_rd (pre @ [c] @ g @ r) (length pre) = Some c" by (simp add: c_rd_def)
  with 3 show ?case
    by (subst URLDecode_loop.simps) (auto simp: URLDecode_loop.simps [of _ _ "Suc _"])
next
  case 4
  then show ?case by (subst URLDecode_loop.simps) auto
qed

lemma URLDecode_in_place:
  assumes "NUL \<notin> set s"
  shows "\<exists>g. URLDecode (s @ NUL # rest) = Some (length (url_decode s), url_decode s @ g @ NUL # rest)
     \<and> length g + length (url_decode s) = length s \<and> NUL \<notin> set g"
  using URLDecode_loop_spec [OF assms, of "[]" "[]" "NUL # rest"] assms
  by (auto simp: URLDecode_def c_str_app)

lemma url_decode_le: "length (url_decode s) \<le> length s"
  by (induction s rule: url_decode.induct) auto

text \<open>
  \<open>URLDecode\<close> returns the length of the percent-decoded text and leaves that text at
  the front of the array, but it never moves the terminator: read as a C string, the array
  still has the length of the undecoded input, so a caller that ignores the returned length
  sees stale characters after the decoded text.
\<close>

theorem URLDecode_unterminated:
  assumes "NUL \<notin> set s" and "NUL \<notin> set (url_decode s)"
    and "URLDecode (s @ NUL # rest) = Some (n, buf)"
  shows "n = length (url_decode s)
    \<and> (\<exists>t. c_str buf 0 = Some t \<and> take n t = url_decode s \<and> length t = length s)"
proof -
  from URLDecode_in_place [OF assms(1), of rest] assms(3) obtain g where
    n: "n = length (url_decode s)" and buf: "buf = (url_decode s @ g) @ NUL # rest"
    and g: "length g + length (url_decode s) = length s" "NUL \<notin> set g" by auto
  have "c_str buf 0 = Some (url_decode s @ g)"
    unfolding buf using assms(2) g(2) by (intro c_str_app) simp
  with n g(1) show ?thesis by auto
qed

theorem URLDecode_unterminated_witness:
  "\<exists>t. c_str (''a b0b'' @ [NUL]) 0 = Some t \<and> take 3 t = url_decode ''a%20b'' \<and> length t = 5"
proof -
  have d: "URLDecode (''a%20b'' @ NUL # []) = Some (3, ''a b0b'' @ [NUL])"
    by code_simp
  have h1: "NUL \<notin> set ''a%20b''" by simp
  have h2: "NUL \<notin> set (url_decode ''a%20b'')" by code_simp
  have h3: "length ''a%20b'' = 5" by simp
  from URLDecode_unterminated [OF h1 h2 d] show ?thesis unfolding h3 by blast
qed

end
