(* ===== verification/Device.thy ===== *)
theory Device
  imports Utils "HOL-Library.Signed_Division"
begin

text \<open>
  \<^verbatim>\<open>lwip-port/win32/arch/port_device.c\<close>: the device's identity and its configuration.
  There are two copies of the configuration: the working one, which the getters read, and
  the one under edit, which the setters write; \<open>LoadConfig4Edit\<close> and \<open>AppyConfig\<close>
  copy between them. \<open>g_ipIsReady\<close> of \<^verbatim>\<open>lwip_api.c\<close> belongs to the same state,
  because applying a changed DHCP setting clears it. The mutex calls around the copies
  have no effect in this sequential model.
\<close>

unbundle bit_operations_syntax

section \<open>Data\<close>

record DeviceConfig =
  nDhcpEnabled :: u32
  dwIP :: u32
  dwSubnet :: u32
  dwGateway :: u32
  nLog :: s32
  nSessionTimeout :: s32
  szColor :: cbuf
  szDate :: cbuf
  szFont :: cbuf
  szLocation :: cbuf

record device =
  g_WorkConfig :: DeviceConfig
  g_TempConfig :: DeviceConfig
  g_ipIsReady :: s32

definition GetVendor :: string where "GetVendor = ''Straight''"
definition GetVendorURL :: string where "GetVendorURL = ''https://github.com/straight-coding/''"
definition GetModel :: string where "GetModel = ''straight-httpd''"
definition GetModelURL :: string where
  "GetModelURL = ''https://github.com/straight-coding/straight-httpd''"
definition GetDeviceName :: string where "GetDeviceName = ''Virtual Device''"
definition GetDeviceSN :: string where "GetDeviceSN = ''2020-04-10''"
definition GetDeviceUUID :: string where
  "GetDeviceUUID = ''A5757C42-0234-4600-8E0F-8551B7EAEB7A''"
definition GetDeviceVersion :: string where "GetDeviceVersion = ''v1.0.0''"
definition GetMyMAC :: "u8 list" where "GetMyMAC = [0, 0, 0, 0x20, 0xAA, 0x74]"

section \<open>Operations\<close>

definition zeroConfig :: DeviceConfig where
  "zeroConfig = \<lparr>nDhcpEnabled = 0, dwIP = 0, dwSubnet = 0, dwGateway = 0, nLog = 0,
     nSessionTimeout = 0, szColor = replicate 16 NUL, szDate = replicate 16 NUL,
     szFont = replicate 16 NUL, szLocation = replicate 16 NUL\<rparr>"

definition InitDevInfo :: "device \<Rightarrow> device" where
  "InitDevInfo d =
     (let c = zeroConfig\<lparr>nDhcpEnabled := 1, dwIP := 0, dwSubnet := 0, dwGateway := 0,
                nLog := 0, nSessionTimeout := 3 * 60 * 1000\<rparr>
      in d\<lparr>g_WorkConfig := c, g_TempConfig := c\<rparr>)"

definition IsDhcpEnabled :: "device \<Rightarrow> u32" where
  "IsDhcpEnabled d = nDhcpEnabled (g_WorkConfig d)"

text \<open>
  The \<^verbatim>\<open>Fill...\<close> providers write a formatted value to the buffer (\<open>LWIP_sprintf\<close> or
  \<^verbatim>\<open>strncpy\<close>) and return its length, at most \<open>maxSize\<close>.
\<close>

definition fill_str :: "cbuf \<Rightarrow> nat \<Rightarrow> string \<Rightarrow> (nat \<times> cbuf) option" where
  "fill_str buffer maxSize s =
     do { buffer \<leftarrow> c_strcpy buffer 0 s;
          t \<leftarrow> c_str buffer 0;
          Some (if length t < maxSize then length t else maxSize, buffer) }"

definition fill_strn :: "cbuf \<Rightarrow> nat \<Rightarrow> string \<Rightarrow> (nat \<times> cbuf) option" where
  "fill_strn buffer maxSize s =
     do { buffer \<leftarrow> c_strncpy buffer 0 s maxSize;
          t \<leftarrow> c_str buffer 0;
          Some (if length t < maxSize then length t else maxSize, buffer) }"

definition FillDhcp :: "device \<Rightarrow> cbuf \<Rightarrow> nat \<Rightarrow> (nat \<times> cbuf) option" where
  "FillDhcp d buffer maxSize =
     (if 0 < nDhcpEnabled (g_WorkConfig d) then fill_str buffer maxSize (fmt_u 1)
      else fill_str buffer maxSize (fmt_u 0))"

definition GetMyIP :: "device \<Rightarrow> u32" where "GetMyIP d = dwIP (g_WorkConfig d)"
definition GetGateway :: "device \<Rightarrow> u32" where "GetGateway d = dwGateway (g_WorkConfig d)"
definition GetSubnet :: "device \<Rightarrow> u32" where "GetSubnet d = dwSubnet (g_WorkConfig d)"

definition SetMyIPLong :: "u32 \<Rightarrow> device \<Rightarrow> device" where
  "SetMyIPLong addr d = d\<lparr>g_WorkConfig := (g_WorkConfig d)\<lparr>dwIP := addr\<rparr>\<rparr>"

definition SetGatewayLong :: "u32 \<Rightarrow> device \<Rightarrow> device" where
  "SetGatewayLong addr d = d\<lparr>g_WorkConfig := (g_WorkConfig d)\<lparr>dwGateway := addr\<rparr>\<rparr>"

definition SetSubnetLong :: "u32 \<Rightarrow> device \<Rightarrow> device" where
  "SetSubnetLong addr d = d\<lparr>g_WorkConfig := (g_WorkConfig d)\<lparr>dwSubnet := addr\<rparr>\<rparr>"

definition GetSessionTimeout :: "device \<Rightarrow> s32" where
  "GetSessionTimeout d = nSessionTimeout (g_WorkConfig d)"

text \<open>\<^verbatim>\<open>%u\<close> of the signed quotient, which is read as an unsigned value.\<close>

definition FillSessionTimeout :: "device \<Rightarrow> cbuf \<Rightarrow> nat \<Rightarrow> (nat \<times> cbuf) option" where
  "FillSessionTimeout d buffer maxSize =
     fill_str buffer maxSize
       (fmt_u (nat (sint (nSessionTimeout (g_WorkConfig d)) sdiv (60 * 1000) mod 2 ^ 32)))"

definition FillMAC :: "cbuf \<Rightarrow> nat \<Rightarrow> (nat \<times> cbuf) option" where
  "FillMAC buffer maxSize =
     fill_strn buffer maxSize
       (let x = (\<lambda>i. pad0 2 (fmt_X (unat (GetMyMAC ! i))))
        in x 0 @ '':'' @ x 1 @ '':'' @ x 2 @ '':'' @ x 3 @ '':'' @ x 4 @ '':'' @ x 5)"

text \<open>The four bytes of an address, most significant first, in decimal.\<close>

definition dotted :: "u32 \<Rightarrow> string" where
  "dotted ip =
     fmt_u (unat (drop_bit 24 (ip AND 0xFF000000))) @ ''.'' @
     fmt_u (unat (drop_bit 16 (ip AND 0x00FF0000))) @ ''.'' @
     fmt_u (unat (drop_bit 8 (ip AND 0x0000FF00))) @ ''.'' @
     fmt_u (unat (ip AND 0x000000FF))"

definition FillIP :: "device \<Rightarrow> cbuf \<Rightarrow> nat \<Rightarrow> (nat \<times> cbuf) option" where
  "FillIP d buffer maxSize = fill_strn buffer maxSize (dotted (GetMyIP d))"

definition FillGateway :: "device \<Rightarrow> cbuf \<Rightarrow> nat \<Rightarrow> (nat \<times> cbuf) option" where
  "FillGateway d buffer maxSize = fill_strn buffer maxSize (dotted (GetGateway d))"

definition FillSubnet :: "device \<Rightarrow> cbuf \<Rightarrow> nat \<Rightarrow> (nat \<times> cbuf) option" where
  "FillSubnet d buffer maxSize = fill_strn buffer maxSize (dotted (GetSubnet d))"

definition GetLocation :: "device \<Rightarrow> string option" where
  "GetLocation d = c_str (szLocation (g_WorkConfig d)) 0"
definition GetColor :: "device \<Rightarrow> string option" where
  "GetColor d = c_str (szColor (g_WorkConfig d)) 0"
definition GetDate :: "device \<Rightarrow> string option" where
  "GetDate d = c_str (szDate (g_WorkConfig d)) 0"
definition GetFont :: "device \<Rightarrow> string option" where
  "GetFont d = c_str (szFont (g_WorkConfig d)) 0"

definition FillLog :: "device \<Rightarrow> cbuf \<Rightarrow> nat \<Rightarrow> (nat \<times> cbuf) option" where
  "FillLog d buffer maxSize =
     (if 0 < sint (nLog (g_WorkConfig d)) then fill_str buffer maxSize (fmt_u 1)
      else fill_str buffer maxSize (fmt_u 0))"

definition LoadConfig4Edit :: "device \<Rightarrow> device" where
  "LoadConfig4Edit d = d\<lparr>g_TempConfig := g_WorkConfig d\<rparr>"

definition AppyConfig :: "device \<Rightarrow> device" where
  "AppyConfig d =
     (let dhcpChanged = (nDhcpEnabled (g_WorkConfig d) \<noteq> nDhcpEnabled (g_TempConfig d));
          d = d\<lparr>g_WorkConfig := g_TempConfig d\<rparr>
      in if dhcpChanged then d\<lparr>g_ipIsReady := 0\<rparr> else d)"

definition SetLocation :: "string \<Rightarrow> device \<Rightarrow> device option" where
  "SetLocation value d =
     do { b \<leftarrow> c_strncpy (c_memset0 (szLocation (g_TempConfig d))) 0 value
                (length (szLocation (g_TempConfig d)) - 1);
          Some (d\<lparr>g_TempConfig := (g_TempConfig d)\<lparr>szLocation := b\<rparr>\<rparr>) }"

definition SetColor :: "string \<Rightarrow> device \<Rightarrow> device option" where
  "SetColor value d =
     do { b \<leftarrow> c_strncpy (c_memset0 (szColor (g_TempConfig d))) 0 value
                (length (szColor (g_TempConfig d)) - 1);
          Some (d\<lparr>g_TempConfig := (g_TempConfig d)\<lparr>szColor := b\<rparr>\<rparr>) }"

definition SetDate :: "string \<Rightarrow> device \<Rightarrow> device option" where
  "SetDate value d =
     do { b \<leftarrow> c_strncpy (c_memset0 (szDate (g_TempConfig d))) 0 value
                (length (szDate (g_TempConfig d)) - 1);
          Some (d\<lparr>g_TempConfig := (g_TempConfig d)\<lparr>szDate := b\<rparr>\<rparr>) }"

definition SetFont :: "string \<Rightarrow> device \<Rightarrow> device option" where
  "SetFont value d =
     do { b \<leftarrow> c_strncpy (c_memset0 (szFont (g_TempConfig d))) 0 value
                (length (szFont (g_TempConfig d)) - 1);
          Some (d\<lparr>g_TempConfig := (g_TempConfig d)\<lparr>szFont := b\<rparr>\<rparr>) }"

definition SetLog :: "string \<Rightarrow> device \<Rightarrow> device" where
  "SetLog value d = d\<lparr>g_TempConfig := (g_TempConfig d)\<lparr>nLog := ston value\<rparr>\<rparr>"

definition SetDhcpEnabled :: "string \<Rightarrow> device \<Rightarrow> device" where
  "SetDhcpEnabled value d =
     d\<lparr>g_TempConfig := (g_TempConfig d)\<lparr>nDhcpEnabled := (if ston value \<noteq> 0 then 1 else 0)\<rparr>\<rparr>"

definition SetSessionTimeout :: "string \<Rightarrow> device \<Rightarrow> device" where
  "SetSessionTimeout value d =
     d\<lparr>g_TempConfig := (g_TempConfig d)\<lparr>nSessionTimeout := 60 * 1000 * ston value\<rparr>\<rparr>"

definition SetMyIP :: "string \<Rightarrow> device \<Rightarrow> device" where
  "SetMyIP addr d = d\<lparr>g_TempConfig := (g_TempConfig d)\<lparr>dwIP := GetIpAddress addr\<rparr>\<rparr>"

definition SetGateway :: "string \<Rightarrow> device \<Rightarrow> device" where
  "SetGateway addr d = d\<lparr>g_TempConfig := (g_TempConfig d)\<lparr>dwGateway := GetIpAddress addr\<rparr>\<rparr>"

definition SetSubnet :: "string \<Rightarrow> device \<Rightarrow> device" where
  "SetSubnet addr d = d\<lparr>g_TempConfig := (g_TempConfig d)\<lparr>dwSubnet := GetIpAddress addr\<rparr>\<rparr>"

section \<open>Well-formed configurations\<close>

definition wf_config :: "DeviceConfig \<Rightarrow> bool" where
  "wf_config c \<longleftrightarrow> (\<forall>b \<in> {szColor c, szDate c, szFont c, szLocation c}.
     length b = 16 \<and> b ! 15 = NUL)"

definition wf_device :: "device \<Rightarrow> bool" where
  "wf_device d \<longleftrightarrow> wf_config (g_WorkConfig d) \<and> wf_config (g_TempConfig d)"

lemma byte_field:
  fixes ip :: u32
  assumes "k + 8 \<le> 32"
  shows "unat (drop_bit k (ip AND push_bit k 0xFF)) = unat ip div 2 ^ k mod 256"
proof -
  have ff: "(0xFF :: u32) = mask 8" by (simp add: mask_eq_exp_minus_1)
  have "drop_bit k (ip AND push_bit k (mask 8)) = take_bit 8 (drop_bit k ip)"
    using assms by (intro bit_word_eqI) (auto simp: bit_simps)
  then have "unat (drop_bit k (ip AND push_bit k 0xFF)) = unat (take_bit 8 (drop_bit k ip))"
    by (simp only: ff)
  also have "\<dots> = take_bit 8 (drop_bit k (unat ip))"
    using assms by (simp only: unsigned_take_bit_eq unsigned_drop_bit_eq)
      (simp add: take_bit_drop_bit min_def)
  finally show ?thesis by (simp only: take_bit_eq_mod drop_bit_eq_div) simp
qed

lemma dotted_bytes:
  "dotted ip =
     fmt_u (unat ip div 2 ^ 24 mod 256) @ ''.'' @ fmt_u (unat ip div 2 ^ 16 mod 256) @ ''.'' @
     fmt_u (unat ip div 2 ^ 8 mod 256) @ ''.'' @ fmt_u (unat ip mod 256)"
  using byte_field [of 24 ip] byte_field [of 16 ip] byte_field [of 8 ip] byte_field [of 0 ip]
  by (simp add: dotted_def push_bit_eq_mult)

lemma base256:
  assumes "n < 4294967296"
  shows "((n div 2 ^ 24 mod 256 * 256 + n div 2 ^ 16 mod 256) * 256 + n div 2 ^ 8 mod 256) * 256
     + n mod 256 = (n :: nat)"
proof -
  define q1 q2 q3 where q: "q1 = n div 256" "q2 = q1 div 256" "q3 = q2 div 256"
  have e: "n div 2 ^ 8 = q1" "n div 2 ^ 16 = q2" "n div 2 ^ 24 = q3"
    by (simp_all add: q div_mult2_eq [symmetric])
  have "q3 < 256" using assms by (simp add: q div_mult2_eq [symmetric] less_mult_imp_div_less)
  moreover have "n = q1 * 256 + n mod 256" "q1 = q2 * 256 + q1 mod 256" "q2 = q3 * 256 + q2 mod 256"
    by (simp_all only: q div_mult_mod_eq)
  ultimately show ?thesis unfolding e by simp
qed

lemma GetIpAddress_of_dotted: "GetIpAddress (dotted ip) = ip"
proof -
  have "GetIpAddress (dotted ip) = of_nat (unat ip)"
    unfolding dotted_bytes
    by (subst GetIpAddress_dotted) (simp_all only: base256 [OF unat_u32_lt] mod_less_divisor zero_less_numeral)
  then show ?thesis by simp
qed

lemma length_dotted: "length (dotted ip) \<le> 15"
proof -
  have l: "length (fmt_u (n mod 256)) \<le> 3" for n :: nat
    by (rule length_fmt_u_le) (auto intro: less_trans [of _ 256])
  show ?thesis unfolding dotted_bytes 
    using l [of "unat ip div 2 ^ 24"] l [of "unat ip div 2 ^ 16"] l [of "unat ip div 2 ^ 8"] l [of "unat ip"]
    by (simp del: fmt_nat.simps)
qed

lemma NUL_notin_fmt_u: "NUL \<notin> set (fmt_u n)"
  using fmt_u_digits not_digit_special(2) by blast

lemma NUL_notin_dotted: "NUL \<notin> set (dotted ip)"
  by (simp add: dotted_def NUL_notin_fmt_u)

lemma fill_strn_short:
  assumes "NUL \<notin> set s" "length s < maxSize" "maxSize \<le> length b"
  shows "\<exists>b'. fill_strn b maxSize s = Some (length s, b') \<and> c_str b' 0 = Some s \<and> length b' = length b"
proof -
  obtain k where k: "maxSize = length s + Suc k" using assms(2) less_iff_Suc_add by auto
  then have t: "take maxSize (s @ replicate maxSize NUL) = s @ NUL # replicate k NUL"
    by simp
  have "c_strncpy b 0 s maxSize = Some (s @ NUL # replicate k NUL @ drop maxSize b)"
    unfolding c_strncpy_def t c_cpy_def using assms k by simp
  then show ?thesis using assms k by (simp add: fill_strn_def c_str_app)
qed

lemma fill_str_fits:
  assumes "NUL \<notin> set s" "length s < length b" "length s < maxSize"
  shows "\<exists>b'. fill_str b maxSize s = Some (length s, b') \<and> c_str b' 0 = Some s \<and> length b' = length b"
  using assms by (simp add: fill_str_def c_strcpy_def c_cpy_def c_str_app)

lemma wf_configI [intro]:
  "\<lbrakk>length (szColor c) = 16; szColor c ! 15 = NUL; length (szDate c) = 16; szDate c ! 15 = NUL;
    length (szFont c) = 16; szFont c ! 15 = NUL; length (szLocation c) = 16; szLocation c ! 15 = NUL\<rbrakk>
   \<Longrightarrow> wf_config c"
  by (simp add: wf_config_def)

lemma wf_device_InitDevInfo: "wf_device (InitDevInfo d)"
  by (simp add: wf_device_def wf_config_def InitDevInfo_def zeroConfig_def Let_def)

lemma wf_device_LoadConfig4Edit: "wf_device d \<Longrightarrow> wf_device (LoadConfig4Edit d)"
  by (simp add: wf_device_def LoadConfig4Edit_def)

lemma wf_device_AppyConfig: "wf_device d \<Longrightarrow> wf_device (AppyConfig d)"
  by (simp add: wf_device_def AppyConfig_def Let_def)

lemma AppyConfig_work [simp]: "g_WorkConfig (AppyConfig d) = g_TempConfig d"
  by (simp add: AppyConfig_def Let_def)

lemma LoadConfig4Edit_sel [simp]:
  "g_WorkConfig (LoadConfig4Edit d) = g_WorkConfig d"
  "g_TempConfig (LoadConfig4Edit d) = g_WorkConfig d"
  by (simp_all add: LoadConfig4Edit_def)

text \<open>A text field of 16 bytes is cleared and filled with at most 15 bytes of the value.\<close>

lemma strncpy_field:
  assumes "NUL \<notin> set v" and "length b = 16"
  shows "\<exists>b'. c_strncpy (c_memset0 b) 0 v (length b - 1) = Some b' \<and> length b' = 16 \<and>
     b' ! 15 = NUL \<and> c_str b' 0 = Some (take 15 v)"
proof -
  let ?t = "take 15 (v @ replicate 15 NUL)"
  have l: "length ?t = 15" by simp
  have e: "c_strncpy (c_memset0 b) 0 v (length b - 1) = Some (?t @ [NUL])"
    using assms(2) l by (simp add: c_strncpy_def c_cpy_def c_memset0_def del: take_append length_take)
  have s: "?t @ [NUL] = take 15 v @ NUL # replicate (15 - length v) NUL"
    by (simp add: replicate_append_same)
  have n: "NUL \<notin> set (take 15 v)" using assms(1) in_set_takeD by force
  have "c_str (?t @ [NUL]) 0 = Some (take 15 v)"
    unfolding s by (rule c_str_app [OF n])
  moreover have "(?t @ [NUL]) ! 15 = NUL" using l by (metis nth_append_length)
  moreover have "length (?t @ [NUL]) = 16" using l by (simp del: length_take)
  ultimately show ?thesis using e by blast
qed

section \<open>Settings\<close>

text \<open>
  What a setting promises: writing it succeeds on every C string, keeps the fields well
  formed and touches only the copy under edit; after the copy is applied, the page shows
  the written value in its canonical form; what is shown depends only on the working copy.
\<close>

locale device_setting =
  fixes setter :: "string \<Rightarrow> device \<Rightarrow> device option"
    and shown :: "device \<Rightarrow> string option"
    and canon :: "string \<Rightarrow> string"
  assumes setter_total: "wf_device d \<Longrightarrow> NUL \<notin> set v \<Longrightarrow> \<exists>d'. setter v d = Some d'"
    and setter_wf: "wf_device d \<Longrightarrow> NUL \<notin> set v \<Longrightarrow> setter v d = Some d' \<Longrightarrow> wf_device d'"
    and setter_work: "setter v d = Some d' \<Longrightarrow> g_WorkConfig d' = g_WorkConfig d"
    and setter_shown: "wf_device d \<Longrightarrow> NUL \<notin> set v \<Longrightarrow> setter v d = Some d' \<Longrightarrow>
      shown (AppyConfig d') = Some (canon v)"
    and shown_work: "g_WorkConfig d = g_WorkConfig d' \<Longrightarrow> shown d = shown d'"
begin

lemma edit_invisible: "setter v d = Some d' \<Longrightarrow> shown d' = shown d"
  by (intro shown_work setter_work)

lemma edit_discarded: "setter v d = Some d' \<Longrightarrow> shown (AppyConfig (LoadConfig4Edit d')) = shown d"
  using setter_work by (intro shown_work) simp

lemma edit_applied:
  assumes "wf_device d" and "NUL \<notin> set v"
  obtains d' where "setter v d = Some d'" "wf_device (AppyConfig d')"
    "shown (AppyConfig d') = Some (canon v)"
  using setter_total [OF assms] setter_wf [OF assms] setter_shown [OF assms] wf_device_AppyConfig
  by blast

lemma last_edit_wins:
  assumes "wf_device d" "NUL \<notin> set v" "NUL \<notin> set w"
    "setter v d = Some d1" "setter w d1 = Some d2"
  shows "shown (AppyConfig d2) = Some (canon w)"
  using assms setter_shown setter_wf by blast

end

text \<open>A provider seen through the 64-byte buffer of \<open>ReplaceTag\<close>.\<close>

definition filled :: "(cbuf \<Rightarrow> nat \<Rightarrow> (nat \<times> cbuf) option) \<Rightarrow> string option" where
  "filled p = do { (n, b) \<leftarrow> p (replicate 64 NUL) 63; c_str b 0 }"

lemma filled_strn: "NUL \<notin> set s \<Longrightarrow> length s < 63 \<Longrightarrow> filled (\<lambda>b n. fill_strn b n s) = Some s"
  using fill_strn_short [of s 63 "replicate 64 NUL"] by (auto simp: filled_def)

lemma filled_str: "NUL \<notin> set s \<Longrightarrow> length s < 63 \<Longrightarrow> filled (\<lambda>b n. fill_str b n s) = Some s"
  using fill_str_fits [of s "replicate 64 NUL" 63] by (auto simp: filled_def)

lemma filled_num: "n < 10 ^ 10 \<Longrightarrow> filled (\<lambda>b m. fill_str b m (fmt_u n)) = Some (fmt_u n)"
  using length_fmt_u_le [of n 10] by (intro filled_str) (simp_all add: NUL_notin_fmt_u)

lemma filled_dotted: "filled (\<lambda>b n. fill_strn b n (dotted ip)) = Some (dotted ip)"
  using length_dotted [of ip] by (intro filled_strn) (simp_all add: NUL_notin_dotted)

lemmas wf_device_defs = wf_device_def wf_config_def

interpretation location: device_setting SetLocation GetLocation "take 15"
  by unfold_locales
    (insert strncpy_field, fastforce simp: SetLocation_def GetLocation_def wf_device_defs Option.bind_eq_Some_conv)+

interpretation color: device_setting SetColor GetColor "take 15"
  by unfold_locales
    (insert strncpy_field, fastforce simp: SetColor_def GetColor_def wf_device_defs Option.bind_eq_Some_conv)+

interpretation date: device_setting SetDate GetDate "take 15"
  by unfold_locales
    (insert strncpy_field, fastforce simp: SetDate_def GetDate_def wf_device_defs Option.bind_eq_Some_conv)+

interpretation font: device_setting SetFont GetFont "take 15"
  by unfold_locales
    (insert strncpy_field, fastforce simp: SetFont_def GetFont_def wf_device_defs Option.bind_eq_Some_conv)+

interpretation ip: device_setting "\<lambda>v d. Some (SetMyIP v d)" "\<lambda>d. filled (FillIP d)"
  "\<lambda>v. dotted (GetIpAddress v)"
  by unfold_locales
    (auto simp: SetMyIP_def FillIP_def [abs_def] GetMyIP_def wf_device_defs filled_dotted)

interpretation gateway: device_setting "\<lambda>v d. Some (SetGateway v d)" "\<lambda>d. filled (FillGateway d)"
  "\<lambda>v. dotted (GetIpAddress v)"
  by unfold_locales
    (auto simp: SetGateway_def FillGateway_def [abs_def] GetGateway_def wf_device_defs filled_dotted)

interpretation subnet: device_setting "\<lambda>v d. Some (SetSubnet v d)" "\<lambda>d. filled (FillSubnet d)"
  "\<lambda>v. dotted (GetIpAddress v)"
  by unfold_locales
    (auto simp: SetSubnet_def FillSubnet_def [abs_def] GetSubnet_def wf_device_defs filled_dotted)

definition canon_flag :: "bool \<Rightarrow> string" where "canon_flag b = (if b then ''1'' else ''0'')"

lemma fmt_u_flag: "fmt_u 0 = ''0''" "fmt_u 1 = ''1''" "fmt_u (Suc 0) = ''1''"
  by (simp_all add: fmt_u_def fmt_nat.simps digit_char_def char_of_def bit_iff_odd)

interpretation dhcp: device_setting "\<lambda>v d. Some (SetDhcpEnabled v d)" "\<lambda>d. filled (FillDhcp d)"
  "\<lambda>v. canon_flag (ston v \<noteq> 0)"
  using filled_num [of 0] filled_num [of 1]
  by unfold_locales
    (auto simp: SetDhcpEnabled_def FillDhcp_def [abs_def] wf_device_defs fmt_u_flag canon_flag_def)

interpretation log: device_setting "\<lambda>v d. Some (SetLog v d)" "\<lambda>d. filled (FillLog d)"
  "\<lambda>v. canon_flag (0 < sint (ston v))"
  using filled_num [of 0] filled_num [of 1]
  by unfold_locales
    (auto simp: SetLog_def FillLog_def [abs_def] wf_device_defs fmt_u_flag canon_flag_def)

definition canon_minutes :: "string \<Rightarrow> string" where
  "canon_minutes v = fmt_u (nat (sint (60 * 1000 * ston v) sdiv (60 * 1000) mod 2 ^ 32))"

lemma nat_mod_u32: "nat (i mod 2 ^ 32) < 10 ^ 10"
proof -
  have "i mod 2 ^ 32 < (2 ^ 32 :: int)" by (rule pos_mod_bound) simp
  then show ?thesis by simp
qed

interpretation session_timeout: device_setting "\<lambda>v d. Some (SetSessionTimeout v d)"
  "\<lambda>d. filled (FillSessionTimeout d)" canon_minutes
  using filled_num [OF nat_mod_u32]
  by unfold_locales
    (auto simp: SetSessionTimeout_def FillSessionTimeout_def [abs_def] wf_device_defs canon_minutes_def)

text \<open>Minutes that fit in the field are shown as they were written.\<close>

lemma canon_minutes_id:
  assumes "n \<le> 35791" 
  shows "canon_minutes (fmt_u n) = fmt_u n"
proof -
  have "ston (fmt_u n) = of_nat n" using ston_fmt_u [of n "[]"] by simp
  moreover have "sint (60 * 1000 * of_nat n :: s32) = 60000 * int n"
  proof -
    have "sint (of_nat (60000 * n) :: s32) = int (60000 * n)"
      using assms by (subst signed_of_nat) (simp add: signed_take_bit_int_eq_self_iff)
    then show ?thesis by simp
  qed
  ultimately show ?thesis using assms by (simp add: canon_minutes_def signed_divide_int_def sgn_if)
qed

end
