(* ===== verification/SsiTags.thy ===== *)
theory SsiTags
  imports Device
begin

text \<open>
  \<^verbatim>\<open>httpd/cgi/cgi_ssi.c\<close>: the tag tables that connect the names used in pages and forms
  with the device's getters, providers and setters, and the two lookups over them. The
  handler pointer of a table entry is a constructor that carries the function; numbers and
  text in memory are carried by value. The two formats of floating point numbers have no
  entry in the tables and no constructor.
\<close>

section \<open>Tables\<close>

datatype SSI_Handler =
    TAG_GETTER "device \<Rightarrow> string option"
  | TAG_PROVIDER "device \<Rightarrow> cbuf \<Rightarrow> nat \<Rightarrow> (nat \<times> cbuf) option"
  | TAG_BYTE u8
  | TAG_WORD u16
  | TAG_DWORD u32
  | TAG_STRING nat string
  | TAG_SETTER "string \<Rightarrow> device \<Rightarrow> device option"
  | TAG_NULL

type_synonym SSI_Tag = "string \<times> SSI_Handler"

definition g_Getters :: "SSI_Tag list" where
  "g_Getters =
     [(''DEV_VENDOR'', TAG_GETTER (\<lambda>_. Some GetVendor)),
      (''DEV_VENDOR_URL'', TAG_GETTER (\<lambda>_. Some GetVendorURL)),
      (''DEV_MODEL'', TAG_GETTER (\<lambda>_. Some GetModel)),
      (''DEV_MODEL_URL'', TAG_GETTER (\<lambda>_. Some GetModelURL)),
      (''DEV_DHCP'', TAG_PROVIDER FillDhcp),
      (''DEV_MAC'', TAG_PROVIDER (\<lambda>_. FillMAC)),
      (''DEV_IP'', TAG_PROVIDER FillIP),
      (''DEV_GATEWAY'', TAG_PROVIDER FillGateway),
      (''DEV_SUBNET'', TAG_PROVIDER FillSubnet),
      (''VAR_SESSION_TIMEOUT'', TAG_PROVIDER FillSessionTimeout),
      (''DEV_NAME'', TAG_GETTER (\<lambda>_. Some GetDeviceName)),
      (''DEV_SN'', TAG_GETTER (\<lambda>_. Some GetDeviceSN)),
      (''DEV_UUID'', TAG_GETTER (\<lambda>_. Some GetDeviceUUID)),
      (''DEV_VERSION'', TAG_GETTER (\<lambda>_. Some GetDeviceVersion)),
      (''VAR_LOCATION'', TAG_GETTER GetLocation),
      (''VAR_COLOR'', TAG_GETTER GetColor),
      (''VAR_DATE'', TAG_GETTER GetDate),
      (''VAR_FONT'', TAG_GETTER GetFont),
      (''VAR_LOG'', TAG_PROVIDER FillLog)]"

definition g_Setters :: "SSI_Tag list" where
  "g_Setters =
     [(''DEV_DHCP'', TAG_SETTER (\<lambda>v d. Some (SetDhcpEnabled v d))),
      (''VAR_SESSION_TIMEOUT'', TAG_SETTER (\<lambda>v d. Some (SetSessionTimeout v d))),
      (''DEV_IP'', TAG_SETTER (\<lambda>v d. Some (SetMyIP v d))),
      (''DEV_GATEWAY'', TAG_SETTER (\<lambda>v d. Some (SetGateway v d))),
      (''DEV_SUBNET'', TAG_SETTER (\<lambda>v d. Some (SetSubnet v d))),
      (''VAR_LOCATION'', TAG_SETTER SetLocation),
      (''VAR_COLOR'', TAG_SETTER SetColor),
      (''VAR_DATE'', TAG_SETTER SetDate),
      (''VAR_FONT'', TAG_SETTER SetFont),
      (''VAR_LOG'', TAG_SETTER (\<lambda>v d. Some (SetLog v d)))]"

section \<open>Lookups\<close>

fun TAG_Setter_loop :: "SSI_Tag list \<Rightarrow> string \<Rightarrow> string \<Rightarrow> device \<Rightarrow> device option" where
  "TAG_Setter_loop [] name value d = Some d"
| "TAG_Setter_loop ((tagName, h) # tags) name value d =
     (if tagName \<noteq> name then TAG_Setter_loop tags name value d
      else case h of TAG_SETTER setter \<Rightarrow> setter value d | _ \<Rightarrow> Some d)"

definition TAG_Setter :: "string \<Rightarrow> string \<Rightarrow> device \<Rightarrow> device option" where
  "TAG_Setter name value d = TAG_Setter_loop g_Setters name value d"

text \<open>The loop of \<open>ReplaceTag\<close> fills the temporary buffer with the value of the first match.\<close>

definition tag_value :: "SSI_Handler \<Rightarrow> device \<Rightarrow> cbuf \<Rightarrow> cbuf option" where
  "tag_value h d szTemp = (case h of
       TAG_GETTER getter \<Rightarrow> do { s \<leftarrow> getter d; c_strncpy szTemp 0 s (length szTemp - 1) }
     | TAG_PROVIDER producer \<Rightarrow> do { (n, b) \<leftarrow> producer d szTemp (length szTemp - 1); Some b }
     | TAG_STRING sz s \<Rightarrow> c_strncpy szTemp 0 s (min sz (length szTemp - 1))
     | TAG_BYTE b \<Rightarrow> c_strcpy szTemp 0 (fmt_u (unat b))
     | TAG_WORD w \<Rightarrow> c_strcpy szTemp 0 (fmt_u (unat w))
     | TAG_DWORD w \<Rightarrow> c_strcpy szTemp 0 (fmt_u (unat w))
     | TAG_SETTER f \<Rightarrow> Some szTemp
     | TAG_NULL \<Rightarrow> Some szTemp)"

fun ReplaceTag_loop :: "SSI_Tag list \<Rightarrow> string \<Rightarrow> device \<Rightarrow> cbuf \<Rightarrow> cbuf option" where
  "ReplaceTag_loop [] name d szTemp = Some szTemp"
| "ReplaceTag_loop ((tagName, h) # tags) name d szTemp =
     (if tagName \<noteq> name then ReplaceTag_loop tags name d szTemp else tag_value h d szTemp)"

text \<open>
  \<^verbatim>\<open>appendTo\<close> is the position \<open>i\<close> of the array \<open>out\<close>; the result is the number of
  bytes stored there. A negative bound makes \<^verbatim>\<open>strncpy\<close> run out of the array.
\<close>

definition ReplaceTag :: "device \<Rightarrow> string \<Rightarrow> cbuf \<Rightarrow> nat \<Rightarrow> int \<Rightarrow> (nat \<times> cbuf) option" where
  "ReplaceTag d tagName out i maxAllowed =
     do { szTemp \<leftarrow> ReplaceTag_loop g_Getters tagName d (replicate 64 NUL);
          if szTemp ! 0 \<noteq> NUL
          then do { value \<leftarrow> c_str szTemp 0;
                    let valueLen = (if int (length value) \<ge> maxAllowed then maxAllowed
                                    else int (length value));
                    if valueLen < 0 then None
                    else do { out \<leftarrow> c_strncpy out i value (nat valueLen);
                              Some (nat valueLen, out) } }
          else Some (0, out) }"

section \<open>Lookups of the tables\<close>

definition tag_text :: "string \<Rightarrow> device \<Rightarrow> string option" where
  "tag_text name d = do { b \<leftarrow> ReplaceTag_loop g_Getters name d (replicate 64 NUL); c_str b 0 }"

lemma TAG_Setter_unknown: "name \<notin> fst ` set g_Setters \<Longrightarrow> TAG_Setter name value d = Some d"
proof -
  have "name \<notin> fst ` set tags \<Longrightarrow> TAG_Setter_loop tags name value d = Some d" for tags
    by (induction tags) auto
  then show "name \<notin> fst ` set g_Setters \<Longrightarrow> TAG_Setter name value d = Some d"
    by (simp add: TAG_Setter_def)
qed

lemma c_str_hd_NUL: "c_str b 0 = Some s \<Longrightarrow> b ! 0 = NUL \<longleftrightarrow> s = []"
proof -
  assume "c_str b 0 = Some s"
  then obtain r where "b = s @ NUL # r" "NUL \<notin> set s" using c_str_split by blast
  then show ?thesis by (cases s) auto
qed

lemma ReplaceTag_text:
  assumes "tag_text name d = Some s" and "int (length s) \<le> m" and "i + length s \<le> length out"
  shows "ReplaceTag d name out i m = Some (length s, take i out @ s @ drop (i + length s) out)"
proof -
  from assms(1) obtain b where b: "ReplaceTag_loop g_Getters name d (replicate 64 NUL) = Some b"
    "c_str b 0 = Some s" by (auto simp: tag_text_def Option.bind_eq_Some_conv)
  have "(if int (length s) \<ge> m then m else int (length s)) = int (length s)" using assms(2) by simp
  then show ?thesis using assms(3) b c_str_hd_NUL [OF b(2)]
    by (simp add: ReplaceTag_def c_strncpy_def c_cpy_def Let_def)
qed

text \<open>A setting that is reachable under one name for writing and for reading.\<close>

locale tag_setting = device_setting +
  fixes name :: string
  assumes set_tag: "TAG_Setter name v d = setter v d"
    and get_tag: "shown d = Some s \<Longrightarrow> NUL \<notin> set s \<Longrightarrow> length s < 63 \<Longrightarrow> tag_text name d = Some s"
    and canon_fits: "NUL \<notin> set v \<Longrightarrow> NUL \<notin> set (canon v) \<and> length (canon v) < 63"
begin

lemma field_round_trip:
  assumes "wf_device d" "NUL \<notin> set v" "i + 63 \<le> length out"
  shows "\<exists>d'. TAG_Setter name v d = Some d' \<and> wf_device d' \<and> g_WorkConfig d' = g_WorkConfig d \<and>
     ReplaceTag (AppyConfig d') name out i 63 =
       Some (length (canon v), take i out @ canon v @ drop (i + length (canon v)) out)"
proof -
  obtain d' where d': "setter v d = Some d'" using setter_total [OF assms(1,2)] by blast
  have fits: "NUL \<notin> set (canon v)" "length (canon v) < 63" using canon_fits [OF assms(2)] by auto
  have "tag_text name (AppyConfig d') = Some (canon v)"
    by (rule get_tag [OF setter_shown [OF assms(1,2) d'] fits])
  from ReplaceTag_text [OF this, of 63 i out] fits assms(3)
  have "ReplaceTag (AppyConfig d') name out i 63 =
       Some (length (canon v), take i out @ canon v @ drop (i + length (canon v)) out)" by simp
  then show ?thesis using d' set_tag setter_wf [OF assms(1,2) d'] setter_work [OF d'] by auto
qed

end

lemma strncpy_temp:
  assumes "NUL \<notin> set s" "length s < 63"
  shows "Option.bind (c_strncpy (replicate 64 NUL) 0 s 63) (\<lambda>b. c_str b 0) = Some s"
  using filled_strn [OF assms] by (auto simp: filled_def fill_strn_def Option.bind_eq_Some_conv)

lemmas tag_tables = TAG_Setter_def g_Setters_def tag_text_def g_Getters_def tag_value_def

interpretation location_tag: tag_setting SetLocation GetLocation "take 15" "''VAR_LOCATION''"
  by unfold_locales (auto simp: tag_tables strncpy_temp dest: in_set_takeD)

interpretation color_tag: tag_setting SetColor GetColor "take 15" "''VAR_COLOR''"
  by unfold_locales (auto simp: tag_tables strncpy_temp dest: in_set_takeD)

interpretation date_tag: tag_setting SetDate GetDate "take 15" "''VAR_DATE''"
  by unfold_locales (auto simp: tag_tables strncpy_temp dest: in_set_takeD)

interpretation font_tag: tag_setting SetFont GetFont "take 15" "''VAR_FONT''"
  by unfold_locales (auto simp: tag_tables strncpy_temp dest: in_set_takeD)

lemma filled_tag: "filled (p d) = Option.bind (tag_value (TAG_PROVIDER p) d (replicate 64 NUL)) (\<lambda>b. c_str b 0)"
  by (simp add: filled_def tag_value_def split_def)

lemma dotted_fits: "NUL \<notin> set (dotted ip) \<and> length (dotted ip) < 63"
  using length_dotted [of ip] NUL_notin_dotted by simp

interpretation ip_tag: tag_setting "\<lambda>v d. Some (SetMyIP v d)" "\<lambda>d. filled (FillIP d)"
  "\<lambda>v. dotted (GetIpAddress v)" "''DEV_IP''"
  by unfold_locales (auto simp: tag_tables filled_tag dotted_fits)

interpretation gateway_tag: tag_setting "\<lambda>v d. Some (SetGateway v d)" "\<lambda>d. filled (FillGateway d)"
  "\<lambda>v. dotted (GetIpAddress v)" "''DEV_GATEWAY''"
  by unfold_locales (auto simp: tag_tables filled_tag dotted_fits)

interpretation subnet_tag: tag_setting "\<lambda>v d. Some (SetSubnet v d)" "\<lambda>d. filled (FillSubnet d)"
  "\<lambda>v. dotted (GetIpAddress v)" "''DEV_SUBNET''"
  by unfold_locales (auto simp: tag_tables filled_tag dotted_fits)

interpretation dhcp_tag: tag_setting "\<lambda>v d. Some (SetDhcpEnabled v d)" "\<lambda>d. filled (FillDhcp d)"
  "\<lambda>v. canon_flag (ston v \<noteq> 0)" "''DEV_DHCP''"
  by unfold_locales (auto simp: tag_tables filled_tag canon_flag_def)

interpretation log_tag: tag_setting "\<lambda>v d. Some (SetLog v d)" "\<lambda>d. filled (FillLog d)"
  "\<lambda>v. canon_flag (0 < sint (ston v))" "''VAR_LOG''"
  by unfold_locales (auto simp: tag_tables filled_tag canon_flag_def)

lemma canon_minutes_fits: "NUL \<notin> set (canon_minutes v) \<and> length (canon_minutes v) < 63"
proof -
  have "length (fmt_u (nat (i mod 2 ^ 32))) \<le> 10" for i :: int
    by (rule length_fmt_u_le [OF nat_mod_u32]) simp
  then show ?thesis
    unfolding canon_minutes_def by (intro conjI NUL_notin_fmt_u) (rule le_less_trans, assumption, simp)
qed

interpretation timeout_tag: tag_setting "\<lambda>v d. Some (SetSessionTimeout v d)"
  "\<lambda>d. filled (FillSessionTimeout d)" canon_minutes "''VAR_SESSION_TIMEOUT''"
  by unfold_locales (use canon_minutes_fits in \<open>auto simp: tag_tables filled_tag\<close>)

text \<open>The canonical form of the value of every field that a form can write.\<close>

definition canon_table :: "(string \<times> (string \<Rightarrow> string)) list" where
  "canon_table =
     [(''DEV_DHCP'', \<lambda>v. canon_flag (ston v \<noteq> 0)),
      (''VAR_SESSION_TIMEOUT'', canon_minutes),
      (''DEV_IP'', \<lambda>v. dotted (GetIpAddress v)),
      (''DEV_GATEWAY'', \<lambda>v. dotted (GetIpAddress v)),
      (''DEV_SUBNET'', \<lambda>v. dotted (GetIpAddress v)),
      (''VAR_LOCATION'', take 15), (''VAR_COLOR'', take 15), (''VAR_DATE'', take 15),
      (''VAR_FONT'', take 15),
      (''VAR_LOG'', \<lambda>v. canon_flag (0 < sint (ston v)))]"

lemmas field_round_trips = dhcp_tag.field_round_trip timeout_tag.field_round_trip
  ip_tag.field_round_trip gateway_tag.field_round_trip subnet_tag.field_round_trip
  location_tag.field_round_trip color_tag.field_round_trip date_tag.field_round_trip
  font_tag.field_round_trip log_tag.field_round_trip

text \<open>
  C15. Every field that a form can write round-trips: on a well-formed device and any C
  string, \<open>TAG_Setter\<close> succeeds and keeps the device well formed and its working
  configuration unchanged; once \<open>AppyConfig\<close> has run, \<open>ReplaceTag\<close> writes into the
  page exactly the canonical form of the value (15 bytes of a text, the dotted address, the
  flag, the minutes) and nothing else.
\<close>

theorem form_field_round_trip:
  assumes "wf_device d" "NUL \<notin> set v" "i + 63 \<le> length out"
    and "(name, canon) \<in> set canon_table"
  shows "\<exists>d'. TAG_Setter name v d = Some d' \<and> wf_device d' \<and> g_WorkConfig d' = g_WorkConfig d \<and>
     ReplaceTag (AppyConfig d') name out i 63 =
       Some (length (canon v), take i out @ canon v @ drop (i + length (canon v)) out)"
  using assms(4) field_round_trips [OF assms(1-3)]
  by (simp add: canon_table_def) (elim disjE conjE; simp)

theorem form_field_round_trip_witness:
  "\<exists>d'. TAG_Setter ''VAR_COLOR'' ''red'' (InitDevInfo \<lparr>g_WorkConfig = zeroConfig, g_TempConfig = zeroConfig, g_ipIsReady = 1\<rparr>) = Some d' \<and>
     ReplaceTag (AppyConfig d') ''VAR_COLOR'' (replicate 80 CHR ''x'') 2 63 =
       Some (3, ''xxred'' @ replicate 75 CHR ''x'')"
proof -
  have "(''VAR_COLOR'', take 15) \<in> set canon_table" by (simp add: canon_table_def)
  from form_field_round_trip [OF wf_device_InitDevInfo _ _ this, of "''red''" 2 "replicate 80 CHR ''x''"]
  show ?thesis by (auto simp: numeral_eq_Suc)
qed

end
