(* ===== verification/Session.thy ===== *)
theory Session
  imports Device
begin

text \<open>
  \<^verbatim>\<open>httpd/http_session.c\<close>: the table of login sessions. A session pointer is an index into
  the table (\<^const>\<open>None\<close> is \<^verbatim>\<open>NULL\<close>), a slot whose token is empty is free, and the
  clock readings that an operation makes are its arguments, in the order of the calls.
  Reading the clock (\<open>LWIP_GetTickCount\<close>) gives 32 bits; \<open>SessionCheck\<close> is called with
  the 64-bit clock.
\<close>

section \<open>Data\<close>

definition MAX_SESSIONS :: nat where "MAX_SESSIONS = 5"
definition MAX_COOKIE_SIZE :: nat where "MAX_COOKIE_SIZE = 32"

record SESSION =
  sess_token :: cbuf
  nLoginIP :: u32
  tLastReceived :: u64
  tLastSent :: u64

definition zeroSession :: SESSION where
  "zeroSession = \<lparr>sess_token = replicate MAX_COOKIE_SIZE NUL, nLoginIP = 0, tLastReceived = 0, tLastSent = 0\<rparr>"

type_synonym sessions = "SESSION list"

definition SetupSession :: sessions where "SetupSession = replicate MAX_SESSIONS zeroSession"

definition live :: "SESSION \<Rightarrow> bool" where "live s \<longleftrightarrow> sess_token s ! 0 \<noteq> NUL"

section \<open>Operations\<close>

text \<open>A stamp of 0 means \<^emph>\<open>never\<close>, so the clock reading 0 is recorded as 1.\<close>

definition stamp :: "u32 \<Rightarrow> u64" where
  "stamp t = (if t = 0 then 1 else ucast t)"

fun first_free :: "nat \<Rightarrow> sessions \<Rightarrow> nat option" where
  "first_free i [] = None"
| "first_free i (s # ss) = (if live s then first_free (Suc i) ss else Some i)"

definition SessionCreate ::
  "cbuf \<Rightarrow> u32 \<Rightarrow> u32 \<Rightarrow> u32 \<Rightarrow> sessions \<Rightarrow> (nat option \<times> cbuf \<times> sessions) option" where
  "SessionCreate outCookie remoteIP tick1 tick2 ss =
     do { outCookie \<leftarrow> c_wr outCookie 0 NUL;
          case first_free 0 ss of
            None \<Rightarrow> Some (None, outCookie, ss)
          | Some i \<Rightarrow>
              do { outCookie \<leftarrow> c_strcpy outCookie 0 (''SID='' @ pad0 8 (fmt_X (unat tick1)));
                   cookie \<leftarrow> c_str outCookie 0;
                   token \<leftarrow> c_strcpy (sess_token zeroSession) 0 cookie;
                   let s = zeroSession\<lparr>tLastReceived := stamp tick2, nLoginIP := remoteIP,
                                       sess_token := token\<rparr>;
                   Some (Some i, outCookie, ss[i := s]) } }"

definition SessionKill :: "nat option \<Rightarrow> sessions \<Rightarrow> sessions" where
  "SessionKill session ss = (case session of
       None \<Rightarrow> ss
     | Some i \<Rightarrow> if live (ss ! i) then ss[i := zeroSession] else ss)"

text \<open>Whether the extension of a page takes part in sessions: pictures, fonts and styles do not.\<close>

definition SessionTypes :: "string \<Rightarrow> bool" where
  "SessionTypes extension \<longleftrightarrow> \<not>
     (Strnicmp extension ''css'' 3 = 0 \<or> Strnicmp extension ''jpg'' 3 = 0 \<or>
      Strnicmp extension ''png'' 3 = 0 \<or> Strnicmp extension ''ico'' 3 = 0 \<or>
      Strnicmp extension ''bmp'' 3 = 0 \<or> Strnicmp extension ''svg'' 3 = 0 \<or>
      Strnicmp extension ''gif'' 3 = 0 \<or> Strnicmp extension ''woff'' 4 = 0 \<or>
      Strnicmp extension ''ttf'' 3 = 0 \<or> Strnicmp extension ''otf'' 3 = 0 \<or>
      Strnicmp extension ''tiff'' 4 = 0)"

fun GetSession_loop :: "string \<Rightarrow> nat \<Rightarrow> sessions \<Rightarrow> nat option option" where
  "GetSession_loop token i [] = Some None"
| "GetSession_loop token i (s # ss) =
     (if live s
      then do { t \<leftarrow> c_str (sess_token s) 0;
                if c_strstr token t \<noteq> None then Some (Some i) else GetSession_loop token (Suc i) ss }
      else GetSession_loop token (Suc i) ss)"

definition GetSession :: "string option \<Rightarrow> sessions \<Rightarrow> nat option option" where
  "GetSession token ss = (case token of
       None \<Rightarrow> Some None
     | Some [] \<Rightarrow> Some None
     | Some t \<Rightarrow> GetSession_loop t 0 ss)"

text \<open>Milliseconds since a stamp, as \<open>SessionCheck\<close> computes them: 0 for a stamp that was never set.\<close>

definition elapsed :: "u64 \<Rightarrow> u64 \<Rightarrow> u64" where
  "elapsed tick since =
     (let e = (if tick = 0 then 1 else tick)
      in if since \<noteq> 0 then (if e \<ge> since then e - since else e + (0xFFFFFFFF - since)) else 0)"

definition session_expired :: "s32 \<Rightarrow> u64 \<Rightarrow> SESSION \<Rightarrow> bool" where
  "session_expired timeout tick s =
     (let recvElapsed = elapsed tick (tLastReceived s);
          sendElapsed = elapsed tick (tLastSent s)
      in 0 < sint timeout \<and>
         (if sendElapsed < recvElapsed then sendElapsed else recvElapsed) > ucast timeout)"

definition SessionCheck :: "device \<Rightarrow> u64 \<Rightarrow> sessions \<Rightarrow> sessions" where
  "SessionCheck d tick ss =
     map (\<lambda>s. if live s \<and> session_expired (GetSessionTimeout d) tick s then zeroSession else s) ss"

definition SessionClearAll :: "sessions \<Rightarrow> sessions" where
  "SessionClearAll ss = replicate MAX_SESSIONS zeroSession"

definition SessionReceived :: "nat option \<Rightarrow> u32 \<Rightarrow> sessions \<Rightarrow> sessions" where
  "SessionReceived session tick ss = (case session of
       None \<Rightarrow> ss
     | Some i \<Rightarrow> if live (ss ! i) then ss[i := (ss ! i)\<lparr>tLastReceived := stamp tick\<rparr>] else ss)"

definition SessionSent :: "nat option \<Rightarrow> u32 \<Rightarrow> sessions \<Rightarrow> sessions" where
  "SessionSent session tick ss = (case session of
       None \<Rightarrow> ss
     | Some i \<Rightarrow> if live (ss ! i) then ss[i := (ss ! i)\<lparr>tLastSent := stamp tick\<rparr>] else ss)"

section \<open>Invariant\<close>

text \<open>
  Every token is a C string of its array; a live token is \<^verbatim>\<open>SID=\<close> and eight hexadecimal
  digits; stamps are 32-bit readings.
\<close>

definition wf_session :: "SESSION \<Rightarrow> bool" where
  "wf_session s \<longleftrightarrow> length (sess_token s) = MAX_COOKIE_SIZE \<and>
     (live s \<longrightarrow> (\<exists>t. c_str (sess_token s) 0 = Some t \<and> length t = 12 \<and> take 4 t = ''SID='') \<and>
        tLastReceived s \<noteq> 0) \<and>
     (\<not> live s \<longrightarrow> s = zeroSession) \<and>
     tLastReceived s < 2 ^ 32 \<and> tLastSent s < 2 ^ 32"

definition wf_sessions :: "sessions \<Rightarrow> bool" where
  "wf_sessions ss \<longleftrightarrow> length ss = MAX_SESSIONS \<and> (\<forall>s \<in> set ss. wf_session s)"

text \<open>The tokens of the live sessions with their slots: what a client of the table can observe.\<close>

definition tokens :: "sessions \<Rightarrow> (nat \<times> string) set" where
  "tokens ss = {(i, t). i < length ss \<and> live (ss ! i) \<and> c_str (sess_token (ss ! i)) 0 = Some t}"

section \<open>The invariant is kept\<close>

lemma zeroSession_sel [simp]:
  "sess_token zeroSession = replicate 32 NUL" "tLastReceived zeroSession = 0"
  "tLastSent zeroSession = 0" "nLoginIP zeroSession = 0"
  by (simp_all add: zeroSession_def MAX_COOKIE_SIZE_def)

lemma not_live_zero [simp]: "\<not> live zeroSession"
  by (simp add: live_def)

lemma wf_zeroSession [simp]: "wf_session zeroSession"
  by (simp add: wf_session_def MAX_COOKIE_SIZE_def)

lemma stamp_range: "stamp t \<noteq> 0" "stamp t < 2 ^ 32"
proof -
  have "(ucast t :: u64) < 2 ^ 32" using unat_u32_lt [of t] 
    by (simp add: word_less_nat_alt unsigned_ucast_eq take_bit_nat_eq_self)
  then show "stamp t < 2 ^ 32" by (simp add: stamp_def)
  have "(ucast t :: u64) = 0 \<Longrightarrow> t = 0"
    using unat_u32_lt [of t]
    by (simp add: word_unat_eq_iff unsigned_ucast_eq take_bit_nat_eq_self)
  then show "stamp t \<noteq> 0" by (auto simp: stamp_def)
qed

text \<open>The token made from a clock reading.\<close>

definition sid :: "u32 \<Rightarrow> string" where "sid t = ''SID='' @ pad0 8 (fmt_X (unat t))"

lemma length_sid: "length (sid t) = 12"
proof -
  have "length (fmt_X (unat t)) \<le> 8"
    unfolding fmt_X_def by (rule length_fmt_nat_le) (use unat_u32_lt [of t] in simp_all)
  then show ?thesis by (simp add: sid_def pad0_def)
qed

lemma NUL_notin_sid: "NUL \<notin> set (sid t)"
  using NUL_notin_fmt_nat [of 16 "unat t"] by (simp add: sid_def pad0_def fmt_X_def)

lemma sid_inj: "sid t = sid u \<Longrightarrow> t = u"
  using pad0_fmt_X_inj [of 8 "unat t" "unat u"] by (simp add: sid_def word_unat_eq_iff)

lemma sid_prefix: "take 4 (sid t) = ''SID=''"
  by (simp add: sid_def)

lemma first_free_None: "first_free k ss = None \<longleftrightarrow> (\<forall>s \<in> set ss. live s)"
  by (induction ss arbitrary: k) auto

lemma first_free_Some:
  "first_free k ss = Some i \<Longrightarrow> k \<le> i \<and> i < k + length ss \<and> \<not> live (ss ! (i - k)) \<and> (\<forall>j < i - k. live (ss ! j))"
proof (induction ss arbitrary: k)
  case Nil
  then show ?case by simp
next
  case (Cons s ss)
  show ?case
  proof (cases "live s")
    case True
    with Cons.prems Cons.IH [of "Suc k"]
    have h: "Suc k \<le> i" "i < Suc k + length ss" "\<not> live (ss ! (i - Suc k))"
      "\<forall>j < i - Suc k. live (ss ! j)" by auto
    then obtain m where m: "i = Suc k + m" using le_Suc_ex by blast
    show ?thesis using h True by (auto simp: m less_Suc_eq_0_disj)
  next
    case False
    with Cons.prems show ?thesis by simp
  qed
qed

text \<open>The session that \<open>SessionCreate\<close> stores.\<close>

definition new_session :: "u32 \<Rightarrow> u32 \<Rightarrow> u32 \<Rightarrow> SESSION" where
  "new_session ip t1 t2 = \<lparr>sess_token = sid t1 @ replicate 20 NUL, nLoginIP = ip,
     tLastReceived = stamp t2, tLastSent = 0\<rparr>"

lemma new_session_token: "c_str (sess_token (new_session ip t1 t2)) 0 = Some (sid t1)"
  using c_str_app [OF NUL_notin_sid, of t1 "replicate 19 NUL"]
  by (simp add: new_session_def numeral_eq_Suc)

lemma live_new_session: "live (new_session ip t1 t2)"
  by (simp add: live_def new_session_def sid_def)

lemma wf_new_session: "wf_session (new_session ip t1 t2)"
  using stamp_range [of t2] live_new_session [of ip t1 t2] new_session_token [of ip t1 t2]
  by (simp add: wf_session_def length_sid sid_prefix) (simp add: new_session_def length_sid MAX_COOKIE_SIZE_def)

lemma SessionCreate_eq:
  assumes "12 < length c"
  shows "SessionCreate c ip t1 t2 ss = Some (case first_free 0 ss of
       None \<Rightarrow> (None, c[0 := NUL], ss)
     | Some i \<Rightarrow> (Some i, sid t1 @ NUL # drop 13 c, ss[i := new_session ip t1 t2]))"
proof -
  have w: "c_wr c 0 NUL = Some (c[0 := NUL])" using assms by (intro c_wr_Some) linarith
  have cp: "c_strcpy (c[0 := NUL]) 0 (sid t1) = Some (sid t1 @ NUL # drop 13 c)"
    using assms by (simp add: c_strcpy_def c_cpy_def length_sid)
  have st: "c_str (sid t1 @ NUL # drop 13 c) 0 = Some (sid t1)" by (rule c_str_app [OF NUL_notin_sid])
  have tk: "c_strcpy (replicate 32 NUL) 0 (sid t1) = Some (sid t1 @ replicate 20 NUL)"
    by (simp add: c_strcpy_def c_cpy_def length_sid numeral_eq_Suc)
  show ?thesis
    unfolding SessionCreate_def sid_def [symmetric] w
    by (cases "first_free 0 ss") (simp_all add: cp st tk new_session_def Let_def, simp add: zeroSession_def)
qed

lemma wf_sessions_update: "wf_sessions ss \<Longrightarrow> wf_session s \<Longrightarrow> wf_sessions (ss[i := s])"
  by (auto simp: wf_sessions_def dest: set_update_subset_insert [THEN subsetD])

lemma wf_sessions_nth: "wf_sessions ss \<Longrightarrow> i < MAX_SESSIONS \<Longrightarrow> wf_session (ss ! i)"
  by (simp add: wf_sessions_def)

lemma wf_SetupSession: "wf_sessions SetupSession"
  by (simp add: wf_sessions_def SetupSession_def)

lemma wf_SessionCreate:
  assumes "12 < length c" "SessionCreate c ip t1 t2 ss = Some (r, c', ss')" "wf_sessions ss"
  shows "wf_sessions ss'"
  using assms SessionCreate_eq [OF assms(1)] wf_new_session
  by (auto split: option.splits intro: wf_sessions_update)

lemma wf_SessionKill: "wf_sessions ss \<Longrightarrow> wf_sessions (SessionKill p ss)"
  by (auto simp: SessionKill_def split: option.split intro: wf_sessions_update)

lemma wf_SessionCheck: "wf_sessions ss \<Longrightarrow> wf_sessions (SessionCheck d tick ss)"
  by (auto simp: SessionCheck_def wf_sessions_def)

lemma wf_stamped:
  assumes "wf_session s" "live s"
  shows "wf_session (s\<lparr>tLastReceived := stamp t\<rparr>)" "wf_session (s\<lparr>tLastSent := stamp t\<rparr>)"
  using assms stamp_range [of t] by (auto simp: wf_session_def live_def)

lemma wf_SessionReceived: "wf_sessions ss \<Longrightarrow> \<forall>i. p = Some i \<longrightarrow> i < MAX_SESSIONS \<Longrightarrow> wf_sessions (SessionReceived p t ss)"
  by (auto simp: SessionReceived_def split: option.split intro!: wf_sessions_update wf_stamped wf_sessions_nth)

lemma wf_SessionSent: "wf_sessions ss \<Longrightarrow> \<forall>i. p = Some i \<longrightarrow> i < MAX_SESSIONS \<Longrightarrow> wf_sessions (SessionSent p t ss)"
  by (auto simp: SessionSent_def split: option.split intro!: wf_sessions_update wf_stamped wf_sessions_nth)

section \<open>What a client sees of the table\<close>

text \<open>
  The contract of the table: \<open>create\<close> adds one token under an index that was free,
  \<open>kill\<close> removes one, and \<open>lookup\<close> answers with a live session whose token occurs in the
  text of the request, whenever there is one.
\<close>

locale token_table =
  fixes inv :: "'s \<Rightarrow> bool" and toks :: "'s \<Rightarrow> (nat \<times> string) set"
    and create :: "u32 \<Rightarrow> u32 \<Rightarrow> u32 \<Rightarrow> 's \<Rightarrow> nat option \<times> 's"
    and lookup :: "string \<Rightarrow> 's \<Rightarrow> nat option option" and kill :: "nat option \<Rightarrow> 's \<Rightarrow> 's"
    and cookie :: "u32 \<Rightarrow> string"
  assumes create_new: "inv s \<Longrightarrow> create ip t1 t2 s = (Some i, s') \<Longrightarrow>
      inv s' \<and> i \<notin> fst ` toks s \<and> toks s' = insert (i, cookie t1) (toks s)"
    and lookup_total: "inv s \<Longrightarrow> \<exists>r. lookup req s = Some r"
    and lookup_Some: "inv s \<Longrightarrow> lookup req s = Some (Some i) \<Longrightarrow> \<exists>t. (i, t) \<in> toks s \<and> sublist t req"
    and lookup_None: "inv s \<Longrightarrow> lookup req s = Some None \<Longrightarrow> (i, t) \<in> toks s \<Longrightarrow> \<not> sublist t req"
    and kill_toks: "inv s \<Longrightarrow> toks (kill (Some i) s) = {(j, t) \<in> toks s. j \<noteq> i}"
    and kill_inv: "inv s \<Longrightarrow> inv (kill p s)"
    and toks_fun: "inv s \<Longrightarrow> (i, t) \<in> toks s \<Longrightarrow> (i, u) \<in> toks s \<Longrightarrow> t = u"
begin

lemma login_found:
  assumes "inv s" "create ip t1 t2 s = (Some i, s')" "sublist (cookie t1) req"
    and "\<forall>(j, t) \<in> toks s. \<not> sublist t req"
  shows "lookup req s' = Some (Some i)"
proof -
  have inv': "inv s'" and t': "toks s' = insert (i, cookie t1) (toks s)"
    using create_new [OF assms(1,2)] by auto
  obtain r where r: "lookup req s' = Some r" using lookup_total [OF inv'] by blast
  show ?thesis
  proof (cases r)
    case None
    with r lookup_None [OF inv', of req i "cookie t1"] t' assms(3) show ?thesis by simp
  next
    case (Some j)
    with r lookup_Some [OF inv'] obtain t where t: "(j, t) \<in> toks s'" "sublist t req" by blast
    with t' assms(4) have "j = i" by auto
    with Some r show ?thesis by simp
  qed
qed

lemma logout_not_found:
  assumes "inv s" shows "lookup req (kill (Some i) s) \<noteq> Some (Some i)"
proof
  assume "lookup req (kill (Some i) s) = Some (Some i)"
  from lookup_Some [OF kill_inv [OF assms] this] obtain t where "(i, t) \<in> toks (kill (Some i) s)" by blast
  then show False using kill_toks [OF assms] by simp
qed

lemma logout_keeps_others:
  assumes "inv s" "lookup req s = Some (Some j)" "j \<noteq> i"
  shows "\<exists>k. lookup req (kill (Some i) s) = Some (Some k)"
proof -
  from lookup_Some [OF assms(1,2)] obtain t where t: "(j, t) \<in> toks s" "sublist t req" by blast
  with kill_toks [OF assms(1)] assms(3) have "(j, t) \<in> toks (kill (Some i) s)" by auto
  with lookup_None [OF kill_inv [OF assms(1)]] lookup_total [OF kill_inv [OF assms(1)]] t(2)
  show ?thesis by (metis not_None_eq)
qed

end

lemma tokens_update:
  "i < length ss \<Longrightarrow> tokens (ss[i := s]) =
     {(j, t) \<in> tokens ss. j \<noteq> i} \<union> {(j, t). j = i \<and> live s \<and> c_str (sess_token s) 0 = Some t}"
  by (auto simp: tokens_def nth_list_update split: if_splits)

lemma Suc_diff_Suc_eq: "Suc k \<le> a \<Longrightarrow> a - k = Suc j \<longleftrightarrow> j = a - Suc k"
  by auto

lemma GetSession_loop_spec:
  assumes "\<forall>s \<in> set ss. wf_session s"
  shows "\<exists>r. GetSession_loop req k ss = Some r \<and>
     (case r of None \<Rightarrow> \<forall>(j, t) \<in> tokens ss. \<not> sublist t req
      | Some i \<Rightarrow> k \<le> i \<and> (\<exists>t. (i - k, t) \<in> tokens ss \<and> sublist t req))"
  using assms
proof (induction ss arbitrary: k)
  case Nil
  then show ?case by (simp add: tokens_def)
next
  case (Cons s ss)
  have T: "tokens (s # ss) = {(j, t). j = 0 \<and> live s \<and> c_str (sess_token s) 0 = Some t} \<union>
      {(Suc j, t) |j t. (j, t) \<in> tokens ss}"
    by (auto simp: tokens_def nth_Cons split: nat.splits)
  from Cons.IH [of "Suc k"] Cons.prems obtain r where
    r: "GetSession_loop req (Suc k) ss = Some r"
      "case r of None \<Rightarrow> \<forall>(j, t) \<in> tokens ss. \<not> sublist t req
      | Some i \<Rightarrow> Suc k \<le> i \<and> (\<exists>t. (i - Suc k, t) \<in> tokens ss \<and> sublist t req)" by auto
  show ?case
  proof (cases "live s")
    case False
    then show ?thesis using r T
      by (cases r) (auto simp: Suc_diff_Suc_eq)
  next
    case True
    then obtain t where t: "c_str (sess_token s) 0 = Some t"
      using Cons.prems by (auto simp: wf_session_def)
    show ?thesis
    proof (cases "sublist t req")
      case in_text: True
      then show ?thesis using True t T c_strstr_iff_sublist [of req t] by auto
    next
      case out: False
      then show ?thesis using True t T r c_strstr_iff_sublist [of req t]
        by (cases r) (auto simp: Suc_diff_Suc_eq)
    qed
  qed
qed

definition create_session :: "u32 \<Rightarrow> u32 \<Rightarrow> u32 \<Rightarrow> sessions \<Rightarrow> nat option \<times> sessions" where
  "create_session ip t1 t2 ss =
     (case the (SessionCreate (replicate MAX_COOKIE_SIZE NUL) ip t1 t2 ss) of (r, c, ss') \<Rightarrow> (r, ss'))"

lemma create_session_eq:
  "create_session ip t1 t2 ss = (case first_free 0 ss of
     None \<Rightarrow> (None, ss) | Some i \<Rightarrow> (Some i, ss[i := new_session ip t1 t2]))"
  by (simp add: create_session_def SessionCreate_eq MAX_COOKIE_SIZE_def split: option.split)

interpretation session_table: token_table wf_sessions tokens create_session
  "\<lambda>req. GetSession_loop req 0" SessionKill sid
proof unfold_locales
  fix s ip t1 t2 i s'
  assume s: "wf_sessions s" and c: "create_session ip t1 t2 s = (Some i, s')"
  then have f: "first_free 0 s = Some i" and s': "s' = s[i := new_session ip t1 t2]"
    by (auto simp: create_session_eq split: option.splits)
  from first_free_Some [OF f] have i: "i < length s" "\<not> live (s ! i)" by auto
  then have n: "i \<notin> fst ` tokens s" by (auto simp: tokens_def)
  then have "{(j, t) \<in> tokens s. j \<noteq> i} = tokens s" by force
  then have "tokens s' = insert (i, sid t1) (tokens s)"
    using s' tokens_update [OF i(1)] live_new_session new_session_token by auto
  then show "wf_sessions s' \<and> i \<notin> fst ` tokens s \<and> tokens s' = insert (i, sid t1) (tokens s)"
    using n s s' wf_sessions_update wf_new_session by blast
next
  fix s req
  assume "wf_sessions s"
  then show "\<exists>r. GetSession_loop req 0 s = Some r"
    using GetSession_loop_spec [of s req 0] by (auto simp: wf_sessions_def)
next
  fix s req i
  assume "wf_sessions s" "GetSession_loop req 0 s = Some (Some i)"
  then show "\<exists>t. (i, t) \<in> tokens s \<and> sublist t req"
    using GetSession_loop_spec [of s req 0] by (auto simp: wf_sessions_def)
next
  fix s req i t
  assume "wf_sessions s" "GetSession_loop req 0 s = Some None" "(i, t) \<in> tokens s"
  then show "\<not> sublist t req"
    using GetSession_loop_spec [of s req 0] by (auto simp: wf_sessions_def)
next
  fix s i
  assume "wf_sessions s"
  show "tokens (SessionKill (Some i) s) = {(j, t) \<in> tokens s. j \<noteq> i}"
  proof (cases "i < length s \<and> live (s ! i)")
    case True
    then show ?thesis using tokens_update [of i s zeroSession] by (simp add: SessionKill_def)
  next
    case False
    then have "{(j, t) \<in> tokens s. j \<noteq> i} = tokens s" by (auto simp: tokens_def)
    moreover have "tokens (SessionKill (Some i) s) = tokens s"
      using False by (cases "i < length s") (auto simp: SessionKill_def list_update_beyond)
    ultimately show ?thesis by simp
  qed
next
  fix s p
  assume "wf_sessions s"
  then show "wf_sessions (SessionKill p s)" by (rule wf_SessionKill)
next
  fix s i t u
  assume "(i, t) \<in> tokens s" "(i, u) \<in> tokens s"
  then show "t = u" by (simp add: tokens_def)
qed

lemma GetSession_nonempty: "req \<noteq> [] \<Longrightarrow> GetSession (Some req) ss = GetSession_loop req 0 ss"
  by (simp add: GetSession_def split: list.splits)

lemma sublist_sid_nonempty: "sublist (sid t) req \<Longrightarrow> req \<noteq> []"
  by (auto simp: sid_def)

section \<open>Properties of the table\<close>

text \<open>
  C9. Signing in: on a well-formed table with a free slot, \<open>SessionCreate\<close> stores the
  session and hands out the cookie; afterwards \<open>GetSession\<close> finds exactly this session in
  every request text in which the cookie occurs and no older token does, and no longer once
  \<open>SessionKill\<close> has ended it.
\<close>

theorem session_login_found:
  assumes "wf_sessions ss" "12 < length c"
    and "SessionCreate c ip t1 t2 ss = Some (Some i, c', ss')"
    and "c_str c' 0 = Some cookie" "sublist cookie req"
    and "\<forall>(j, t) \<in> tokens ss. \<not> sublist t req"
  shows "GetSession (Some req) ss' = Some (Some i) \<and> nLoginIP (ss' ! i) = ip \<and>
    GetSession (Some req) (SessionKill (Some i) ss') \<noteq> Some (Some i)"
proof -
  from assms(3) SessionCreate_eq [OF assms(2)] have f: "first_free 0 ss = Some i"
    and c': "c' = sid t1 @ NUL # drop 13 c" and ss': "ss' = ss[i := new_session ip t1 t2]"
    by (auto split: option.splits)
  then have cs: "create_session ip t1 t2 ss = (Some i, ss')" by (simp add: create_session_eq)
  have "cookie = sid t1" using assms(4) c' c_str_app [OF NUL_notin_sid] by simp
  then have sub: "sublist (sid t1) req" using assms(5) by simp
  have "wf_sessions ss'" using ss' assms(1) wf_new_session wf_sessions_update by blast
  moreover have "i < length ss" using first_free_Some [OF f] by simp
  ultimately show ?thesis
    using session_table.login_found [OF assms(1) cs sub assms(6)]
      session_table.logout_not_found [of ss' req i]
    by (simp add: GetSession_nonempty [OF sublist_sid_nonempty [OF sub]] ss' new_session_def)
qed

theorem session_login_found_witness:
  "\<exists>c' ss'. SessionCreate (replicate 32 NUL) 7 1 1 SetupSession = Some (Some 0, c', ss') \<and>
     GetSession (Some (''a=b; SID=00000001'')) ss' = Some (Some 0)"
proof -
  have t: "sid 1 = ''SID=00000001''" by code_simp
  have f: "first_free 0 SetupSession = Some 0"
    by (simp add: SetupSession_def MAX_SESSIONS_def numeral_eq_Suc)
  have n: "\<forall>(j, t) \<in> tokens SetupSession. \<not> sublist t (''a=b; SID=00000001'')"
    by (auto simp: tokens_def SetupSession_def)
  have s: "sublist (sid 1) ''a=b; SID=00000001''" unfolding t by code_simp
  obtain c' ss' where c: "SessionCreate (replicate 32 NUL) 7 1 1 SetupSession = Some (Some 0, c', ss')"
    "c_str c' 0 = Some (sid 1)"
    using f c_str_app [OF NUL_notin_sid] by (simp add: SessionCreate_eq)
  from session_login_found [OF wf_SetupSession _ c s n] c(1) show ?thesis by simp
qed

text \<open>
  The table has a fixed capacity: \<open>SessionCreate\<close> returns \<^verbatim>\<open>NULL\<close> exactly if all
  \<open>MAX_SESSIONS\<close> slots are in use; then the cookie is empty and the table unchanged.
  Otherwise it uses the first free slot and no other session changes. Tokens of different
  clock readings differ.
\<close>

theorem SessionCreate_capacity:
  assumes "12 < length c"
  shows "case SessionCreate c ip t1 t2 ss of
      None \<Rightarrow> False
    | Some (None, c', ss') \<Rightarrow> (\<forall>s \<in> set ss. live s) \<and> ss' = ss \<and> c' ! 0 = NUL
    | Some (Some i, c', ss') \<Rightarrow>
        i < length ss \<and> \<not> live (ss ! i) \<and> (\<forall>j < i. live (ss ! j)) \<and>
        (\<forall>j. j \<noteq> i \<longrightarrow> ss' ! j = ss ! j) \<and> live (ss' ! i) \<and>
        c_str (sess_token (ss' ! i)) 0 = c_str c' 0 \<and>
        (\<forall>u. c_str c' 0 = Some (''SID='' @ pad0 8 (fmt_X (unat u))) \<longleftrightarrow> u = t1)"
proof (cases "first_free 0 ss")
  case None
  have "c[0 := NUL] ! 0 = NUL" using assms by (cases c) auto
  then show ?thesis using None SessionCreate_eq [OF assms] first_free_None [of 0 ss] by simp
next
  case (Some i)
  have "(sid t1 = sid u) = (u = t1)" for u using sid_inj by auto
  then show ?thesis
    unfolding sid_def [symmetric]
    using Some SessionCreate_eq [OF assms] first_free_Some [OF Some] live_new_session
      new_session_token c_str_app [OF NUL_notin_sid]
    by simp
qed

theorem SessionCreate_capacity_witness:
  "\<exists>c' ss'. SessionCreate (replicate 32 NUL) 7 1 1 SetupSession = Some (Some 0, c', ss') \<and> live (ss' ! 0)"
proof -
  have f: "first_free 0 SetupSession = Some 0"
    by (simp add: SetupSession_def MAX_SESSIONS_def numeral_eq_Suc)
  have l: "12 < length (replicate 32 NUL)" by simp
  from SessionCreate_eq [OF l, of 7 1 1 SetupSession] f
  obtain c' ss' where c: "SessionCreate (replicate 32 NUL) 7 1 1 SetupSession = Some (Some 0, c', ss')"
    by simp
  with SessionCreate_capacity [OF l, where ip = 7 and ?t1.0 = 1 and ?t2.0 = 1 and ss = SetupSession] show ?thesis by simp
qed

section \<open>Time-out\<close>

lemma elapsed_unat:
  "since \<noteq> 0 \<Longrightarrow> since \<le> tick \<Longrightarrow> unat (elapsed tick since) = unat tick - unat since"
  by (auto simp: elapsed_def Let_def unat_sub)

lemma elapsed_never: "elapsed tick 0 = 0"
  by (simp add: elapsed_def)

lemma ucast_timeout: "0 < sint (t :: s32) \<Longrightarrow> unat (ucast t :: u64) = nat (sint t)"
proof -
  assume "0 < sint t"
  moreover have "sint t < 2 ^ 32" using sint_lt [of t] by simp
  ultimately have "sint t = uint t" by (simp add: uint_sint take_bit_int_eq_self)
  then show ?thesis using unat_u32_lt [of t] by (simp add: unsigned_ucast_eq take_bit_nat_eq_self)
qed


lemma later_stamp:
  "0 < T \<Longrightarrow> nat T < (if n - b < n - a then n - b else n - a) \<longleftrightarrow> T < int (n - max a b)"
  by (simp add: max_def) linarith

text \<open>
  C28. Idle time-out: while the clock has not wrapped, so that no stamp lies in the future, and
  with a positive time configured, \<open>SessionCheck\<close> ends a live session that has been answered at
  least once exactly if more than the configured time has passed since the later of its last
  request and its last answer. A session that has not been answered stays, however long it is
  idle.
\<close>

theorem SessionCheck_idle:
  assumes "i < length ss" "live (ss ! i)" "tLastReceived (ss ! i) \<noteq> 0"
    and "tLastReceived (ss ! i) \<le> tick" "tLastSent (ss ! i) \<le> tick"
    and "0 < sint (GetSessionTimeout d)"
  shows "SessionCheck d tick ss ! i =
    (if tLastSent (ss ! i) \<noteq> 0 \<and>
        int (unat tick - max (unat (tLastReceived (ss ! i))) (unat (tLastSent (ss ! i))))
          > sint (GetSessionTimeout d)
     then zeroSession else ss ! i)"
proof -
  let ?s = "ss ! i" and ?T = "GetSessionTimeout d"
  have T: "unat (ucast ?T :: u64) = nat (sint ?T)" using ucast_timeout [OF assms(6)] .
  have r: "unat (elapsed tick (tLastReceived ?s)) = unat tick - unat (tLastReceived ?s)"
    using assms(3,4) by (rule elapsed_unat)
  have "session_expired ?T tick ?s \<longleftrightarrow> tLastSent ?s \<noteq> 0 \<and>
     int (unat tick - max (unat (tLastReceived ?s)) (unat (tLastSent ?s))) > sint ?T"
  proof (cases "tLastSent ?s = 0")
    case True
    then show ?thesis by (auto simp: session_expired_def Let_def elapsed_never word_less_nat_alt)
  next
    case False
    have s: "unat (elapsed tick (tLastSent ?s)) = unat tick - unat (tLastSent ?s)"
      using False assms(5) by (rule elapsed_unat)
    show ?thesis using False assms(6)
      by (simp only: session_expired_def Let_def word_less_nat_alt if_distrib [of unat] r s T
          later_stamp [OF assms(6)] simp_thms)
  qed
  then show ?thesis using assms(1,2) by (simp add: SessionCheck_def)
qed


section \<open>Reachable tables\<close>

inductive session_reach :: "sessions \<Rightarrow> bool" where
  start: "session_reach SetupSession"
| create: "session_reach ss \<Longrightarrow> length c = MAX_COOKIE_SIZE \<Longrightarrow>
    SessionCreate c ip t1 t2 ss = Some (r, c', ss') \<Longrightarrow> session_reach ss'"
| kill: "session_reach ss \<Longrightarrow> session_reach (SessionKill p ss)"
| check: "session_reach ss \<Longrightarrow> session_reach (SessionCheck d tick ss)"
| clear: "session_reach ss \<Longrightarrow> session_reach (SessionClearAll ss)"
| received: "session_reach ss \<Longrightarrow> \<forall>i. p = Some i \<longrightarrow> i < MAX_SESSIONS \<Longrightarrow>
    session_reach (SessionReceived p t ss)"
| sent: "session_reach ss \<Longrightarrow> \<forall>i. p = Some i \<longrightarrow> i < MAX_SESSIONS \<Longrightarrow>
    session_reach (SessionSent p t ss)"

text \<open>
  C18. Every table reachable by the operations of the module, in any order and at any clock
  readings, is well formed: five slots, every used one holding a terminated 12-byte token and
  a non-zero time of its last request, every free one all zero, all stamps below $2^{32}$.
\<close>

theorem session_reach_wf: "session_reach ss \<Longrightarrow> wf_sessions ss"
proof (induction rule: session_reach.induct)
  case (create ss c ip t1 t2 r c' ss')
  then show ?case by (intro wf_SessionCreate [of c ip t1 t2 ss r c' ss']) (simp_all add: MAX_COOKIE_SIZE_def)
next
  case (clear ss)
  then show ?case by (simp add: SessionClearAll_def wf_sessions_def)
qed (auto intro: wf_SetupSession wf_SessionKill wf_SessionCheck wf_SessionReceived wf_SessionSent)

theorem session_reach_wf_witness: "wf_sessions (SessionKill (Some 0) SetupSession)"
  by (rule session_reach_wf [OF session_reach.kill [OF session_reach.start]])

lemmas session_demo_simps = GetSessionTimeout_def InitDevInfo_def zeroConfig_def Let_def

text \<open>A device with the initial time-out of three minutes, and a session answered at tick 1.\<close>

definition demo_dev :: device where
  "demo_dev = InitDevInfo \<lparr>g_WorkConfig = zeroConfig, g_TempConfig = zeroConfig, g_ipIsReady = 1\<rparr>"

definition demo_sessions :: sessions where
  "demo_sessions = SetupSession[0 := (new_session 7 1 1)\<lparr>tLastSent := 1\<rparr>]"

lemma demo_timeout: "GetSessionTimeout demo_dev = 180000"
  by (simp add: demo_dev_def session_demo_simps)

lemma wf_demo: "wf_sessions demo_sessions" "live (demo_sessions ! 0)"
  "demo_sessions ! 0 = (new_session 7 1 1)\<lparr>tLastSent := 1\<rparr>" "length demo_sessions = 5"
proof -
  have "wf_session ((new_session 7 1 1)\<lparr>tLastSent := stamp 1\<rparr>)"
    by (rule wf_stamped [OF wf_new_session live_new_session])
  then have "wf_session ((new_session 7 1 1)\<lparr>tLastSent := 1\<rparr>)" by (simp add: stamp_def)
  then show "wf_sessions demo_sessions" by (simp add: demo_sessions_def wf_sessions_update wf_SetupSession)
  show d: "demo_sessions ! 0 = (new_session 7 1 1)\<lparr>tLastSent := 1\<rparr>"
    by (simp add: demo_sessions_def SetupSession_def MAX_SESSIONS_def)
  show "live (demo_sessions ! 0)" unfolding d using live_new_session by (simp add: live_def)
  show "length demo_sessions = 5" by (simp add: demo_sessions_def SetupSession_def MAX_SESSIONS_def)
qed

theorem SessionCheck_idle_witness:
  "SessionCheck demo_dev 180002 demo_sessions ! 0 = zeroSession \<and>
   SessionCheck demo_dev 180001 demo_sessions ! 0 = demo_sessions ! 0"
proof -
  have r: "tLastReceived (demo_sessions ! 0) = 1" "tLastSent (demo_sessions ! 0) = 1"
    by (simp_all add: wf_demo new_session_def stamp_def)
  have T: "sint (180000 :: s32) = 180000" by simp
  note h = SessionCheck_idle [of 0 demo_sessions _ demo_dev, unfolded r demo_timeout T]
  from h [of 180002] h [of 180001] show ?thesis using wf_demo by simp
qed


end
