(* ===== verification/HttpDate.thy ===== *)
theory HttpDate
  imports Utils
begin

text \<open>
  The dates of the HTTP headers: \<open>gmt4http\<close> and \<open>parseHttpDate\<close> of
  \<^verbatim>\<open>lwip-port/win32/arch/sys_arch.c\<close>. The calendar functions \<^verbatim>\<open>gmtime_s\<close> and
  \<^verbatim>\<open>_mkgmtime\<close> of the C library are modelled on the proleptic Gregorian calendar, with the
  documented range of the library (the years 1970 to 3000).
\<close>

section \<open>The calendar of the C library\<close>

record tm =
  tm_sec :: int
  tm_min :: int
  tm_hour :: int
  tm_mday :: int
  tm_mon :: int
  tm_year :: int
  tm_wday :: int

definition leap :: "nat \<Rightarrow> bool" where
  "leap y \<longleftrightarrow> (4 dvd y \<and> \<not> 100 dvd y) \<or> 400 dvd y"

definition year_days :: "nat \<Rightarrow> nat" where
  "year_days y = (if leap y then 366 else 365)"

definition month_days :: "nat \<Rightarrow> nat \<Rightarrow> nat" where
  "month_days y m = (if m = 1 then (if leap y then 29 else 28)
     else if m \<in> {3, 5, 8, 10} then 30 else 31)"

text \<open>Days before the year \<open>1970 + n\<close>, and before the month \<open>m\<close> of the year \<open>y\<close>.\<close>

fun days_to_year :: "nat \<Rightarrow> nat" where
  "days_to_year 0 = 0"
| "days_to_year (Suc n) = days_to_year n + year_days (1970 + n)"

fun days_to_month :: "nat \<Rightarrow> nat \<Rightarrow> nat" where
  "days_to_month y 0 = 0"
| "days_to_month y (Suc m) = days_to_month y m + month_days y m"

function find_year :: "nat \<Rightarrow> nat \<Rightarrow> nat \<times> nat" where
  "find_year n d = (if d < year_days (1970 + n) then (n, d) else find_year (Suc n) (d - year_days (1970 + n)))"
  by auto
termination
  by (relation "measure (\<lambda>(n, d). d)") (auto simp: year_days_def split: if_splits)

declare find_year.simps [simp del]

fun find_month :: "nat \<Rightarrow> nat \<Rightarrow> nat \<Rightarrow> nat \<Rightarrow> nat \<times> nat" where
  "find_month 0 y m d = (m, d)"
| "find_month (Suc fuel) y m d =
     (if d < month_days y m then (m, d) else find_month fuel y (Suc m) (d - month_days y m))"

definition gmtime :: "nat \<Rightarrow> tm" where
  "gmtime t =
     (let days = t div 86400; s = t mod 86400;
          (n, yd) = find_year 0 days;
          (m, md) = find_month 11 (1970 + n) 0 yd
      in \<lparr>tm_sec = int (s mod 60), tm_min = int (s div 60 mod 60), tm_hour = int (s div 3600),
          tm_mday = int md + 1, tm_mon = int m, tm_year = int (70 + n),
          tm_wday = int ((4 + days) mod 7)\<rparr>)"

text \<open>\<^verbatim>\<open>_mkgmtime\<close> normalises its fields; -1 reports a date outside the supported range.\<close>

definition mkgmtime :: "tm \<Rightarrow> int" where
  "mkgmtime t =
     (let y = tm_year t + 1900 + tm_mon t div 12; m = nat (tm_mon t mod 12)
      in if y < 1970 \<or> 3000 < y then -1
         else let v = (int (days_to_year (nat (y - 1970))) + int (days_to_month (nat y) m)
                       + tm_mday t - 1) * 86400 + tm_hour t * 3600 + tm_min t * 60 + tm_sec t
              in if v < 0 then -1 else v)"

section \<open>Operations\<close>

definition wday_name :: "string list" where
  "wday_name = [''Sun'', ''Mon'', ''Tue'', ''Wed'', ''Thu'', ''Fri'', ''Sat'']"

definition mon_name :: "string list" where
  "mon_name = [''Jan'', ''Feb'', ''Mar'', ''Apr'', ''May'', ''Jun'', ''Jul'', ''Aug'', ''Sep'',
     ''Oct'', ''Nov'', ''Dec'']"

definition two_digits :: "int \<Rightarrow> string" where
  "two_digits i = pad0 2 (fmt_d i)"

definition gmt4http :: "nat \<Rightarrow> string" where
  "gmt4http t =
     (let p = gmtime t
      in wday_name ! nat (tm_wday p) @ '', '' @ two_digits (tm_mday p) @ '' '' @
         mon_name ! nat (tm_mon p) @ '' '' @ fmt_d (1900 + tm_year p) @ '' '' @
         two_digits (tm_hour p) @ '':'' @ two_digits (tm_min p) @ '':'' @ two_digits (tm_sec p) @ '' GMT'')"

fun find_mon_name :: "string \<Rightarrow> nat \<Rightarrow> string list \<Rightarrow> int" where
  "find_mon_name s i [] = -1"
| "find_mon_name s i (n # ns) = (if Strnicmp s n 3 = 0 then int i else find_mon_name s (Suc i) ns)"

text \<open>\<^verbatim>\<open>s\<close> is the position \<open>i\<close> of the array \<open>b\<close>; the fields are read at fixed offsets.\<close>

definition parseHttpDate :: "cbuf \<Rightarrow> nat \<Rightarrow> int option" where
  "parseHttpDate b i =
     do { sec \<leftarrow> c_str b (i + 23); minute \<leftarrow> c_str b (i + 20); hour \<leftarrow> c_str b (i + 17);
          mday \<leftarrow> c_str b (i + 5); mon \<leftarrow> c_str b (i + 8); year \<leftarrow> c_str b (i + 12);
          Some (mkgmtime \<lparr>tm_sec = sint (ston sec), tm_min = sint (ston minute),
             tm_hour = sint (ston hour), tm_mday = sint (ston mday),
             tm_mon = find_mon_name mon 0 mon_name, tm_year = sint (ston year) - 1900,
             tm_wday = 0\<rparr>) }"

section \<open>The calendar is invertible\<close>

lemma find_year_inverse:
  "find_year n d = (n', d') \<Longrightarrow> days_to_year n + d = days_to_year n' + d' \<and> d' < year_days (1970 + n') \<and> n \<le> n'"
proof (induction n d rule: find_year.induct)
  case (1 n d)
  then show ?case
    by (subst (asm) find_year.simps) (fastforce split: if_splits)
qed

lemma find_month_inverse:
  "find_month k y m d = (m', d') \<Longrightarrow> days_to_month y m + d = days_to_month y m' + d' \<and> m \<le> m' \<and> m' \<le> m + k \<and>
     (d' < month_days y m' \<or> m' = m + k)"
  by (induction k arbitrary: m d) (fastforce split: if_splits)+

lemma days_to_month_year: "days_to_month y 12 = year_days y"
  by (simp add: eval_nat_numeral month_days_def year_days_def)

lemma month_of_year:
  assumes "find_month 11 y 0 d = (m, r)" "d < year_days y"
  shows "m < 12 \<and> days_to_month y m + r = d \<and> r < month_days y m"
proof -
  note f = find_month_inverse [OF assms(1)]
  show ?thesis
  proof (cases "m = 11")
    case True
    have "days_to_month y 12 = days_to_month y 11 + month_days y 11" by (simp add: eval_nat_numeral)
    with True f assms(2) days_to_month_year [of y] show ?thesis by auto
  next
    case False
    with f show ?thesis by auto
  qed
qed

lemma month_days_le: "month_days y m \<le> 31"
  by (simp add: month_days_def)

lemma days_to_year_mono: "n \<le> m \<Longrightarrow> days_to_year n \<le> days_to_year m"
  by (rule lift_Suc_mono_le) simp_all

lemma days_to_year_ge: "365 * n \<le> days_to_year n"
  by (induction n) (auto simp: year_days_def)

text \<open>All fields of \<open>gmtime\<close>, with the bounds that the formats rely on.\<close>

lemma gmtime_fields:
  assumes "t < 32503680000"
  obtains n m d where "gmtime t = \<lparr>tm_sec = int (t mod 86400 mod 60), tm_min = int (t mod 86400 div 60 mod 60),
      tm_hour = int (t mod 86400 div 3600), tm_mday = int d + 1, tm_mon = int m, tm_year = int (70 + n),
      tm_wday = int ((4 + t div 86400) mod 7)\<rparr>"
    "m < 12" "d < 31" "n \<le> 1030" "days_to_year n + days_to_month (1970 + n) m + d = t div 86400"
proof -
  obtain n yd where y: "find_year 0 (t div 86400) = (n, yd)" by (cases "find_year 0 (t div 86400)")
  obtain m d where m: "find_month 11 (1970 + n) 0 yd = (m, d)" by (cases "find_month 11 (1970 + n) 0 yd")
  note fy = find_year_inverse [OF y]
  have yd: "yd < year_days (1970 + n)" using fy by blast
  note fm = month_of_year [OF m yd]
  have "t div 86400 < 376200" using assms by (simp add: less_mult_imp_div_less)
  with fy days_to_year_ge [of n] have "n \<le> 1030" by simp
  moreover have "d < 31" using fm month_days_le [of "1970 + n" m] by simp
  moreover have "days_to_year n + days_to_month (1970 + n) m + d = t div 86400" using fy fm by simp
  ultimately show ?thesis using that [of d m n] fm y m by (simp add: gmtime_def Let_def)
qed

section \<open>Round trip\<close>

lemma c_str_at:
  assumes "NUL \<notin> set s" "k \<le> length s"
  shows "c_str (pre @ s @ NUL # rest) (length pre + k) = Some (drop k s)"
proof -
  have "drop (length pre + k) (pre @ s @ NUL # rest) = drop k s @ NUL # rest" using assms(2) by simp
  moreover have "NUL \<notin> set (drop k s)" using assms(1) in_set_dropD by fast
  ultimately show ?thesis by (simp add: c_str_def takeWhile_ne_noteq)
qed

lemma ston_padded: "ston (replicate k CHR ''0'' @ fmt_u n @ r) = of_nat (dec_val n r)"
proof -
  have "is_digit CHR ''0''" by (simp add: is_digit_def)
  then have h: "is_digit (hd (replicate k CHR ''0'' @ fmt_u n @ r))"
    using fmt_u_digits [of "hd (fmt_u n)" n] by (cases k) simp_all
  have "dec_val 0 (replicate k CHR ''0'' @ x) = dec_val 0 x" for x
    by (induction k) (simp_all add: is_digit_def digit_val_def)
  then show ?thesis
    using ston_unsigned [OF _ h] fmt_u_digits by (simp add: dec_val_app_digits dec_val_fmt_u)
qed

lemma two_digits_nat: "two_digits (int n) = replicate (2 - length (fmt_u n)) CHR ''0'' @ fmt_u n"
  by (simp add: two_digits_def pad0_def fmt_d_def)

lemma length_two_digits: "n < 100 \<Longrightarrow> length (two_digits (int n)) = 2"
  using length_fmt_u_le [of n 2] by (simp add: two_digits_nat)

lemma ston_two_digits: "\<not> is_digit c \<Longrightarrow> ston (two_digits (int n) @ c # r) = of_nat n"
  by (simp add: two_digits_nat ston_padded)

lemma sint_small: "n < 2147483648 \<Longrightarrow> sint (of_nat n :: u32) = int n"
  by (subst signed_of_nat) (simp add: signed_take_bit_int_eq_self_iff)

lemma length_fmt_u_4:
  assumes "1000 \<le> n" "n < 10000"
  shows "length (fmt_u n) = 4"
proof -
  have "10 ^ 3 \<le> n" using assms by simp
  have low: "10 ^ k \<le> n \<Longrightarrow> k < length (fmt_nat 10 n)" for k n
  proof (induction k arbitrary: n)
    case 0
    then show ?case by (simp add: fmt_nat.simps [of 10 n])
  next
    case (Suc k)
    have "10 * 1 \<le> 10 * (10 :: nat) ^ k" by (intro mult_le_mono2 one_le_power) simp
    also have "\<dots> \<le> n" using Suc.prems by simp
    finally have "10 \<le> n" by simp
    moreover have "10 ^ k \<le> n div 10" using Suc.prems by (simp add: less_eq_div_iff_mult_less_eq mult.commute)
    ultimately show ?case using Suc.IH [of "n div 10"] by (simp add: fmt_nat.simps [of 10 n])
  qed
  show ?thesis
    using low [OF \<open>10 ^ 3 \<le> n\<close>] length_fmt_u_le [of n 4] assms(2) by (simp add: fmt_u_def)
qed

lemma find_mon_name_app: "length x = 3 \<Longrightarrow> find_mon_name (x @ r) i ns = find_mon_name x i ns"
  by (induction ns arbitrary: i) (simp_all add: Strnicmp_zero_iff)

lemma find_mon_name_nth:
  assumes "m < 12"
  shows "find_mon_name (mon_name ! m @ r) 0 mon_name = int m"
proof -
  have "list_all (\<lambda>m. find_mon_name (mon_name ! m) 0 mon_name = int m \<and> length (mon_name ! m) = 3) [0..<12]"
    by code_simp
  with assms show ?thesis by (simp add: list_all_iff find_mon_name_app)
qed

lemma length_names: "m < 12 \<Longrightarrow> length (mon_name ! m) = 3" "w < 7 \<Longrightarrow> length (wday_name ! w) = 3"
proof -
  have "\<forall>x \<in> set mon_name. length x = 3" "\<forall>x \<in> set wday_name. length x = 3" "length mon_name = 12"
    "length wday_name = 7" by (simp_all add: mon_name_def wday_name_def)
  then show "m < 12 \<Longrightarrow> length (mon_name ! m) = 3" "w < 7 \<Longrightarrow> length (wday_name ! w) = 3" by simp_all
qed

lemma NUL_notin_names: "m < 12 \<Longrightarrow> NUL \<notin> set (mon_name ! m)" "w < 7 \<Longrightarrow> NUL \<notin> set (wday_name ! w)"
proof -
  have "\<forall>x \<in> set mon_name. NUL \<notin> set x" "\<forall>x \<in> set wday_name. NUL \<notin> set x" "length mon_name = 12"
    "length wday_name = 7" by (simp_all add: mon_name_def wday_name_def)
  then show "m < 12 \<Longrightarrow> NUL \<notin> set (mon_name ! m)" "w < 7 \<Longrightarrow> NUL \<notin> set (wday_name ! w)" by simp_all
qed


lemma hms: "s div 3600 * 3600 + s div 60 mod 60 * 60 + s mod 60 = (s :: nat)"
proof -
  have "s div 3600 = s div 60 div 60" by (simp add: div_mult2_eq [symmetric])
  moreover have "s div 60 div 60 * 60 + s div 60 mod 60 = s div 60" "s div 60 * 60 + s mod 60 = s"
    by (rule div_mult_mod_eq)+
  ultimately show ?thesis by linarith
qed

text \<open>
  C25. HTTP dates round-trip: for every time from 1970 up to the year 3000,
  \<open>parseHttpDate\<close> reads back from the text that \<open>gmt4http\<close> writes, wherever it stands in a
  buffer, exactly the same number of seconds, through the calendar and back.
\<close>

theorem http_date_round_trip:
  assumes "t < 32503680000"
  shows "parseHttpDate (pre @ gmt4http t @ NUL # rest) (length pre) = Some (int t)"
proof -
  obtain n m d where g: "gmtime t = \<lparr>tm_sec = int (t mod 86400 mod 60), tm_min = int (t mod 86400 div 60 mod 60),
      tm_hour = int (t mod 86400 div 3600), tm_mday = int d + 1, tm_mon = int m, tm_year = int (70 + n),
      tm_wday = int ((4 + t div 86400) mod 7)\<rparr>"
    and b: "m < 12" "d < 31" "n \<le> 1030" "days_to_year n + days_to_month (1970 + n) m + d = t div 86400"
    using assms by (rule gmtime_fields)
  let ?S = "t mod 86400 mod 60" and ?M = "t mod 86400 div 60 mod 60" and ?H = "t mod 86400 div 3600"
  let ?w = "wday_name ! ((4 + t div 86400) mod 7)" and ?m = "mon_name ! m" and ?y = "fmt_u (1970 + n)"
  let ?dd = "two_digits (int (Suc d))" and ?hh = "two_digits (int ?H)"
    and ?mm = "two_digits (int ?M)" and ?ss = "two_digits (int ?S)"
  have small: "?S < 60" "?M < 60" "?H < 24" by (simp_all add: less_mult_imp_div_less)
  have s: "gmt4http t = ?w @ '', '' @ ?dd @ '' '' @ ?m @ '' '' @ ?y @ '' '' @ ?hh @ '':'' @ ?mm @ '':'' @ ?ss @ '' GMT''"
    by (simp add: gmt4http_def g fmt_d_def add.commute nat_add_distrib)
  have len: "length ?w = 3" "length ?dd = 2" "length ?m = 3" "length ?y = 4" "length ?hh = 2" "length ?mm = 2" "length ?ss = 2"
    using b small by (simp_all add: length_names length_two_digits length_fmt_u_4 del: of_nat_Suc)
  have nn: "NUL \<notin> set (gmt4http t)"
    using b by (simp add: s NUL_notin_names two_digits_nat NUL_notin_fmt_nat fmt_u_def del: of_nat_Suc)
  have rd: "c_str (pre @ gmt4http t @ NUL # rest) (length pre + k) = Some (drop k (gmt4http t))" if "k \<le> 29" for k
    using that by (intro c_str_at nn) (simp add: s len del: of_nat_Suc)
  have dr: "drop 5 (gmt4http t) = ?dd @ CHR '' '' # drop 8 (gmt4http t)"
    "drop 8 (gmt4http t) = ?m @ CHR '' '' # drop 12 (gmt4http t)"
    "drop 12 (gmt4http t) = ?y @ CHR '' '' # drop 17 (gmt4http t)"
    "drop 17 (gmt4http t) = ?hh @ CHR '':'' # drop 20 (gmt4http t)"
    "drop 20 (gmt4http t) = ?mm @ CHR '':'' # drop 23 (gmt4http t)"
    "drop 23 (gmt4http t) = ?ss @ CHR '' '' # ''GMT''"
    unfolding s by (simp_all add: len del: of_nat_Suc)
  have v: "ston (drop 5 (gmt4http t)) = of_nat (Suc d)" "ston (drop 12 (gmt4http t)) = of_nat (1970 + n)"
    "ston (drop 17 (gmt4http t)) = of_nat ?H" "ston (drop 20 (gmt4http t)) = of_nat ?M"
    "ston (drop 23 (gmt4http t)) = of_nat ?S"
    by (subst dr, simp only: ston_two_digits ston_fmt_u dec_val.simps not_digit_special simp_thms if_False)+
  have mo: "find_mon_name (drop 8 (gmt4http t)) 0 mon_name = int m" by (subst dr(2)) (rule find_mon_name_nth [OF b(1)])
  have t: "t = (days_to_year n + days_to_month (1970 + n) m + d) * 86400 + ?H * 3600 + ?M * 60 + ?S"
    using hms [of "t mod 86400"] div_mult_mod_eq [of t 86400] unfolding b(4) by linarith
  have E: "(int (days_to_year n) + int (days_to_month (1970 + n) m) + int (Suc d) - 1) * 86400
      + int ?H * 3600 + int ?M * 60 + int ?S = int t"
    using arg_cong [OF t, of int]
    by (simp only: of_nat_add of_nat_mult of_nat_Suc of_nat_numeral) simp
  have "mkgmtime \<lparr>tm_sec = int ?S, tm_min = int ?M, tm_hour = int ?H, tm_mday = int (Suc d), tm_mon = int m,
      tm_year = int (1970 + n) - 1900, tm_wday = 0\<rparr> = int t"
  proof -
    have y: "int (1970 + n) - 1900 + 1900 + int m div 12 = int (1970 + n)" "int m mod 12 = int m"
      using b(1) by simp_all
    have nats: "nat (int (1970 + n) - 1970) = n" "nat (int (1970 + n)) = 1970 + n" "nat (int m) = m"
      by simp_all
    have pos: "\<not> (int (1970 + n) < 1970 \<or> 3000 < int (1970 + n))" "\<not> int t < 0" using b(3) by simp_all
    show ?thesis
      unfolding mkgmtime_def Let_def by (simp only: tm.simps y nats E pos if_False)
  qed
  moreover have "sint (of_nat ?S :: u32) = int ?S" "sint (of_nat ?M :: u32) = int ?M" "sint (of_nat ?H :: u32) = int ?H"
    "sint (of_nat (Suc d) :: u32) = int (Suc d)" "sint (of_nat (1970 + n) :: u32) = int (1970 + n)"
    using small b by (intro sint_small; linarith)+
  ultimately show ?thesis
    unfolding parseHttpDate_def by (simp add: rd v mo del: of_nat_Suc of_nat_add)
qed


theorem http_date_round_trip_witness:
  "parseHttpDate (''If-Modified-Since: '' @ gmt4http 1605130877 @ NUL # []) (length ''If-Modified-Since: '') = Some 1605130877"
proof -
  have "(1605130877 :: nat) < 32503680000" by simp
  from http_date_round_trip [OF this, of "''If-Modified-Since: ''" "[]"]
  show ?thesis by (simp only: of_nat_numeral)
qed

end
