(* ===== verification/FileSystem.thy ===== *)
theory FileSystem
  imports HttpDate
begin

text \<open>
  \<^verbatim>\<open>httpd/http_fs.c\<close> and \<^verbatim>\<open>lwip-port/win32/arch/port_file.c\<close>: the files that the server
  reads and writes. \<^verbatim>\<open>LOCAL_FILE_SYSTEM\<close> selects between the disk of the host and a read-only
  image that is linked into the program; the selection is the field \<open>local_fs\<close>, so that both
  branches of every function are modelled. Of the disk, the model keeps the contents and times
  of the files, the open streams of the C library and the listings of its folders; using a
  stream that is not open is \<^const>\<open>None\<close>. Of the image it keeps the sequence of
  (name, contents, time) records of the generated array.
\<close>

section \<open>Data\<close>

definition MAX_FILES :: nat where "MAX_FILES = 32"

definition LOCAL_WEBROOT :: string where
  "LOCAL_WEBROOT = ''D:/straight/straight-httpd/straight-httpd/straight-httpd/httpd/cncweb/''"

record disk_file =
  file_data :: "char list"
  file_time :: nat

record stream =
  st_path :: string
  st_pos :: nat
  st_write :: bool

record dir_entry =
  de_folder :: bool
  de_name :: string
  de_size :: int
  de_date :: nat

text \<open>The records of the image and the built-in test files, by their positions.\<close>

datatype file_info = ImageFile nat | FakeFile nat

record rom_file =
  rom_name :: string
  rom_data :: "char list"
  rom_time :: nat

text \<open>A handle is an open stream, an open folder (both of the host) or a slot of \<open>g_FileOpened\<close>.\<close>

datatype handle = Stream nat | Folder nat | Slot nat

record file_system =
  local_fs :: bool
  disk :: "string \<rightharpoonup> disk_file"
  can_create :: "string \<Rightarrow> bool"
  listing :: "string \<Rightarrow> dir_entry list option"
  streams :: "nat \<rightharpoonup> stream"
  folders :: "nat \<rightharpoonup> dir_entry list"
  next_id :: nat
  write_time :: nat
  image :: "rom_file list"
  g_FileOpened :: "(file_info option \<times> nat) list"

section \<open>The host's files\<close>

text \<open>
  \<open>fopen_s\<close>: reading needs an existing file, writing creates an empty one where the host
  allows it.
\<close>

definition LWIP_fopen :: "string \<Rightarrow> string \<Rightarrow> file_system \<Rightarrow> handle option \<times> file_system" where
  "LWIP_fopen path mode fs =
     (let wr = CHR ''w'' \<in> set mode;
          fs' = fs\<lparr>streams := (streams fs)(next_id fs \<mapsto> \<lparr>st_path = path, st_pos = 0, st_write = wr\<rparr>),
                   next_id := next_id fs + 1\<rparr>
      in if wr
         then (if can_create fs path
               then (Some (Stream (next_id fs)),
                     fs'\<lparr>disk := (disk fs)(path \<mapsto> \<lparr>file_data = [], file_time = write_time fs\<rparr>)\<rparr>)
               else (None, fs))
         else (if disk fs path \<noteq> None then (Some (Stream (next_id fs)), fs') else (None, fs)))"

definition stream_of :: "handle \<Rightarrow> file_system \<Rightarrow> stream option" where
  "stream_of f fs = (case f of Stream s \<Rightarrow> streams fs s | _ \<Rightarrow> None)"

definition set_stream :: "handle \<Rightarrow> stream option \<Rightarrow> file_system \<Rightarrow> file_system" where
  "set_stream f v fs = (case f of Stream s \<Rightarrow> fs\<lparr>streams := (streams fs)(s := v)\<rparr> | _ \<Rightarrow> fs)"

text \<open>\<open>fread\<close> delivers the bytes from the position on, as many as there are.\<close>

definition LWIP_fread :: "handle \<Rightarrow> nat \<Rightarrow> file_system \<Rightarrow> (char list \<times> file_system) option" where
  "LWIP_fread f toRead fs =
     do { st \<leftarrow> stream_of f fs;
          d \<leftarrow> disk fs (st_path st);
          let bytes = take toRead (drop (st_pos st) (file_data d));
          Some (bytes, set_stream f (Some (st\<lparr>st_pos := st_pos st + length bytes\<rparr>)) fs) }"

definition LWIP_fseek :: "handle \<Rightarrow> int \<Rightarrow> file_system \<Rightarrow> (int \<times> file_system) option" where
  "LWIP_fseek f offset fs =
     do { st \<leftarrow> stream_of f fs;
          Some (if offset < 0 then (-1, fs)
                else (0, set_stream f (Some (st\<lparr>st_pos := nat offset\<rparr>)) fs)) }"

text \<open>\<open>fwrite\<close> replaces the bytes at the position; a gap is filled with zeros.\<close>

definition LWIP_fwrite :: "handle \<Rightarrow> char list \<Rightarrow> file_system \<Rightarrow> (int \<times> file_system) option" where
  "LWIP_fwrite f buf fs =
     do { st \<leftarrow> stream_of f fs;
          if \<not> st_write st then Some (0, fs)
          else do { d \<leftarrow> disk fs (st_path st);
            let old = file_data d @ replicate (st_pos st - length (file_data d)) NUL;
            let new = take (st_pos st) old @ buf @ drop (st_pos st + length buf) old;
            Some (int (length buf),
              (set_stream f (Some (st\<lparr>st_pos := st_pos st + length buf\<rparr>)) fs)
                \<lparr>disk := (disk fs)(st_path st \<mapsto> d\<lparr>file_data := new, file_time := write_time fs\<rparr>)\<rparr>) } }"

definition LWIP_ftime :: "string \<Rightarrow> file_system \<Rightarrow> nat \<times> string" where
  "LWIP_ftime fname fs =
     (if fname = [] then (0, [])
      else case disk fs fname of
             None \<Rightarrow> (0, [])
           | Some d \<Rightarrow> (file_time d, gmt4http (file_time d)))"

definition LWIP_fsize :: "handle \<Rightarrow> file_system \<Rightarrow> int option" where
  "LWIP_fsize f fs =
     do { st \<leftarrow> stream_of f fs; d \<leftarrow> disk fs (st_path st); Some (int (length (file_data d))) }"

definition LWIP_fclose :: "handle \<Rightarrow> file_system \<Rightarrow> file_system option" where
  "LWIP_fclose f fs = do { st \<leftarrow> stream_of f fs; Some (set_stream f None fs) }"

text \<open>
  Listing a folder. The name buffer of the caller holds \<open>maxLen\<close> bytes, so a name is cut to
  \<open>maxLen - 1\<close>. The conversion of the host's time stamps is part of the entries.
\<close>

definition LWIP_firstdir ::
  "string \<Rightarrow> nat \<Rightarrow> file_system \<Rightarrow> (handle \<times> dir_entry) option \<times> file_system" where
  "LWIP_firstdir flt maxLen fs = (case listing fs flt of
       Some (e # es) \<Rightarrow>
         (Some (Folder (next_id fs), e\<lparr>de_name := take (maxLen - 1) (de_name e)\<rparr>),
          fs\<lparr>folders := (folders fs)(next_id fs \<mapsto> es), next_id := next_id fs + 1\<rparr>)
     | _ \<Rightarrow> (None, fs))"

definition LWIP_readdir :: "handle \<Rightarrow> nat \<Rightarrow> file_system \<Rightarrow> (dir_entry option \<times> file_system) option" where
  "LWIP_readdir f maxLen fs = (case f of
       Folder k \<Rightarrow> (case folders fs k of
           None \<Rightarrow> None
         | Some [] \<Rightarrow> Some (None, fs)
         | Some (e # es) \<Rightarrow> Some (Some (e\<lparr>de_name := take (maxLen - 1) (de_name e)\<rparr>),
                                 fs\<lparr>folders := (folders fs)(k \<mapsto> es)\<rparr>))
     | _ \<Rightarrow> None)"

definition LWIP_closedir :: "handle \<Rightarrow> file_system \<Rightarrow> file_system option" where
  "LWIP_closedir f fs = (case f of
       Folder k \<Rightarrow> if folders fs k = None then None else Some (fs\<lparr>folders := (folders fs)(k := None)\<rparr>)
     | _ \<Rightarrow> None)"

section \<open>The image\<close>

text \<open>The sizes in megabytes and the times of the test files, which hold nothing but \<^verbatim>\<open>A\<close>.\<close>

definition fakeFiles :: "(nat \<times> nat) list" where
  "fakeFiles = map (\<lambda>(i, mb). (mb * 1024 * 1024, 1605130877 + i * 60))
     (enumerate 0 [1, 2, 8, 16, 64, 128, 256])"

definition fake_name :: "nat \<Rightarrow> string" where
  "fake_name sz = ''@@FakeFile'' @ pad0 3 (fmt_u (sz div 1048576)) @ ''MB.dat''"

fun find_image :: "string \<Rightarrow> nat \<Rightarrow> rom_file list \<Rightarrow> nat option" where
  "find_image name i [] = None"
| "find_image name i (r # rs) = (if rom_name r = name then Some i else find_image name (Suc i) rs)"

fun free_slot :: "nat \<Rightarrow> (file_info option \<times> nat) list \<Rightarrow> nat option" where
  "free_slot i [] = None"
| "free_slot i ((p, pos) # ss) = (if p = None then Some i else free_slot (Suc i) ss)"

fun find_fake :: "(nat \<Rightarrow> bool) \<Rightarrow> nat \<Rightarrow> (nat \<times> nat) list \<Rightarrow> nat option" where
  "find_fake P i [] = None"
| "find_fake P i ((sz, date) # ff) = (if P sz then Some i else find_fake P (Suc i) ff)"

definition open_slot :: "file_info \<Rightarrow> file_system \<Rightarrow> (handle \<times> file_system) option" where
  "open_slot p fs = map_option
     (\<lambda>i. (Slot i, fs\<lparr>g_FileOpened := (g_FileOpened fs)[i := (Some p, 0)]\<rparr>))
     (free_slot 0 (g_FileOpened fs))"

definition info_size :: "file_info \<Rightarrow> file_system \<Rightarrow> nat" where
  "info_size p fs = (case p of
       ImageFile i \<Rightarrow> length (rom_data (image fs ! i))
     | FakeFile i \<Rightarrow> (if i < length fakeFiles then fst (fakeFiles ! i) else 0))"

definition info_time :: "file_info \<Rightarrow> file_system \<Rightarrow> nat" where
  "info_time p fs = (case p of
       ImageFile i \<Rightarrow> rom_time (image fs ! i) | FakeFile i \<Rightarrow> snd (fakeFiles ! i))"

definition info_data :: "file_info \<Rightarrow> nat \<Rightarrow> nat \<Rightarrow> file_system \<Rightarrow> char list" where
  "info_data p pos n fs = (case p of
       ImageFile i \<Rightarrow> take n (drop pos (rom_data (image fs ! i)))
     | FakeFile i \<Rightarrow> replicate n CHR ''A'')"

section \<open>The files of the server\<close>

definition WEB_fs_init :: "file_system \<Rightarrow> nat \<times> file_system" where
  "WEB_fs_init fs =
     (if local_fs fs then 0 else length (image fs),
      fs\<lparr>g_FileOpened := replicate MAX_FILES (None, 0)\<rparr>)"

text \<open>The path on the host, built in an array of 128 bytes.\<close>

definition host_path :: "string \<Rightarrow> string option" where
  "host_path szFile =
     do { szTemp \<leftarrow> c_strcpy (replicate 128 NUL) 0 LOCAL_WEBROOT;
          t \<leftarrow> c_str szTemp 0;
          szTemp \<leftarrow> (if t ! (length t - 1) \<noteq> CHR ''/'' then c_strcat szTemp ''/'' else Some szTemp);
          szTemp \<leftarrow> (if take 1 szFile \<noteq> ''/'' then c_strcat szTemp szFile
             else c_strcat szTemp (drop 1 szFile));
          c_str szTemp 0 }"

definition WEB_fopen :: "string \<Rightarrow> string \<Rightarrow> file_system \<Rightarrow> (handle option \<times> file_system) option" where
  "WEB_fopen szFile mode fs =
     (if local_fs fs
      then (if c_strchr szFile CHR '':'' = None
            then do { p \<leftarrow> host_path szFile; Some (LWIP_fopen p mode fs) }
            else Some (LWIP_fopen szFile mode fs))
      else
        let fake = (case find_fake (\<lambda>sz. c_strstr szFile (fake_name sz) \<noteq> None \<or>
                            c_strchr mode CHR ''w'' \<noteq> None) 0 fakeFiles of
              None \<Rightarrow> (None, fs)
            | Some i \<Rightarrow> (case open_slot (FakeFile i) fs of
                 None \<Rightarrow> (None, fs) | Some (f, fs) \<Rightarrow> (Some f, fs)))
        in case find_image szFile 0 (image fs) of
             None \<Rightarrow> Some fake
           | Some i \<Rightarrow> (case open_slot (ImageFile i) fs of
                None \<Rightarrow> Some fake | Some (f, fs) \<Rightarrow> Some (Some f, fs)))"

text \<open>The time of a file, and the text that is left in the caller's buffer (none from the image).\<close>

definition WEB_ftime :: "string \<Rightarrow> file_system \<Rightarrow> (nat \<times> string option) option" where
  "WEB_ftime szFile fs =
     (if local_fs fs
      then do { p \<leftarrow> host_path szFile; let r = LWIP_ftime p fs; Some (fst r, Some (snd r)) }
      else case find_image szFile 0 (image fs) of
             Some i \<Rightarrow> Some (rom_time (image fs ! i), None)
           | None \<Rightarrow> (case find_fake (\<lambda>sz. szFile = fake_name sz) 0 fakeFiles of
                Some i \<Rightarrow> Some (snd (fakeFiles ! i), None)
              | None \<Rightarrow> Some (0, None)))"

definition slot_of :: "handle \<Rightarrow> file_system \<Rightarrow> (nat \<times> file_info option \<times> nat) option" where
  "slot_of f fs = (case f of
       Slot i \<Rightarrow> if i < length (g_FileOpened fs) then Some (i, g_FileOpened fs ! i) else None
     | _ \<Rightarrow> None)"

definition WEB_fseek :: "handle option \<Rightarrow> int \<Rightarrow> file_system \<Rightarrow> (int \<times> file_system) option" where
  "WEB_fseek fo offset fs = (case fo of
       None \<Rightarrow> Some (if local_fs fs then -1 else offset, fs)
     | Some f \<Rightarrow>
         if local_fs fs then LWIP_fseek f offset fs
         else do { (i, p, pos) \<leftarrow> slot_of f fs;
                   Some (offset, fs\<lparr>g_FileOpened := (g_FileOpened fs)[i := (p, nat (offset mod 2 ^ 32))]\<rparr>) })"

definition WEB_fclose :: "handle option \<Rightarrow> file_system \<Rightarrow> file_system option" where
  "WEB_fclose fo fs = (case fo of
       None \<Rightarrow> if local_fs fs then None else Some fs
     | Some f \<Rightarrow>
         if local_fs fs then LWIP_fclose f fs
         else do { (i, p, pos) \<leftarrow> slot_of f fs;
                   Some (fs\<lparr>g_FileOpened := (g_FileOpened fs)[i := (None, 0)]\<rparr>) })"

definition WEB_fsize :: "handle option \<Rightarrow> file_system \<Rightarrow> int option" where
  "WEB_fsize fo fs = (case fo of
       None \<Rightarrow> Some 0
     | Some f \<Rightarrow>
         if local_fs fs then LWIP_fsize f fs
         else do { (i, p, pos) \<leftarrow> slot_of f fs;
                   Some (case p of None \<Rightarrow> 0 | Some q \<Rightarrow> int (info_size q fs)) })"

text \<open>
  The bytes that were read, or \<^const>\<open>None\<close> inside for the error result -1. A position behind
  the end of an image file makes the byte count negative, which runs out of the array.
\<close>

definition WEB_fread ::
  "handle option \<Rightarrow> nat \<Rightarrow> file_system \<Rightarrow> (char list option \<times> file_system) option" where
  "WEB_fread fo count fs = (case fo of
       None \<Rightarrow> if local_fs fs then None else Some (None, fs)
     | Some f \<Rightarrow>
         if local_fs fs
         then do { (b, fs) \<leftarrow> LWIP_fread f count fs; Some (Some b, fs) }
         else do { (i, p, pos) \<leftarrow> slot_of f fs;
              case p of
                None \<Rightarrow> Some (None, fs)
              | Some q \<Rightarrow>
                  if info_size q fs < pos then None
                  else let n = min count (info_size q fs - pos)
                       in Some (Some (info_data q pos n fs),
                            fs\<lparr>g_FileOpened := (g_FileOpened fs)[i := (p, pos + n)]\<rparr>) })"

definition WEB_fwrite :: "handle option \<Rightarrow> char list \<Rightarrow> file_system \<Rightarrow> (int \<times> file_system) option" where
  "WEB_fwrite fo buf fs =
     (if local_fs fs then (case fo of None \<Rightarrow> Some (-1, fs) | Some f \<Rightarrow> LWIP_fwrite f buf fs)
      else Some (int (length buf), fs))"

definition WEB_firstdir ::
  "string \<Rightarrow> nat \<Rightarrow> file_system \<Rightarrow> (handle \<times> dir_entry) option \<times> file_system" where
  "WEB_firstdir flt maxLen fs =
     (if local_fs fs then LWIP_firstdir flt maxLen fs
      else case open_slot (FakeFile 0) fs of
             None \<Rightarrow> (None, fs)
           | Some (f, fs) \<Rightarrow>
               (Some (f, \<lparr>de_folder = False,
                  de_name = take (maxLen - 1) (fake_name (fst (fakeFiles ! 0))),
                  de_size = int (fst (fakeFiles ! 0)), de_date = snd (fakeFiles ! 0)\<rparr>), fs))"

definition WEB_readdir :: "handle option \<Rightarrow> nat \<Rightarrow> file_system \<Rightarrow> (dir_entry option \<times> file_system) option" where
  "WEB_readdir fo maxLen fs = (case fo of
       None \<Rightarrow> if local_fs fs then None else Some (None, fs)
     | Some f \<Rightarrow>
         if local_fs fs then LWIP_readdir f maxLen fs
         else do { (i, p, pos) \<leftarrow> slot_of f fs;
              let k = pos + 1;
              if length fakeFiles < k then None
              else let fs = fs\<lparr>g_FileOpened := (g_FileOpened fs)[i := (Some (FakeFile k), k)]\<rparr>
                   in Some (if k < length fakeFiles
                       then Some \<lparr>de_folder = False,
                          de_name = take (maxLen - 1) (fake_name (fst (fakeFiles ! k))),
                          de_size = int (fst (fakeFiles ! k)), de_date = snd (fakeFiles ! k)\<rparr>
                       else None, fs) })"

definition WEB_closedir :: "handle option \<Rightarrow> file_system \<Rightarrow> file_system option" where
  "WEB_closedir fo fs = (case fo of
       None \<Rightarrow> Some fs
     | Some f \<Rightarrow>
         if local_fs fs then LWIP_closedir f fs
         else do { (i, p, pos) \<leftarrow> slot_of f fs;
                   Some (fs\<lparr>g_FileOpened := (g_FileOpened fs)[i := (None, 0)]\<rparr>) })"

text \<open>Creating every folder on the way to a file; the list of the folders that are asked for.\<close>

fun deep_prefixes :: "string \<Rightarrow> string \<Rightarrow> string list" where
  "deep_prefixes pre [] = []"
| "deep_prefixes pre (c # s) =
     (if c = CHR ''/'' then pre # deep_prefixes (pre @ [c]) s else deep_prefixes (pre @ [c]) s)"

definition MakeDeepPath :: "string \<Rightarrow> string list" where
  "MakeDeepPath szPath =
     deep_prefixes [] (map (\<lambda>c. if c = CHR 0x5C then CHR ''/'' else c) (take 255 szPath))"

section \<open>Open files as sources of bytes\<close>

text \<open>A sequence of reads, with the bytes of all of them.\<close>

fun read_blocks :: "('f \<Rightarrow> nat \<Rightarrow> 's \<Rightarrow> (char list option \<times> 's) option) \<Rightarrow> 'f \<Rightarrow> nat list \<Rightarrow> 's \<Rightarrow>
    (char list \<times> 's) option" where
  "read_blocks rd f [] s = Some ([], s)"
| "read_blocks rd f (n # ns) s =
     do { (r, s) \<leftarrow> rd f n s; b \<leftarrow> r; (bs, s) \<leftarrow> read_blocks rd f ns s; Some (b @ bs, s) }"

text \<open>
  What the pages need of an open file: a read gives the bytes from the position on, as many as
  asked for and present, and moves the position behind them; seeking sets the position; the
  size is the length of the contents.
\<close>

locale byte_source =
  fixes valid :: "'f \<Rightarrow> 's \<Rightarrow> bool" and content :: "'f \<Rightarrow> 's \<Rightarrow> char list" and pos :: "'f \<Rightarrow> 's \<Rightarrow> nat"
    and rd :: "'f \<Rightarrow> nat \<Rightarrow> 's \<Rightarrow> (char list option \<times> 's) option"
    and seek :: "'f \<Rightarrow> int \<Rightarrow> 's \<Rightarrow> (int \<times> 's) option" and fsize :: "'f \<Rightarrow> 's \<Rightarrow> int option"
  assumes rd_law: "valid f s \<Longrightarrow> pos f s \<le> length (content f s) \<Longrightarrow>
      \<exists>s'. rd f n s = Some (Some (take n (drop (pos f s) (content f s))), s') \<and> valid f s' \<and>
        content f s' = content f s \<and> pos f s' = min (pos f s + n) (length (content f s))"
    and seek_law: "valid f s \<Longrightarrow> k < 2 ^ 31 \<Longrightarrow>
      \<exists>r s'. seek f (int k) s = Some (r, s') \<and> valid f s' \<and> content f s' = content f s \<and> pos f s' = k"
    and size_law: "valid f s \<Longrightarrow> fsize f s = Some (int (length (content f s)))"
begin

lemma read_blocks_content:
  assumes "valid f s" and "pos f s \<le> length (content f s)"
  shows "\<exists>s'. read_blocks rd f ns s = Some (take (sum_list ns) (drop (pos f s) (content f s)), s') \<and>
     valid f s' \<and> content f s' = content f s \<and> pos f s' = min (pos f s + sum_list ns) (length (content f s))"
  using assms
proof (induction ns arbitrary: s)
  case Nil
  then show ?case by simp
next
  case (Cons n ns)
  obtain s1 where s1: "rd f n s = Some (Some (take n (drop (pos f s) (content f s))), s1)" "valid f s1"
    "content f s1 = content f s" "pos f s1 = min (pos f s + n) (length (content f s))"
    using rd_law [OF Cons.prems] by blast
  then obtain s2 where s2: "read_blocks rd f ns s1 = Some (take (sum_list ns) (drop (pos f s1) (content f s)), s2)"
    "valid f s2" "content f s2 = content f s" "pos f s2 = min (pos f s1 + sum_list ns) (length (content f s))"
    using Cons.IH [OF s1(2)] by auto
  have "take n (drop (pos f s) (content f s)) @ take (sum_list ns) (drop (pos f s1) (content f s))
      = take (n + sum_list ns) (drop (pos f s) (content f s))"
    using s1(4) by (cases "pos f s + n \<le> length (content f s)") (simp_all add: take_add add.commute)
  with s1 s2 show ?case by (auto simp: min_def)
qed

lemma rewind_read_all:
  assumes "valid f s" "length (content f s) \<le> sum_list ns"
  shows "\<exists>s1 s2 r. seek f 0 s = Some (r, s1) \<and> read_blocks rd f ns s1 = Some (content f s, s2)"
proof -
  obtain r s1 where s1: "seek f 0 s = Some (r, s1)" "valid f s1" "content f s1 = content f s" "pos f s1 = 0"
    using seek_law [OF assms(1), of 0] by auto
  with read_blocks_content [OF s1(2), of ns] assms(2) show ?thesis by auto
qed

end

definition file_valid :: "handle \<Rightarrow> file_system \<Rightarrow> bool" where
  "file_valid f fs \<longleftrightarrow>
     (if local_fs fs then (\<exists>st d. stream_of f fs = Some st \<and> disk fs (st_path st) = Some d)
      else (\<exists>i q p. slot_of f fs = Some (i, Some q, p) \<and>
        (case q of ImageFile k \<Rightarrow> k < length (image fs) | FakeFile k \<Rightarrow> k < length fakeFiles)))"

definition file_content :: "handle \<Rightarrow> file_system \<Rightarrow> char list" where
  "file_content f fs =
     (if local_fs fs then (case stream_of f fs of
          Some st \<Rightarrow> (case disk fs (st_path st) of Some d \<Rightarrow> file_data d | None \<Rightarrow> []) | None \<Rightarrow> [])
      else (case slot_of f fs of
          Some (i, Some q, p) \<Rightarrow> info_data q 0 (info_size q fs) fs | _ \<Rightarrow> []))"

definition file_pos :: "handle \<Rightarrow> file_system \<Rightarrow> nat" where
  "file_pos f fs =
     (if local_fs fs then (case stream_of f fs of Some st \<Rightarrow> st_pos st | None \<Rightarrow> 0)
      else (case slot_of f fs of Some (i, q, p) \<Rightarrow> p | None \<Rightarrow> 0))"

lemma set_stream_sel [simp]:
  "local_fs (set_stream f v fs) = local_fs fs" "disk (set_stream f v fs) = disk fs"
  "image (set_stream f v fs) = image fs" "g_FileOpened (set_stream f v fs) = g_FileOpened fs"
  by (simp_all add: set_stream_def split: handle.split)

lemma stream_of_set_stream:
  "stream_of f fs = Some st \<Longrightarrow> stream_of f (set_stream f v fs) = v"
  by (simp add: stream_of_def set_stream_def split: handle.splits)

lemma slot_of_Some: "slot_of f fs = Some (i, x) \<Longrightarrow> f = Slot i \<and> i < length (g_FileOpened fs) \<and> g_FileOpened fs ! i = x"
  by (auto simp: slot_of_def split: handle.splits if_splits)

lemma slot_of_update:
  "slot_of f fs = Some (i, x) \<Longrightarrow> slot_of f (fs\<lparr>g_FileOpened := (g_FileOpened fs)[i := y]\<rparr>) = Some (i, y)"
  by (auto simp: slot_of_def split: handle.splits if_splits)

lemma info_upd [simp]:
  "info_size q (fs\<lparr>g_FileOpened := v\<rparr>) = info_size q fs" "info_data q a n (fs\<lparr>g_FileOpened := v\<rparr>) = info_data q a n fs"
  by (simp_all add: info_size_def info_data_def split: file_info.split)

lemma info_data_part: "info_data q a n fs = take n (drop a (info_data q 0 (a + n) fs))"
  by (simp add: info_data_def take_drop split: file_info.split)

lemma length_info_data: "length (info_data q 0 (info_size q fs) fs) = info_size q fs"
  by (simp add: info_data_def info_size_def split: file_info.split)

lemma info_data_block:
  assumes "a + n \<le> info_size q fs"
  shows "info_data q a n fs = take n (drop a (info_data q 0 (info_size q fs) fs))"
  using assms by (auto simp: info_data_def info_size_def take_drop split: file_info.split)

interpretation web_file: byte_source file_valid file_content file_pos "\<lambda>f. WEB_fread (Some f)"
  "\<lambda>f. WEB_fseek (Some f)" "\<lambda>f. WEB_fsize (Some f)"
proof unfold_locales
  fix f fs n
  assume v: "file_valid f fs" and p: "file_pos f fs \<le> length (file_content f fs)"
  show "\<exists>s'. WEB_fread (Some f) n fs = Some (Some (take n (drop (file_pos f fs) (file_content f fs))), s') \<and>
     file_valid f s' \<and> file_content f s' = file_content f fs \<and>
     file_pos f s' = min (file_pos f fs + n) (length (file_content f fs))"
  proof (cases "local_fs fs")
    case True
    with v obtain st d where st: "stream_of f fs = Some st" "disk fs (st_path st) = Some d"
      by (auto simp: file_valid_def)
    with True p show ?thesis
      by (auto simp: WEB_fread_def LWIP_fread_def file_valid_def file_content_def file_pos_def
          stream_of_set_stream [OF st(1)] min_def)
  next
    case False
    with v obtain i q a where q: "slot_of f fs = Some (i, Some q, a)"
      "case q of ImageFile k \<Rightarrow> k < length (image fs) | FakeFile k \<Rightarrow> k < length fakeFiles"
      by (auto simp: file_valid_def)
    let ?n = "min n (info_size q fs - a)"
    have a: "a \<le> info_size q fs" using p False q by (simp add: file_pos_def file_content_def length_info_data)
    have "info_data q a ?n fs = take n (drop a (info_data q 0 (info_size q fs) fs))"
    proof -
      have "a + ?n \<le> info_size q fs" using a by simp
      then have "info_data q a ?n fs = take ?n (drop a (info_data q 0 (info_size q fs) fs))" by (rule info_data_block)
      also have "\<dots> = take n (drop a (info_data q 0 (info_size q fs) fs))"
        using length_info_data [of q fs] by (simp add: min_def)
      finally show ?thesis .
    qed
    then show ?thesis using False q a slot_of_update [OF q(1), of "(Some q, a + ?n)"]
      by (auto simp: WEB_fread_def Let_def file_valid_def file_content_def file_pos_def length_info_data min_def
          split: file_info.splits)
  qed
next
  fix f fs k
  assume v: "file_valid f fs" and k: "(k :: nat) < 2 ^ 31"
  show "\<exists>r s'. WEB_fseek (Some f) (int k) fs = Some (r, s') \<and> file_valid f s' \<and>
     file_content f s' = file_content f fs \<and> file_pos f s' = k"
  proof (cases "local_fs fs")
    case True
    with v obtain st d where st: "stream_of f fs = Some st" "disk fs (st_path st) = Some d"
      by (auto simp: file_valid_def)
    with True show ?thesis
      by (auto simp: WEB_fseek_def LWIP_fseek_def file_valid_def file_content_def file_pos_def
          stream_of_set_stream [OF st(1)])
  next
    case False
    with v obtain i q a where q: "slot_of f fs = Some (i, Some q, a)"
      "case q of ImageFile k \<Rightarrow> k < length (image fs) | FakeFile k \<Rightarrow> k < length fakeFiles"
      by (auto simp: file_valid_def)
    have "nat (int k mod 2 ^ 32) = k" using k by simp
    then show ?thesis using False q slot_of_update [OF q(1), of "(Some q, k)"]
      by (auto simp: WEB_fseek_def file_valid_def file_content_def file_pos_def split: file_info.splits)
  qed
next
  fix f fs
  assume "file_valid f fs"
  then show "WEB_fsize (Some f) fs = Some (int (length (file_content f fs)))"
    by (auto simp: WEB_fsize_def LWIP_fsize_def file_valid_def file_content_def length_info_data split: if_splits)
qed


section \<open>Properties\<close>

text \<open>
  Serving a file: after a rewind, reading it in blocks of any sizes that add up to at least
  its size delivers exactly its contents, in both file systems.
\<close>

theorem file_served_in_blocks:
  assumes "file_valid f fs" "length (file_content f fs) \<le> sum_list blocks"
  shows "\<exists>r fs1 fs2. WEB_fseek (Some f) 0 fs = Some (r, fs1) \<and>
    WEB_fsize (Some f) fs1 = Some (int (length (file_content f fs))) \<and>
    read_blocks (\<lambda>f. WEB_fread (Some f)) f blocks fs1 = Some (file_content f fs, fs2)"
proof -
  obtain r s1 where s1: "WEB_fseek (Some f) 0 fs = Some (r, s1)" "file_valid f s1" "file_content f s1 = file_content f fs"
    using web_file.seek_law [OF assms(1), of 0] by auto
  obtain s2 where "read_blocks (\<lambda>f. WEB_fread (Some f)) f blocks s1 = Some (file_content f fs, s2)"
    using web_file.rewind_read_all [OF assms] s1(1) by auto
  then show ?thesis using s1 web_file.size_law [OF s1(2)] by auto
qed

definition demo_fs :: "bool \<Rightarrow> file_system" where
  "demo_fs loc = \<lparr>local_fs = loc, disk = [''f'' \<mapsto> \<lparr>file_data = ''hello'', file_time = 1\<rparr>], can_create = (\<lambda>_. True),
     listing = (\<lambda>_. None), streams = [7 \<mapsto> \<lparr>st_path = ''f'', st_pos = 3, st_write = False\<rparr>], folders = Map.empty,
     next_id = 8, write_time = 9,
     image = [\<lparr>rom_name = ''f'', rom_data = ''hello'', rom_time = 1\<rparr>],
     g_FileOpened = (Some (ImageFile 0), 2) # replicate 31 (None, 0)\<rparr>"

theorem file_served_in_blocks_witness:
  "\<exists>fs1 fs2. read_blocks (\<lambda>f. WEB_fread (Some f)) (Stream 7) [2, 1, 3] fs1 = Some (''hello'', fs2)"
proof -
  have v: "file_valid (Stream 7) (demo_fs True)" "file_content (Stream 7) (demo_fs True) = ''hello''"
    by (simp_all add: demo_fs_def file_valid_def file_content_def stream_of_def)
  then have "length (file_content (Stream 7) (demo_fs True)) \<le> sum_list [2, 1, 3]" by simp
  from file_served_in_blocks [OF v(1) this] v(2) show ?thesis by metis
qed

lemma LOCAL_WEBROOT_facts: "length LOCAL_WEBROOT = 70" "NUL \<notin> set LOCAL_WEBROOT" "LOCAL_WEBROOT ! 69 = CHR ''/''"
  by (simp_all add: LOCAL_WEBROOT_def)

lemma c_strcat_fits:
  assumes "NUL \<notin> set s" "length b = length s + Suc k"
  shows "c_strcat (s @ NUL # replicate k NUL) t =
     (if length t \<le> k then Some (s @ t @ NUL # replicate (k - length t) NUL) else None)"
  using assms by (auto simp: c_strcat_def c_str_app c_strcpy_def c_cpy_def)

text \<open>
  C40. \<open>WEB_fopen\<close> and \<open>WEB_ftime\<close> build the path on the host in an array of 128 bytes without
  a check: the path is the root and the request path without its leading slash, and the array
  overflows exactly if that part has more than 57 bytes. Request paths may have 126.
\<close>

theorem host_path_overflow:
  assumes "NUL \<notin> set szFile"
  shows "host_path szFile =
    (let rest = (if take 1 szFile = ''/'' then drop 1 szFile else szFile)
     in if length rest \<le> 57 then Some (LOCAL_WEBROOT @ rest) else None)"
proof -
  let ?r = "if take 1 szFile = ''/'' then drop 1 szFile else szFile"
  let ?b = "LOCAL_WEBROOT @ NUL # replicate 57 NUL"
  note W = LOCAL_WEBROOT_facts
  have b: "c_strcpy (replicate 128 NUL) 0 LOCAL_WEBROOT = Some ?b"
    using W by (simp add: c_strcpy_def c_cpy_def)
  have st: "c_str ?b 0 = Some LOCAL_WEBROOT" using c_str_app [OF W(2)] .
  have h: "host_path szFile = Option.bind (c_strcat ?b ?r) (\<lambda>t. c_str t 0)"
    unfolding host_path_def b by (simp add: st W)
  have nr: "NUL \<notin> set ?r" using assms in_set_dropD [of NUL 1 szFile] by (auto split: if_splits)
  then have "NUL \<notin> set (LOCAL_WEBROOT @ ?r)" using W by simp
  from c_str_app [OF this] show ?thesis
    unfolding h Let_def using c_strcat_fits [OF W(2), of "replicate 128 NUL" 57 ?r] W(1) by simp
qed

theorem host_path_overflow_witness:
  "host_path ''/app/index.shtml'' = Some (LOCAL_WEBROOT @ ''app/index.shtml'') \<and>
   host_path (CHR ''/'' # replicate 58 CHR ''a'') = None"
proof -
  have a: "NUL \<notin> set ''/app/index.shtml''" by simp
  have b: "NUL \<notin> set (CHR ''/'' # replicate 58 CHR ''a'')" by simp
  show ?thesis using host_path_overflow [OF a] host_path_overflow [OF b] by simp
qed

text \<open>
  Closing is not idempotent: closing a stream of the host a second time is undefined, while a slot
  of the image can be closed again.
\<close>

lemma WEB_fclose_again:
  assumes "file_valid f fs"
  shows "\<exists>fs1. WEB_fclose (Some f) fs = Some fs1 \<and> (WEB_fclose (Some f) fs1 = None \<longleftrightarrow> local_fs fs)"
proof (cases "local_fs fs")
  case loc: True
  with assms obtain st where st: "stream_of f fs = Some st" by (auto simp: file_valid_def)
  with loc show ?thesis
    by (auto simp: WEB_fclose_def LWIP_fclose_def stream_of_set_stream [OF st])
next
  case False
  with assms obtain i q a where q: "slot_of f fs = Some (i, Some q, a)" by (auto simp: file_valid_def)
  with False show ?thesis using slot_of_update [OF q, of "(None, 0)"] by (auto simp: WEB_fclose_def)
qed

fun write_blocks :: "handle option \<Rightarrow> char list list \<Rightarrow> file_system \<Rightarrow> file_system option" where
  "write_blocks f [] fs = Some fs"
| "write_blocks f (b # bs) fs = do { (n, fs) \<leftarrow> WEB_fwrite f b fs; write_blocks f bs fs }"

lemma LWIP_fwrite_end:
  assumes "stream_of f fs = Some st" "st_write st" "disk fs (st_path st) = Some d" "st_pos st = length (file_data d)"
    and "local_fs fs"
  shows "\<exists>fs' st' d'. WEB_fwrite (Some f) b fs = Some (int (length b), fs') \<and> stream_of f fs' = Some st' \<and>
     st_write st' \<and> st_path st' = st_path st \<and> disk fs' (st_path st) = Some d' \<and>
     file_data d' = file_data d @ b \<and> st_pos st' = length (file_data d') \<and> local_fs fs'"
proof -
  have up: "stream_of f (x\<lparr>disk := y\<rparr>) = stream_of f x" for x y by (simp add: stream_of_def split: handle.split)
  show ?thesis using assms
    by (simp add: WEB_fwrite_def LWIP_fwrite_def up stream_of_set_stream [OF assms(1)])
qed

lemma write_blocks_end:
  assumes "stream_of f fs = Some st" "st_write st" "disk fs (st_path st) = Some d" "st_pos st = length (file_data d)"
    and "local_fs fs"
  shows "\<exists>fs' st' d'. write_blocks (Some f) bs fs = Some fs' \<and> stream_of f fs' = Some st' \<and> local_fs fs' \<and>
     disk fs' (st_path st) = Some d' \<and> file_data d' = file_data d @ concat bs"
  using assms
proof (induction bs arbitrary: fs st d)
  case Nil
  then show ?case by simp
next
  case (Cons b bs)
  obtain fs1 st1 d1 where w: "WEB_fwrite (Some f) b fs = Some (int (length b), fs1)" "stream_of f fs1 = Some st1"
    "st_write st1" "st_path st1 = st_path st" "disk fs1 (st_path st) = Some d1" "file_data d1 = file_data d @ b"
    "st_pos st1 = length (file_data d1)" "local_fs fs1"
    using LWIP_fwrite_end [OF Cons.prems] by blast
  with Cons.IH [of fs1 st1 d1] show ?case by auto
qed

lemma set_stream_disk [simp]: "disk (set_stream f v fs) = disk fs" "local_fs (set_stream f v fs) = local_fs fs"
  by (simp_all add: set_stream_def split: handle.split)

text \<open>
  Uploading: a file of the host that is opened for writing, written in any sequence of blocks, closed
  and opened again for reading delivers exactly the concatenation of the blocks, whatever was in it
  before.
\<close>

theorem upload_round_trip:
  assumes "local_fs fs" "c_strchr name CHR '':'' = None" "host_path name = Some path" "can_create fs path"
  shows "\<exists>f fs1 fs2 fs3 g fs4 fs5. WEB_fopen name ''wb'' fs = Some (Some f, fs1) \<and> write_blocks (Some f) blocks fs1 = Some fs2 \<and>
     WEB_fclose (Some f) fs2 = Some fs3 \<and> WEB_fopen name ''rb'' fs3 = Some (Some g, fs4) \<and>
     WEB_fread (Some g) n fs4 = Some (Some (take n (concat blocks)), fs5)"
proof -
  let ?f = "Stream (next_id fs)"
  let ?st = "\<lparr>st_path = path, st_pos = 0, st_write = True\<rparr>"
  obtain fs1 where o1: "LWIP_fopen path ''wb'' fs = (Some ?f, fs1)" "stream_of ?f fs1 = Some ?st"
    "disk fs1 path = Some \<lparr>file_data = [], file_time = write_time fs\<rparr>" "local_fs fs1"
    using assms(1,4) by (simp add: LWIP_fopen_def stream_of_def Let_def)
  with write_blocks_end [OF o1(2), of "\<lparr>file_data = [], file_time = write_time fs\<rparr>" blocks] obtain fs2 st2 d where
    w: "write_blocks (Some ?f) blocks fs1 = Some fs2" "stream_of ?f fs2 = Some st2" "local_fs fs2" "disk fs2 path = Some d"
    "file_data d = concat blocks" by auto
  define fs3 where "fs3 = set_stream ?f None fs2"
  have c: "LWIP_fclose ?f fs2 = Some fs3" "disk fs3 path = Some d" "local_fs fs3"
    using w by (simp_all add: LWIP_fclose_def fs3_def)
  let ?g = "Stream (next_id fs3)"
  obtain fs4 where o2: "LWIP_fopen path ''rb'' fs3 = (Some ?g, fs4)" "stream_of ?g fs4 = Some \<lparr>st_path = path, st_pos = 0, st_write = False\<rparr>"
    "disk fs4 path = Some d" "local_fs fs4"
    using c by (simp add: LWIP_fopen_def stream_of_def Let_def)
  have o3: "WEB_fopen name ''wb'' fs = Some (Some ?f, fs1)" using assms(1-3) o1(1) by (simp add: WEB_fopen_def)
  have o4: "WEB_fopen name ''rb'' fs3 = Some (Some ?g, fs4)" using assms(2,3) c(3) o2(1) by (simp add: WEB_fopen_def)
  have cl: "WEB_fclose (Some ?f) fs2 = Some fs3" using w(3) c(1) by (simp add: WEB_fclose_def)
  have "\<exists>fs5. WEB_fread (Some ?g) n fs4 = Some (Some (take n (concat blocks)), fs5)"
    using o2(2-4) w(5) by (simp add: WEB_fread_def LWIP_fread_def)
  with o3 w(1) cl o4 show ?thesis by blast
qed

theorem upload_round_trip_witness:
  "\<exists>f fs1 fs2 fs3 g fs4 fs5. WEB_fopen ''/x'' ''wb'' (demo_fs True) = Some (Some f, fs1) \<and>
     write_blocks (Some f) [''ab'', ''c''] fs1 = Some fs2 \<and> WEB_fclose (Some f) fs2 = Some fs3 \<and>
     WEB_fopen ''/x'' ''rb'' fs3 = Some (Some g, fs4) \<and> WEB_fread (Some g) 9 fs4 = Some (Some ''abc'', fs5)"
proof -
  obtain p where p: "host_path ''/x'' = Some p"
  proof -
    have "host_path ''/x'' \<noteq> None" by code_simp
    with that show thesis by blast
  qed
  have "local_fs (demo_fs True)" "can_create (demo_fs True) p" "c_strchr ''/x'' CHR '':'' = None" by (simp_all add: demo_fs_def)
  from upload_round_trip [OF this(1,3) p this(2), of "[''ab'', ''c'']" 9] show ?thesis by simp
qed

end
