(* ===== verification/Context.thy ===== *)
theory Context
  imports SsiTags Session FileSystem
begin

text \<open>
  The data of the server: \<^verbatim>\<open>httpd/http_core.h\<close> and \<^verbatim>\<open>httpd/http_cgi.h\<close>. A connection has a
  request context with the response context inside it; everything else that the handlers
  touch is the \<open>world\<close>: sessions, device, files, the clock and the transport.

  \<^item> \<^verbatim>\<open>int\<close> and \<^verbatim>\<open>long\<close> fields that only count bytes of buffers are integers; where a value
    from the network could leave the 32-bit range, \<open>c_int\<close> checks it.
  \<^item> \<open>_appContext\<close> is 256 bytes that the handlers use either as text or as an
    \<open>SSI_Context\<close> of 216 bytes. The model keeps which of the two it holds; reading text as a
    structure is only defined when these bytes are zero.
  \<^item> The transport (lwIP) is not part of the sources: the answers of \<open>altcp_sndbuf\<close>,
    \<open>altcp_write\<close> and \<open>altcp_close\<close> are streams of the world, indexed by the number of the
    call, as are the readings of the clock; what \<open>altcp_write\<close> accepts is recorded.
\<close>

section \<open>Constants\<close>

definition METHOD_GET :: int where "METHOD_GET = 1"
definition METHOD_POST :: int where "METHOD_POST = 2"

definition CODE_OK :: int where "CODE_OK = 200"
definition CODE_NOTMODIFIED :: int where "CODE_NOTMODIFIED = -304"
definition CODE_REDIRECT :: int where "CODE_REDIRECT = -307"
definition CODE_UNAUTHORIZED :: int where "CODE_UNAUTHORIZED = -401"

definition HTTP_STATE_IDLE :: nat where "HTTP_STATE_IDLE = 0"
definition HTTP_STATE_HEADER_RECEIVING :: nat where "HTTP_STATE_HEADER_RECEIVING = 1"
definition HTTP_STATE_HEADER_DONE :: nat where "HTTP_STATE_HEADER_DONE = 2"
definition HTTP_STATE_CHUNK_LEN_RECEIVING :: nat where "HTTP_STATE_CHUNK_LEN_RECEIVING = 3"
definition HTTP_STATE_CHUNK_RECEIVING :: nat where "HTTP_STATE_CHUNK_RECEIVING = 5"
definition HTTP_STATE_BODY_RECEIVING :: nat where "HTTP_STATE_BODY_RECEIVING = 7"
definition HTTP_STATE_BODY_DONE :: nat where "HTTP_STATE_BODY_DONE = 8"
definition HTTP_STATE_SENDING_HEADER :: nat where "HTTP_STATE_SENDING_HEADER = 9"
definition HTTP_STATE_SENDING_BODY :: nat where "HTTP_STATE_SENDING_BODY = 10"
definition HTTP_STATE_REQUEST_END :: nat where "HTTP_STATE_REQUEST_END = 11"

lemmas http_states = HTTP_STATE_IDLE_def HTTP_STATE_HEADER_RECEIVING_def HTTP_STATE_HEADER_DONE_def
  HTTP_STATE_CHUNK_LEN_RECEIVING_def HTTP_STATE_CHUNK_RECEIVING_def HTTP_STATE_BODY_RECEIVING_def
  HTTP_STATE_BODY_DONE_def HTTP_STATE_SENDING_HEADER_def HTTP_STATE_SENDING_BODY_def
  HTTP_STATE_REQUEST_END_def

definition MAX_CONNECTIONS :: nat where "MAX_CONNECTIONS = 4"
definition TCP_MSS :: nat where "TCP_MSS = 800"
definition MAX_REQ_BUF_SIZE :: nat where "MAX_REQ_BUF_SIZE = TCP_MSS"
definition MAX_SEND_BUF_SIZE :: nat where "MAX_SEND_BUF_SIZE = 2 * TCP_MSS"
definition MAX_APP_CONTEXT_SIZE :: nat where "MAX_APP_CONTEXT_SIZE = 256"
definition TO_RECV :: u32 where "TO_RECV = 60 * 1000"
definition TO_SENT :: u32 where "TO_SENT = 60 * 1000"
definition STAGE_END :: u32 where "STAGE_END = 0xFFFFFFFF"
definition CONNECTION_HEADER :: string where "CONNECTION_HEADER = ''close''"
definition SERVER_HEADER :: string where "SERVER_HEADER = ''straight/1.1''"

datatype proc_caller = HTTP_PROC_CALLER_RECV | HTTP_PROC_CALLER_POLL | HTTP_PROC_CALLER_SENT

definition WEB_DEFAULT_PAGE :: string where "WEB_DEFAULT_PAGE = ''/auth/login.html''"
definition WEB_SESSION_CHECK :: string where "WEB_SESSION_CHECK = ''/auth/session_check.cgi''"
definition WEB_LOGOUT_PAGE :: string where "WEB_LOGOUT_PAGE = ''/auth/logout.cgi''"
definition WEB_APP_PAGE :: string where "WEB_APP_PAGE = ''/app/index.shtml''"

definition CGI_OPT_AUTH_REQUIRED :: u32 where "CGI_OPT_AUTH_REQUIRED = 0x40000000"
definition CGI_OPT_PREFIX_WILDCARD :: u32 where "CGI_OPT_PREFIX_WILDCARD = 0x08000000"
definition CGI_OPT_GET_ENABLED :: u32 where "CGI_OPT_GET_ENABLED = 0x00800000"
definition CGI_OPT_POST_ENABLED :: u32 where "CGI_OPT_POST_ENABLED = 0x00400000"
definition CGI_OPT_CHUNK_ENABLED :: u32 where "CGI_OPT_CHUNK_ENABLED = 0x00008000"
definition CGI_OPT_GZIP :: u32 where "CGI_OPT_GZIP = 0x00004000"

lemmas cgi_opts = CGI_OPT_AUTH_REQUIRED_def CGI_OPT_PREFIX_WILDCARD_def CGI_OPT_GET_ENABLED_def
  CGI_OPT_POST_ENABLED_def CGI_OPT_CHUNK_ENABLED_def CGI_OPT_GZIP_def

section \<open>Contexts\<close>

text \<open>The six handlers; a handler pointer is one of them, or \<^const>\<open>None\<close> for \<^verbatim>\<open>NULL\<close>.\<close>

datatype cgi_id = g_cgiSSDP | g_cgiAuth | g_cgiForm | g_cgiFiles | g_cgiUpload | g_cgiWebApp

record SSI_Context =
  ssi_valid :: int
  ssi_fp :: "handle option"
  lastModified :: cbuf
  ssi :: int
  ssiState :: nat
  tagLength :: nat
  tagName :: cbuf
  cacheOffset :: nat
  cache :: cbuf

definition zeroSSI :: SSI_Context where
  "zeroSSI = \<lparr>ssi_valid = 0, ssi_fp = None, lastModified = replicate 64 NUL, ssi = 0, ssiState = 0,
     tagLength = 0, tagName = replicate 64 NUL, cacheOffset = 0, cache = replicate 64 NUL\<rparr>"

datatype app_context = AppBytes cbuf | AppSSI SSI_Context

definition zeroApp :: app_context where "zeroApp = AppBytes (replicate MAX_APP_CONTEXT_SIZE NUL)"

definition sizeof_SSI :: nat where "sizeof_SSI = 216"

definition as_ssi :: "app_context \<Rightarrow> SSI_Context option" where
  "as_ssi a = (case a of
       AppSSI s \<Rightarrow> Some s
     | AppBytes b \<Rightarrow> if take sizeof_SSI b = replicate sizeof_SSI NUL then Some zeroSSI else None)"

definition as_bytes :: "app_context \<Rightarrow> cbuf option" where
  "as_bytes a = (case a of AppBytes b \<Rightarrow> Some b | AppSSI s \<Rightarrow> None)"

record RESPONSE_CONTEXT =
  rsp_token :: cbuf
  authorized :: int
  dwOperStage :: u32
  dwOperIndex :: int
  dwTotal :: int
  sendMaxBlock :: int
  sending :: int
  total2Send :: int
  totalSent :: int
  rsp_tLastSent :: u64
  nSendTimeout :: u32
  bytesLeft :: int
  sendBuffer :: cbuf
  appContext :: app_context

definition zeroResponse :: RESPONSE_CONTEXT where
  "zeroResponse = \<lparr>rsp_token = replicate 128 NUL, authorized = 0, dwOperStage = 0, dwOperIndex = 0,
     dwTotal = 0, sendMaxBlock = 0, sending = 0, total2Send = 0, totalSent = 0, rsp_tLastSent = 0,
     nSendTimeout = 0, bytesLeft = 0, sendBuffer = replicate MAX_SEND_BUF_SIZE NUL,
     appContext = zeroApp\<rparr>"

text \<open>A chain of packet buffers is the list of their payloads.\<close>

type_synonym pbuf_chain = "char list list"

record REQUEST_CONTEXT =
  sid :: nat
  state :: nat
  peer_closing :: int
  tRequestStart :: u64
  req_tLastReceived :: u64
  nReceiveTimeout :: u32
  https :: int
  ipRemote :: u32
  portRemote :: u16
  portLocal :: u16
  checkAlive :: int
  killing :: int
  bufOffset :: nat
  reqBufList :: "pbuf_chain option"
  pcb :: "nat option"
  requestMethod :: int
  contentLength :: int
  keepalive :: int
  chunked :: int
  expect00 :: int
  ifModified :: int
  rangeFrom :: int
  rangeTo :: int
  contentReceived :: int
  result :: int
  session :: "nat option"
  handler :: "cgi_id option"
  options :: u32
  ctxResponse :: RESPONSE_CONTEXT
  ver :: cbuf
  posQuestion :: int
  extension :: cbuf
  requestPath :: cbuf
  responsePath :: cbuf
  fileHandle :: "handle option"
  request_length :: int
  max_level :: int
  http_request_buffer :: cbuf

definition zeroContext :: "nat \<Rightarrow> REQUEST_CONTEXT" where
  "zeroContext i = \<lparr>sid = i, state = 0, peer_closing = 0, tRequestStart = 0, req_tLastReceived = 0,
     nReceiveTimeout = 0, https = 0, ipRemote = 0, portRemote = 0, portLocal = 0, checkAlive = 0,
     killing = 0, bufOffset = 0, reqBufList = None, pcb = None, requestMethod = 0, contentLength = 0,
     keepalive = 0, chunked = 0, expect00 = 0, ifModified = 0, rangeFrom = 0, rangeTo = 0,
     contentReceived = 0, result = 0, session = None, handler = None, options = 0,
     ctxResponse = zeroResponse, ver = replicate 4 NUL, posQuestion = 0, extension = replicate 8 NUL,
     requestPath = replicate 128 NUL, responsePath = replicate 128 NUL, fileHandle = None,
     request_length = 0, max_level = 0, http_request_buffer = replicate (MAX_REQ_BUF_SIZE + 4) NUL\<rparr>"

section \<open>The world\<close>

text \<open>
  An entry of the list of mappings: one of the six static structures, with the path and the
  options that the setup may overwrite. The functions of the structure are given by its name.
\<close>

definition MAX_CGI_PATH :: nat where "MAX_CGI_PATH = 64"

record CGI_Mapping =
  map_id :: cgi_id
  map_path :: cbuf
  optionsAllowed :: u32

text \<open>
  \<open>w_sndbuf\<close>, \<open>w_write_ok\<close> and \<open>w_close_ok\<close> answer the calls of \<open>altcp_sndbuf\<close>, \<open>altcp_write\<close>
  and \<open>altcp_close\<close>, each with the number of calls made so far; \<open>w_wire\<close> holds the accepted
  writes, \<open>w_closed\<close> and \<open>w_aborted\<close> the connections that were closed and aborted, \<open>w_recved\<close>
  the bytes by which the receive windows were reopened.
\<close>

record world =
  w_sessions :: sessions
  w_dev :: device
  w_fs :: file_system
  w_folders_made :: "string list"
  w_mapping :: "CGI_Mapping list"
  httpsListening :: int
  w_clock :: "nat \<Rightarrow> u32"
  w_ticks :: nat
  w_time :: nat
  w_sndbuf :: "nat \<Rightarrow> int"
  w_sndbuf_n :: nat
  w_write_ok :: "nat \<Rightarrow> bool"
  w_write_n :: nat
  w_close_ok :: "nat \<Rightarrow> bool"
  w_close_n :: nat
  w_wire :: "(nat option \<times> char list) list"
  w_closed :: "nat list"
  w_aborted :: "nat list"
  w_recved :: nat

definition LWIP_GetTickCount :: "world \<Rightarrow> u32 \<times> world" where
  "LWIP_GetTickCount w = (w_clock w (w_ticks w), w\<lparr>w_ticks := w_ticks w + 1\<rparr>)"

text \<open>A time stamp: one reading of the clock, never 0 (\<open>if (t == 0) t++\<close>).\<close>

definition tick_stamp :: "world \<Rightarrow> u64 \<times> world" where
  "tick_stamp w = (let (t, w) = LWIP_GetTickCount w in (stamp t, w))"

definition c_int :: "int \<Rightarrow> int option" where
  "c_int i = (if - (2 ^ 31) \<le> i \<and> i < 2 ^ 31 then Some i else None)"

definition upd_rsp :: "(RESPONSE_CONTEXT \<Rightarrow> RESPONSE_CONTEXT) \<Rightarrow> REQUEST_CONTEXT \<Rightarrow> REQUEST_CONTEXT" where
  "upd_rsp f c = c\<lparr>ctxResponse := f (ctxResponse c)\<rparr>"

definition opt_set :: "u32 \<Rightarrow> u32 \<Rightarrow> bool" where
  "opt_set opts flag \<longleftrightarrow> and opts flag \<noteq> 0"

definition IsKilling :: "int \<Rightarrow> REQUEST_CONTEXT \<Rightarrow> int \<times> REQUEST_CONTEXT" where
  "IsKilling reset c = (killing c, if 0 < reset then c\<lparr>killing := 0\<rparr> else c)"

end
