(* ===== verification/Web.thy ===== *)
theory Web
  imports Context
begin

text \<open>
  \<^verbatim>\<open>httpd/http_web.c\<close>: forms, pages and server-side includes. A page is read from its file
  in blocks; in pages with tags, \<open>WEB_ReadContent\<close> looks for \<^verbatim>\<open><!--#NAME-->\<close> through a cache
  of 64 bytes and puts the value of the tag in its place. The buffer argument of the source is
  always a position \<open>off\<close> of the send buffer of the connection.
\<close>

section \<open>Header templates\<close>

definition header_nocache :: string where
  "header_nocache = ''Cache-Control: no-cache, no-store, must-revalidate'' @ CRLF @
     ''Pragma: no-cache'' @ CRLF @ ''Expires: 0'' @ CRLF"

definition header_generic :: "string \<Rightarrow> string \<Rightarrow> int \<Rightarrow> string \<Rightarrow> string" where
  "header_generic info ctype len conn =
     ''HTTP/1.1 '' @ info @ CRLF @ ''Content-Type: '' @ ctype @ CRLF @
     ''Content-Length: '' @ fmt_d len @ CRLF @ ''Connection: '' @ conn @ CRLF"

definition header_chunked :: "string \<Rightarrow> string \<Rightarrow> string \<Rightarrow> string \<Rightarrow> string" where
  "header_chunked info ctype extra conn =
     ''HTTP/1.1 '' @ info @ CRLF @ ''Content-Type: '' @ ctype @ CRLF @
     ''Transfer-Encoding: chunked'' @ CRLF @ extra @ ''Connection: '' @ conn @ CRLF"

definition header_range :: "int \<Rightarrow> int \<Rightarrow> int \<Rightarrow> string \<Rightarrow> int \<Rightarrow> string \<Rightarrow> string" where
  "header_range frm lst tot ctype len conn =
     ''HTTP/1.1 206 Partial Content'' @ CRLF @ ''Content-Range: bytes '' @ fmt_d frm @ ''-'' @
     fmt_d lst @ ''/'' @ fmt_d tot @ CRLF @ ''Content-type: '' @ ctype @ CRLF @
     ''Content-Length: '' @ fmt_d len @ CRLF @ ''Connection: '' @ conn @ CRLF"

definition header_gzip :: string where "header_gzip = ''Content-Encoding: gzip'' @ CRLF"

section \<open>Forms\<close>

definition WEB_OnFormHeaders :: "REQUEST_CONTEXT \<Rightarrow> REQUEST_CONTEXT" where
  "WEB_OnFormHeaders c = upd_rsp (\<lambda>r. r\<lparr>sendBuffer := c_memset0 (sendBuffer r), bytesLeft := 0\<rparr>) c"

text \<open>\<open>URLDecode\<close> at a position of an array.\<close>

definition url_decode_at :: "nat \<Rightarrow> cbuf \<Rightarrow> cbuf option" where
  "url_decode_at i b = do { (n, t) \<leftarrow> URLDecode (drop i b); Some (take i b @ t) }"

text \<open>
  One field: both ends are cut off, both parts decoded in place, and the setter is called with
  the strings that now start there.
\<close>

definition set_field :: "nat \<Rightarrow> nat \<Rightarrow> cbuf \<Rightarrow> device \<Rightarrow> (cbuf \<times> device) option" where
  "set_field ns vs b d =
     do { b \<leftarrow> url_decode_at ns b;
          b \<leftarrow> url_decode_at vs b;
          name \<leftarrow> c_str b ns;
          value \<leftarrow> c_str b vs;
          d \<leftarrow> TAG_Setter name value d;
          Some (b, d) }"

text \<open>The loop over complete fields; it returns the position and the last \<^verbatim>\<open>=\<close> that was seen.\<close>

function extract_loop ::
  "cbuf \<Rightarrow> nat \<Rightarrow> nat \<Rightarrow> nat option \<Rightarrow> device \<Rightarrow> (nat \<times> nat option \<times> cbuf \<times> device) option" where
  "extract_loop b nSize p ne d =
     do { x \<leftarrow> c_rd b p;
          if x \<noteq> NUL \<and> p < nSize
          then do { s \<leftarrow> c_str b p;
            let ne = map_option (\<lambda>i. p + i) (c_strstr s ''='');
            case (c_strstr s ''&'', ne) of
              (Some i, Some e) \<Rightarrow>
                do { b \<leftarrow> c_wr b e NUL;
                     b \<leftarrow> c_wr b (p + i) NUL;
                     (b, d) \<leftarrow> set_field p (e + 1) b d;
                     extract_loop b nSize (p + i + 1) ne d }
            | _ \<Rightarrow> Some (p, ne, b, d) }
          else Some (p, ne, b, d) }"
  by pat_completeness auto
termination
  by (relation "measure (\<lambda>(b, nSize, p, ne, d). nSize - p)") auto

declare extract_loop.simps [simp del]

definition ExtractFormData ::
  "cbuf \<Rightarrow> nat \<Rightarrow> int \<Rightarrow> device \<Rightarrow> (nat \<times> cbuf \<times> device) option" where
  "ExtractFormData b nSize nTotalRemain d =
     do { (p, ne, b, d) \<leftarrow> extract_loop b nSize 0 None d;
          if 0 < nTotalRemain then Some (p, b, d)
          else case ne of
                 None \<Rightarrow> Some (nSize, b, d)
               | Some e \<Rightarrow>
                   do { b \<leftarrow> c_wr b e NUL;
                        (b, d) \<leftarrow> set_field p (e + 1) b d;
                        Some (nSize, b, d) } }"

text \<open>
  The result is the number of bytes taken over. The move of the unparsed rest to the front of
  the buffer is modelled as \<^verbatim>\<open>memmove\<close>, which is what the source's \<^verbatim>\<open>memcpy\<close> of overlapping
  areas means to do.
\<close>

definition WEB_OnFormReceived ::
  "cbuf \<Rightarrow> int \<Rightarrow> REQUEST_CONTEXT \<Rightarrow> world \<Rightarrow> (int \<times> REQUEST_CONTEXT \<times> world) option" where
  "WEB_OnFormReceived buffer sz c w =
     (let consumed = min (contentLength c - contentReceived c) sz
      in if 0 < consumed \<and> requestMethod c = METHOD_POST
         then
           let (kill, c) = IsKilling 1 c
           in if kill \<noteq> 0 then Some (0, c\<lparr>result := -500\<rparr>, w)
              else
                let r = ctxResponse c;
                    consumed = min consumed (int (length (sendBuffer r)) - bytesLeft r - 32)
                in if 0 < consumed
                   then if bytesLeft r < 0 then None
                     else do {
                       bytes \<leftarrow> c_bytes buffer 0 (nat consumed);
                       sb \<leftarrow> c_cpy (sendBuffer r) (nat (bytesLeft r)) bytes;
                       let left = bytesLeft r + consumed;
                       let (t, w) = tick_stamp w;
                       (nParsed, sb, d) \<leftarrow> ExtractFormData sb (nat left)
                          (contentLength c - contentReceived c - consumed) (w_dev w);
                       let left2 = (if 0 < nParsed then left - int nParsed else left);
                       sb \<leftarrow> (if 0 < nParsed \<and> 0 < left2 then c_memmove sb 0 nParsed (nat left2) else Some sb);
                       Some (consumed,
                         upd_rsp (\<lambda>r. r\<lparr>sendBuffer := sb, bytesLeft := left2\<rparr>) (c\<lparr>req_tLastReceived := t\<rparr>),
                         w\<lparr>w_dev := d\<rparr>) }
                   else Some (consumed, c, w)
         else Some (consumed, c, w))"

section \<open>Pages\<close>

definition set_ssi :: "SSI_Context \<Rightarrow> REQUEST_CONTEXT \<Rightarrow> REQUEST_CONTEXT" where
  "set_ssi s = upd_rsp (\<lambda>r. r\<lparr>appContext := AppSSI s\<rparr>)"

definition is_ssi_extension :: "string \<Rightarrow> bool" where
  "is_ssi_extension e \<longleftrightarrow>
     Strnicmp e ''shtml'' 5 = 0 \<or> Strnicmp e ''shtm'' 4 = 0 \<or> Strnicmp e ''ssi'' 3 = 0"

definition gzip_magic :: "char list" where "gzip_magic = [CHR 0x1F, CHR 0x8B, CHR 0x08]"

text \<open>
  Opening a page. The first three bytes decide about the gzip flag; for a shorter file the
  source compares uninitialised bytes, which the model takes to be different.
\<close>

definition WEB_RequestReceived ::
  "REQUEST_CONTEXT \<Rightarrow> world \<Rightarrow> (REQUEST_CONTEXT \<times> world) option" where
  "WEB_RequestReceived c w =
     do { path \<leftarrow> c_str (responsePath c) 0;
          (path, c) \<leftarrow> (if path = ''/''
             then do { rp \<leftarrow> c_strcpy (responsePath c) 0 WEB_DEFAULT_PAGE;
                       ext \<leftarrow> (case c_strstr WEB_DEFAULT_PAGE ''.'' of
                           None \<Rightarrow> Some (extension c)
                         | Some i \<Rightarrow> c_strcpy (extension c) 0 (drop (i + 1) WEB_DEFAULT_PAGE));
                       Some (WEB_DEFAULT_PAGE, c\<lparr>responsePath := rp, extension := ext\<rparr>) }
             else Some (path, c));
          ext \<leftarrow> c_str (extension c) 0;
          let isSsi = is_ssi_extension ext;
          let s = zeroSSI\<lparr>ssi_valid := 1, ssi := (if isSsi then 1 else 0)\<rparr>;
          let c = (if isSsi \<and> handler c \<noteq> None
                   then c\<lparr>options := or (options c) CGI_OPT_CHUNK_ENABLED\<rparr> else c);
          (f, fs) \<leftarrow> WEB_fopen path ''rb'' (w_fs w);
          case f of
            None \<Rightarrow> Some (set_ssi (s\<lparr>ssi_valid := 0\<rparr>) (c\<lparr>result := -404\<rparr>), w\<lparr>w_fs := fs\<rparr>)
          | Some fp \<Rightarrow>
              do { let s = s\<lparr>ssi_fp := Some fp\<rparr>;
                   (flag, fs) \<leftarrow> WEB_fread (Some fp) 3 fs;
                   (c, fs) \<leftarrow> (case flag of
                       None \<Rightarrow> Some (c, fs)
                     | Some bytes \<Rightarrow>
                         do { (z, fs) \<leftarrow> WEB_fseek (Some fp) 0 fs;
                              Some (if bytes = gzip_magic
                                    then c\<lparr>options := or (options c) CGI_OPT_GZIP\<rparr> else c, fs) });
                   (s, notModified) \<leftarrow> (if isSsi then Some (s, False)
                     else do {
                       lm \<leftarrow> c_strcpy (lastModified s) 0 ''Last-Modified: '';
                       (t, txt) \<leftarrow> WEB_ftime path fs;
                       lm \<leftarrow> (case txt of None \<Rightarrow> Some lm | Some x \<Rightarrow> c_strcpy lm 15 x);
                       let tFile = int t mod 2 ^ 32;
                       if tFile = 0 then do { lm \<leftarrow> c_wr lm 0 NUL; Some (s\<lparr>lastModified := lm\<rparr>, False) }
                       else if ifModified c \<noteq> 0 \<and> tFile \<le> ifModified c
                       then Some (s\<lparr>lastModified := lm\<rparr>, True)
                       else do { lm \<leftarrow> c_strcat lm CRLF; Some (s\<lparr>lastModified := lm\<rparr>, False) } });
                   if notModified then Some (set_ssi s (c\<lparr>result := -304\<rparr>), w\<lparr>w_fs := fs\<rparr>)
                   else do {
                     total \<leftarrow> WEB_fsize (Some fp) fs;
                     Some (set_ssi s (upd_rsp (\<lambda>r. r\<lparr>dwTotal := total\<rparr>) (c\<lparr>fileHandle := Some fp\<rparr>)),
                           w\<lparr>w_fs := fs\<rparr>) } } }"

definition WEB_AppendHeaders ::
  "string \<Rightarrow> REQUEST_CONTEXT \<Rightarrow> world \<Rightarrow> (REQUEST_CONTEXT \<times> world) option" where
  "WEB_AppendHeaders info c w =
     do { s \<leftarrow> as_ssi (appContext (ctxResponse c));
          let chunkHeader = (0 < ssi s \<or> (handler c \<noteq> None \<and> opt_set (options c) CGI_OPT_CHUNK_ENABLED));
          sent \<leftarrow> c_str (sendBuffer (ctxResponse c)) 0;
          ext \<leftarrow> c_str (extension c) 0;
          ctype \<leftarrow> GetContentType ext;
          (sb, c, w) \<leftarrow>
            (if rangeFrom c < rangeTo c
             then do {
               let total = dwTotal (ctxResponse c);
               let c = (if total < rangeTo c then c\<lparr>rangeTo := total\<rparr> else c);
               let len = rangeTo c - rangeFrom c;
               sb \<leftarrow> (if sent = []
                 then c_strcpy (sendBuffer (ctxResponse c)) 0
                        (header_range (rangeFrom c) (rangeTo c - 1) total ctype len CONNECTION_HEADER)
                 else Some (sendBuffer (ctxResponse c)));
               (z, fs) \<leftarrow> WEB_fseek (fileHandle c) (rangeFrom c) (w_fs w);
               Some (sb, upd_rsp (\<lambda>r. r\<lparr>dwTotal := len\<rparr>) c, w\<lparr>w_fs := fs\<rparr>) }
             else if sent \<noteq> [] then Some (sendBuffer (ctxResponse c), c, w)
             else do {
               sb \<leftarrow> c_strcpy (sendBuffer (ctxResponse c)) 0
                 (if chunkHeader then header_chunked info ctype [] CONNECTION_HEADER
                  else header_generic info ctype (dwTotal (ctxResponse c)) CONNECTION_HEADER);
               Some (sb, c, w) });
          sb \<leftarrow> (if opt_set (options c) CGI_OPT_GZIP then c_strcat sb header_gzip else Some sb);
          lm \<leftarrow> c_str (lastModified s) 0;
          sb \<leftarrow> (if lm \<noteq> [] then c_strcat sb lm else c_strcat sb header_nocache);
          t \<leftarrow> c_str sb 0;
          sb \<leftarrow> (if ssi s = 0 \<and> c_strstr t ''no-cache'' = None
                then c_strcat sb (''Cache-Control: max-age=3600'' @ CRLF) else Some sb);
          Some (upd_rsp (\<lambda>r. r\<lparr>sendBuffer := sb\<rparr>) c, w) }"

section \<open>Server-side includes\<close>

definition tagStart :: string where "tagStart = ''<!--#''"
definition tagEnd :: string where "tagEnd = ''-->''"

text \<open>The C string that starts at a position of the cache, for the comparisons of a few bytes.\<close>

definition cache_at :: "SSI_Context \<Rightarrow> nat \<Rightarrow> string" where
  "cache_at s i = takeWhile (\<lambda>x. x \<noteq> NUL) (drop i (cache s))"

text \<open>Appending one byte to the collected name, terminator included.\<close>

definition add_tag_char :: "char \<Rightarrow> SSI_Context \<Rightarrow> SSI_Context option" where
  "add_tag_char x s =
     do { n \<leftarrow> c_wr (tagName s) (tagLength s) x;
          n \<leftarrow> c_wr n (tagLength s + 1) NUL;
          Some (s\<lparr>tagName := n, tagLength := tagLength s + 1\<rparr>) }"

text \<open>
  The scan over the cache. The arguments are the send buffer, the bytes produced and the bytes
  consumed; the last component of the result says that the block is ready to be sent.
\<close>

function ssi_scan ::
  "device \<Rightarrow> nat \<Rightarrow> int \<Rightarrow> SSI_Context \<Rightarrow> cbuf \<Rightarrow> nat \<Rightarrow> nat \<Rightarrow>
     (SSI_Context \<times> cbuf \<times> nat \<times> nat \<times> bool) option" where
  "ssi_scan d off maxSize s sb outputCount consumed =
     (if \<not> consumed < cacheOffset s then Some (s, sb, outputCount, consumed, False)
      else
        let s = (if ssiState s = 0 then s\<lparr>ssiState := 1\<rparr> else s)
        in if ssiState s = 1
           then do {
             x \<leftarrow> c_rd (cache s) consumed;
             if x \<noteq> CHR ''<'' \<or> (consumed + 5 \<le> cacheOffset s \<and> Strnicmp (cache_at s consumed) tagStart 5 \<noteq> 0)
             then do {
               sb \<leftarrow> c_wr sb (off + outputCount) x;
               if maxSize \<le> int outputCount + 1 then Some (s, sb, outputCount + 1, consumed + 1, True)
               else ssi_scan d off maxSize s sb (outputCount + 1) (consumed + 1) }
             else if consumed + 5 \<le> cacheOffset s
             then Some (s\<lparr>ssiState := 2\<rparr>, sb, outputCount, consumed + 5, True)
             else Some (s, sb, outputCount, consumed, False) }
           else if ssiState s = 2
           then do {
             x \<leftarrow> c_rd (cache s) consumed;
             if x \<noteq> CHR ''-'' \<or> (consumed + 3 \<le> cacheOffset s \<and> Strnicmp (cache_at s consumed) tagEnd 3 \<noteq> 0)
             then do { s \<leftarrow> add_tag_char x s; ssi_scan d off maxSize s sb outputCount (consumed + 1) }
             else if consumed + 3 \<le> cacheOffset s
             then do {
               name \<leftarrow> c_str (tagName s) 0;
               (nAppend, sb) \<leftarrow> ReplaceTag d name sb (off + outputCount) (maxSize - int outputCount - 50);
               ssi_scan d off maxSize
                 (s\<lparr>ssiState := 0, tagLength := 0, tagName := c_memset0 (tagName s)\<rparr>)
                 sb (outputCount + nAppend) (consumed + 3) }
             else Some (s, sb, outputCount, consumed, False) }
           else None)"
  by pat_completeness auto
termination
  by (relation "measure (\<lambda>(d, off, maxSize, s, sb, outputCount, consumed). cacheOffset s - consumed)")
    (auto simp: add_tag_char_def Option.bind_eq_Some_conv split: if_splits)

declare ssi_scan.simps [simp del]

text \<open>The loop over the file: fill the cache, scan it, keep what is left.\<close>

partial_function (option) ssi_loop ::
  "device \<Rightarrow> nat \<Rightarrow> int \<Rightarrow> SSI_Context \<Rightarrow> cbuf \<Rightarrow> nat \<Rightarrow> int \<Rightarrow> int \<Rightarrow> file_system \<Rightarrow>
     (bool \<times> SSI_Context \<times> cbuf \<times> nat \<times> int \<times> file_system) option" where
  "ssi_loop d off maxSize s sb outputCount index tot fs =
     (if \<not> index < tot then Some (True, s, sb, outputCount, index, fs)
      else do {
        let maxRead = min (tot - index) (64 - int (cacheOffset s));
        (r, fs) \<leftarrow> (if maxRead < 0 \<or> ssi_fp s = None then None else WEB_fread (ssi_fp s) (nat maxRead) fs);
        case r of
          None \<Rightarrow> Some (False, s, sb, outputCount, index, fs)
        | Some bytes \<Rightarrow>
            do { ca \<leftarrow> c_cpy (cache s) (cacheOffset s) bytes;
                 let s = s\<lparr>cache := ca, cacheOffset := cacheOffset s + length bytes\<rparr>;
                 (s, sb, outputCount, consumed, ready) \<leftarrow> ssi_scan d off maxSize s sb outputCount 0;
                 let left = cacheOffset s - consumed;
                 ca \<leftarrow> (if 0 < left then c_memmove (cache s) 0 consumed left else Some (cache s));
                 let s = s\<lparr>cache := ca, cacheOffset := left\<rparr>;
                 if ready then Some (True, s, sb, outputCount, index + int (length bytes), fs)
                 else ssi_loop d off maxSize s sb outputCount (index + int (length bytes)) tot fs } })"

declare ssi_loop.simps [code]

text \<open>The stage of the response after a block.\<close>

definition next_stage :: "SSI_Context \<Rightarrow> int \<Rightarrow> int \<Rightarrow> u32 \<Rightarrow> u32" where
  "next_stage s index tot stage =
     (if tot \<le> index then (if 0 < ssi s \<and> 0 < cacheOffset s then stage + 1 else STAGE_END) else stage + 1)"

definition WEB_ReadContent ::
  "nat \<Rightarrow> int \<Rightarrow> REQUEST_CONTEXT \<Rightarrow> world \<Rightarrow> (int \<times> REQUEST_CONTEXT \<times> world) option" where
  "WEB_ReadContent off maxSize c w =
     (if requestMethod c \<noteq> METHOD_GET \<and> requestMethod c \<noteq> METHOD_POST then Some (-1, c, w)
      else do {
        let r = ctxResponse c;
        s \<leftarrow> as_ssi (appContext r);
        if dwTotal r - dwOperIndex r = 0
        then
          if 0 < ssi s \<and> 0 < cacheOffset s
          then do {
            bytes \<leftarrow> c_bytes (cache s) 0 (cacheOffset s);
            sb \<leftarrow> c_cpy (sendBuffer r) off bytes;
            Some (int (cacheOffset s),
              set_ssi (s\<lparr>cacheOffset := 0\<rparr>)
                (upd_rsp (\<lambda>r. r\<lparr>sendBuffer := sb, dwOperStage := STAGE_END\<rparr>) c), w) }
          else Some (-1, upd_rsp (\<lambda>r. r\<lparr>dwOperStage := STAGE_END\<rparr>) c, w)
        else if ssi s = 0
        then do {
          let maxRead = min (dwTotal r - dwOperIndex r) maxSize;
          (bs, fs) \<leftarrow> (if maxRead < 0 \<or> ssi_fp s = None then None else WEB_fread (ssi_fp s) (nat maxRead) (w_fs w));
          case bs of
            None \<Rightarrow> Some (0, c\<lparr>result := -500\<rparr>, w\<lparr>w_fs := fs\<rparr>)
          | Some bytes \<Rightarrow>
              do { sb \<leftarrow> c_cpy (sendBuffer r) off bytes;
                   let index = dwOperIndex r + int (length bytes);
                   Some (int (length bytes),
                     upd_rsp (\<lambda>r. r\<lparr>sendBuffer := sb, dwOperIndex := index,
                        dwOperStage := next_stage s index (dwTotal r) (dwOperStage r)\<rparr>) c,
                     w\<lparr>w_fs := fs\<rparr>) } }
        else do {
          (ok, s, sb, outputCount, index, fs) \<leftarrow>
             ssi_loop (w_dev w) off maxSize s (sendBuffer r) 0 (dwOperIndex r) (dwTotal r) (w_fs w);
          let c = set_ssi s (upd_rsp (\<lambda>r. r\<lparr>sendBuffer := sb, dwOperIndex := index\<rparr>) c);
          let w = w\<lparr>w_fs := fs\<rparr>;
          if \<not> ok then Some (0, c\<lparr>result := -500\<rparr>, w)
          else Some (int outputCount,
                 upd_rsp (\<lambda>r. r\<lparr>dwOperStage := next_stage s index (dwTotal r) (dwOperStage r)\<rparr>) c, w) } })"

text \<open>Closing the file of a page: after the last byte, and when the connection is given up.\<close>

definition close_page :: "REQUEST_CONTEXT \<Rightarrow> world \<Rightarrow> (REQUEST_CONTEXT \<times> world) option" where
  "close_page c w =
     do { s \<leftarrow> as_ssi (appContext (ctxResponse c));
          case ssi_fp s of
            None \<Rightarrow> Some (c, w)
          | Some fp \<Rightarrow> do { fs \<leftarrow> WEB_fclose (Some fp) (w_fs w);
                            Some (set_ssi (s\<lparr>ssi_fp := None\<rparr>) c, w\<lparr>w_fs := fs\<rparr>) } }"

definition WEB_AllSent :: "REQUEST_CONTEXT \<Rightarrow> world \<Rightarrow> (REQUEST_CONTEXT \<times> world) option" where
  "WEB_AllSent c w = close_page c w"

definition WEB_Finished :: "REQUEST_CONTEXT \<Rightarrow> world \<Rightarrow> (REQUEST_CONTEXT \<times> world) option" where
  "WEB_Finished c w = close_page c w"

end
