(* ===== verification/Auth.thy ===== *)
theory Auth
  imports Web
begin

text \<open>
  \<^verbatim>\<open>httpd/cgi/cgi_auth.c\<close>: login, logout and the check of a session. The posted text is
  collected in \<open>_appContext\<close> and searched for \<^verbatim>\<open>username=\<close> and \<^verbatim>\<open>password=\<close>.
\<close>

definition CheckUser :: "string \<Rightarrow> string \<Rightarrow> bool" where
  "CheckUser u p \<longleftrightarrow> Strnicmp u ''admin'' 5 = 0 \<or> Strnicmp u ''user'' 4 = 0"

text \<open>The text from a position on is cut off at the next \<^verbatim>\<open>&\<close>.\<close>

definition cut_amp :: "cbuf \<Rightarrow> nat \<Rightarrow> cbuf option" where
  "cut_amp b i =
     do { s \<leftarrow> c_str b i;
          case c_strchr s CHR ''&'' of None \<Rightarrow> Some b | Some k \<Rightarrow> c_wr b (i + k) NUL }"

text \<open>A new session for the client; the clock is read twice when there is a free slot.\<close>

definition new_login ::
  "REQUEST_CONTEXT \<Rightarrow> world \<Rightarrow> (bool \<times> REQUEST_CONTEXT \<times> world) option" where
  "new_login c w =
     do { (session', szNewToken, ss) \<leftarrow> SessionCreate (replicate 32 NUL) (ipRemote c)
            (w_clock w (w_ticks w)) (w_clock w (w_ticks w + 1)) (w_sessions w);
          let c = c\<lparr>session := session'\<rparr>;
          case session' of
            None \<Rightarrow> Some (False, c, w\<lparr>w_sessions := ss\<rparr>)
          | Some i \<Rightarrow>
              do { token \<leftarrow> c_str szNewToken 0;
                   t \<leftarrow> c_strcpy (rsp_token (ctxResponse c)) 0 token;
                   Some (True, upd_rsp (\<lambda>r. r\<lparr>rsp_token := t\<rparr>) c,
                         w\<lparr>w_sessions := ss, w_ticks := w_ticks w + 2\<rparr>) } }"

definition AuthCheck ::
  "REQUEST_CONTEXT \<Rightarrow> world \<Rightarrow> (bool \<times> REQUEST_CONTEXT \<times> world) option" where
  "AuthCheck c w =
     do { b \<leftarrow> as_bytes (appContext (ctxResponse c));
          posted \<leftarrow> c_str b 0;
          if posted = [] then Some (False, c, w)
          else case (c_strstr posted ''username='', c_strstr posted ''password='') of
            (Some iu, Some ip) \<Rightarrow>
              do { b \<leftarrow> cut_amp b (iu + 9);
                   b \<leftarrow> cut_amp b (ip + 9);
                   u \<leftarrow> c_str b (iu + 9);
                   p \<leftarrow> c_str b (ip + 9);
                   let c = upd_rsp (\<lambda>r. r\<lparr>appContext := AppBytes b\<rparr>) c;
                   if CheckUser u p then new_login c w else Some (False, c, w) }
          | _ \<Rightarrow> Some (False, c, w) }"

definition Auth_OnHeaders :: "REQUEST_CONTEXT \<Rightarrow> REQUEST_CONTEXT" where
  "Auth_OnHeaders c = upd_rsp (\<lambda>r. r\<lparr>appContext := zeroApp\<rparr>) c"

text \<open>
  \<open>buffer\<close> is the receive buffer from the posted data on, \<open>sz\<close> the number of bytes that are
  there. \<^verbatim>\<open>strncpy\<close> ends at the first NUL of the data.
\<close>

definition Auth_OnPostData ::
  "cbuf \<Rightarrow> int \<Rightarrow> REQUEST_CONTEXT \<Rightarrow> (int \<times> REQUEST_CONTEXT) option" where
  "Auth_OnPostData buffer sz c =
     (if 0 < sz
      then do {
        b \<leftarrow> as_bytes (appContext (ctxResponse c));
        s \<leftarrow> c_str b 0;
        let room = int (length b) - int (length s) - 2;
        let n = (if sz < room then sz else room);
        if n < 0 then None
        else do {
          b \<leftarrow> c_strncpy b (length s) (takeWhile (\<lambda>x. x \<noteq> NUL) (take (nat n) buffer)) (nat n);
          Some (sz, upd_rsp (\<lambda>r. r\<lparr>appContext := AppBytes b\<rparr>) c) } }
      else Some (sz, c))"

definition path_starts :: "REQUEST_CONTEXT \<Rightarrow> string \<Rightarrow> bool option" where
  "path_starts c pre = do { p \<leftarrow> c_str (requestPath c) 0; Some (Strnicmp p pre (length pre) = 0) }"

definition redirect_to :: "string \<Rightarrow> int \<Rightarrow> REQUEST_CONTEXT \<Rightarrow> REQUEST_CONTEXT option" where
  "redirect_to page auth c =
     do { rp \<leftarrow> c_strcpy (responsePath c) 0 page;
          Some (upd_rsp (\<lambda>r. r\<lparr>authorized := auth\<rparr>) (c\<lparr>responsePath := rp, result := CODE_REDIRECT\<rparr>)) }"

definition Auth_OnRequestReceived ::
  "REQUEST_CONTEXT \<Rightarrow> world \<Rightarrow> (REQUEST_CONTEXT \<times> world) option" where
  "Auth_OnRequestReceived c w =
     do { check \<leftarrow> path_starts c WEB_SESSION_CHECK;
          logout \<leftarrow> path_starts c WEB_LOGOUT_PAGE;
          login \<leftarrow> path_starts c WEB_DEFAULT_PAGE;
          if check
          then Some (c\<lparr>result := (if session c = None then CODE_UNAUTHORIZED else CODE_OK)\<rparr>, w)
          else if logout
          then do {
            c \<leftarrow> redirect_to WEB_DEFAULT_PAGE 0 c;
            t \<leftarrow> c_wr (rsp_token (ctxResponse c)) 0 NUL;
            Some (upd_rsp (\<lambda>r. r\<lparr>rsp_token := t\<rparr>) c,
                  w\<lparr>w_sessions := SessionKill (session c) (w_sessions w)\<rparr>) }
          else if requestMethod c = METHOD_POST \<and> login
          then do {
            (success, c, w) \<leftarrow> AuthCheck c w;
            b \<leftarrow> as_bytes (appContext (ctxResponse c));
            b \<leftarrow> c_cpy b 0 (replicate sizeof_SSI NUL);
            let c = upd_rsp (\<lambda>r. r\<lparr>appContext := AppBytes b\<rparr>) c;
            c \<leftarrow> (if success then redirect_to WEB_APP_PAGE CODE_OK c
                   else redirect_to WEB_DEFAULT_PAGE 0 c);
            Some (c, w) }
          else WEB_RequestReceived c w }"

definition logout_headers :: string where
  "logout_headers = ''X-Auth-Token: SID='' @ CRLF @
     ''Set-Cookie: SID=; Path=/; HttpOnly; max-age=3600'' @ CRLF"

definition login_headers :: "string \<Rightarrow> string" where
  "login_headers token = ''X-Auth-Token: '' @ token @ CRLF @
     ''Set-Cookie: '' @ token @ ''; Path=/; HttpOnly; max-age=3600'' @ CRLF"

definition Auth_SetResponseHeaders ::
  "string \<Rightarrow> REQUEST_CONTEXT \<Rightarrow> world \<Rightarrow> (REQUEST_CONTEXT \<times> world) option" where
  "Auth_SetResponseHeaders info c w =
     do { sent \<leftarrow> c_str (sendBuffer (ctxResponse c)) 0;
          logout \<leftarrow> path_starts c WEB_LOGOUT_PAGE;
          login \<leftarrow> path_starts c WEB_DEFAULT_PAGE;
          token \<leftarrow> c_str (rsp_token (ctxResponse c)) 0;
          sb \<leftarrow> (if logout then c_strcpy (sendBuffer (ctxResponse c)) (length sent) logout_headers
                 else if requestMethod c = METHOD_POST \<and> login \<and>
                         authorized (ctxResponse c) = CODE_OK \<and> token \<noteq> []
                 then c_strcpy (sendBuffer (ctxResponse c)) (length sent) (login_headers token)
                 else Some (sendBuffer (ctxResponse c)));
          WEB_AppendHeaders info (upd_rsp (\<lambda>r. r\<lparr>sendBuffer := sb\<rparr>) c) w }"

section \<open>Login\<close>

lemma c_strstr_behind:
  assumes "\<not> sublist t a" and "x \<notin> set t" and "t \<noteq> []"
  shows "c_strstr (a @ x # t @ r) t = Some (Suc (length a))"
proof -
  have no: "\<not> prefix t (s @ x # r')" if "\<not> prefix t s" for s r'
  proof
    assume p: "prefix t (s @ x # r')"
    show False
    proof (cases "length t \<le> length s")
      case True
      with p have "prefix t s" by (metis prefix_length_prefix prefix_def)
      with that show False ..
    next
      case False
      with p have "prefix (s @ [x]) t" by (metis append.assoc append_Cons append_Nil length_append_singleton not_less_eq_eq prefixI prefix_length_prefix)
      then have "x \<in> set t" by (auto simp: prefix_def)
      with assms(2) show False ..
    qed
  qed
  show ?thesis
    using assms(1)
  proof (induction a)
    case Nil
    have "prefix t (t @ r)" by simp
    then have "c_strstr (t @ r) t = Some 0" by (cases "t @ r") auto
    moreover have "\<not> prefix t (x # t @ r)" using assms(2,3) by (cases t) auto
    ultimately show ?case by simp
  next
    case (Cons y a)
    then have "\<not> prefix t (y # a)" "\<not> sublist t a" by (auto simp: sublist_Cons_right prefix_imp_sublist)
    with no [of "y # a"] Cons.IH show ?case by simp
  qed
qed

definition login_text :: "string \<Rightarrow> string \<Rightarrow> string" where
  "login_text u p = ''username='' @ u @ ''&password='' @ p"

definition known_user :: "string \<Rightarrow> bool" where
  "known_user u \<longleftrightarrow> map ToUpper (take 5 u) = map ToUpper ''admin'' \<or> map ToUpper (take 4 u) = map ToUpper ''user''"

lemma CheckUser_known: "CheckUser u p \<longleftrightarrow> known_user u"
  by (simp add: CheckUser_def known_user_def Strnicmp_zero_iff)

text \<open>Both values are cut out of the posted text.\<close>

lemma AuthCheck_eval:
  assumes b: "appContext (ctxResponse c) = AppBytes b" "c_str b 0 = Some (login_text u p)"
    and amp: "CHR ''&'' \<notin> set u" "CHR ''&'' \<notin> set p"
    and pw: "\<not> sublist ''password='' (''username='' @ u)"
  shows "\<exists>b'. AuthCheck c w = (let c' = upd_rsp (\<lambda>r. r\<lparr>appContext := AppBytes b'\<rparr>) c in
           if known_user u then new_login c' w else Some (False, c', w))"
proof -
  from c_str_split [OF b(2)] obtain r where r: "b = login_text u p @ NUL # r" and z: "NUL \<notin> set (login_text u p)" by blast
  then have zu: "NUL \<notin> set u" "NUL \<notin> set p" by (auto simp: login_text_def)
  define A where "A = ''username=''"
  define B where "B = ''password=''"
  have AB: "length A = 9" "length B = 9" "A \<noteq> []" "B \<noteq> []" "CHR ''&'' \<notin> set B" "NUL \<notin> set A" "NUL \<notin> set B"
    by (simp_all add: A_def B_def)
  have t: "login_text u p = A @ u @ CHR ''&'' # B @ p" by (simp add: login_text_def A_def B_def)
  have iu: "c_strstr (login_text u p) A = Some 0"
    using AB(3) unfolding t by (cases "A @ u @ CHR ''&'' # B @ p") (auto simp: A_def)
  have ip: "c_strstr (login_text u p) B = Some (length A + length u + 1)"
    using c_strstr_behind [of B "A @ u" "CHR ''&''" p] pw AB unfolding t A_def [symmetric] B_def [symmetric] by simp
  define b1 where "b1 = A @ u @ NUL # B @ p @ NUL # r"
  have s1: "c_str b (length A) = Some (u @ CHR ''&'' # B @ p)"
    using c_str_mid [of "u @ CHR ''&'' # B @ p" A r] zu AB by (simp add: r t)
  have c1: "cut_amp b (length A) = Some b1"
    unfolding cut_amp_def s1 Option.bind.bind_lunit c_strchr_first [OF amp(1)] option.case
    by (simp add: c_wr_def r t b1_def list_update_append)
  have s2: "c_str b1 (length A + length u + 1 + length B) = Some p"
    using c_str_mid [of p "A @ u @ NUL # B" r] zu AB(7) by (simp add: b1_def add.assoc)
  have c2: "cut_amp b1 (length A + length u + 1 + length B) = Some b1"
    unfolding cut_amp_def s2 Option.bind.bind_lunit c_strchr_None [OF amp(2)] option.case ..
  have s3: "c_str b1 (length A) = Some u"
    using c_str_mid [of u A "B @ p @ NUL # r"] zu by (simp add: b1_def)
  have "AuthCheck c w = (let c' = upd_rsp (\<lambda>r. r\<lparr>appContext := AppBytes b1\<rparr>) c in
           if known_user u then new_login c' w else Some (False, c', w))"
    using c1 c2 s2 s3 AB(1,2)
    unfolding AuthCheck_def b as_bytes_def app_context.case Option.bind.bind_lunit b(2) iu [unfolded A_def] ip [unfolded B_def] Let_def
    by (simp add: t AB(1,2) CheckUser_known)
  then show ?thesis by blast
qed

text \<open>
  C32. The login: a posted form with a user name and a password is accepted exactly when the name
  starts with \<^verbatim>\<open>admin\<close> or \<^verbatim>\<open>user\<close>, in any case, and a slot of the session table is free; the
  password has no influence. The new session belongs to the address of the client, its token is
  the one that is sent back, and no other session changes.
\<close>

theorem login_any_password:
  assumes b: "appContext (ctxResponse c) = AppBytes b" "c_str b 0 = Some (login_text u p)"
    and amp: "CHR ''&'' \<notin> set u" "CHR ''&'' \<notin> set p"
    and pw: "\<not> sublist ''password='' (''username='' @ u)"
    and len: "length (rsp_token (ctxResponse c)) = 128"
  shows "\<exists>ok c' w'. AuthCheck c w = Some (ok, c', w') \<and>
    (ok \<longleftrightarrow> known_user u \<and> (\<exists>s \<in> set (w_sessions w). \<not> live s)) \<and>
    (if ok then \<exists>i < length (w_sessions w). session c' = Some i \<and> \<not> live (w_sessions w ! i) \<and>
                 live (w_sessions w' ! i) \<and> nLoginIP (w_sessions w' ! i) = ipRemote c \<and>
                 c_str (rsp_token (ctxResponse c')) 0 = c_str (sess_token (w_sessions w' ! i)) 0 \<and>
                 (\<forall>j. j \<noteq> i \<longrightarrow> w_sessions w' ! j = w_sessions w ! j)
     else w_sessions w' = w_sessions w)"
proof -
  from AuthCheck_eval [OF b amp pw, of w] obtain b' where
    e: "AuthCheck c w = (let c' = upd_rsp (\<lambda>r. r\<lparr>appContext := AppBytes b'\<rparr>) c in
           if known_user u then new_login c' w else Some (False, c', w))" by blast
  show ?thesis
  proof (cases "known_user u")
    case False
    then show ?thesis by (intro exI [of _ False]) (simp add: e)
  next
    case True
    have "12 < length (replicate 32 NUL)" by simp
    note sc = SessionCreate_eq [OF this]
    show ?thesis
    proof (cases "first_free 0 (w_sessions w)")
      case None
      then have "\<forall>s \<in> set (w_sessions w). live s" by (simp add: first_free_None)
      with None True show ?thesis by (intro exI [of _ False]) (auto simp: e new_login_def sc)
    next
      case (Some i)
      note f = first_free_Some [OF Some]
      have tok: "c_str (Session.sid t @ NUL # r) 0 = Some (Session.sid t)" for t r using c_str_app [OF NUL_notin_sid] .
      obtain t where t: "c_strcpy (rsp_token (ctxResponse c)) 0 (Session.sid (w_clock w (w_ticks w))) = Some t" "c_str t 0 = Some (Session.sid (w_clock w (w_ticks w)))"
        using len by (auto simp: c_strcpy_def c_cpy_def length_sid tok)
      show ?thesis
        using True Some f t live_new_session new_session_token
        by (intro exI [of _ True]) (auto simp: e new_login_def sc tok upd_rsp_def new_session_def)
    qed
  qed
qed

definition demo_login :: "string \<Rightarrow> REQUEST_CONTEXT" where
  "demo_login p = upd_rsp (\<lambda>r. r\<lparr>appContext := AppBytes (login_text ''admin'' p @ replicate 100 NUL)\<rparr>)
     ((zeroContext 0)\<lparr>ipRemote := 7\<rparr>)"

theorem login_any_password_witness:
  "\<forall>w. \<exists>ok c' w'. AuthCheck (demo_login ''wrong'') w = Some (ok, c', w') \<and> ok = list_ex (\<lambda>s. \<not> live s) (w_sessions w)"
proof
  fix w :: world
  have 1: "appContext (ctxResponse (demo_login ''wrong'')) = AppBytes (login_text ''admin'' ''wrong'' @ replicate 100 NUL)"
    "length (rsp_token (ctxResponse (demo_login ''wrong''))) = 128"
    by (simp_all add: demo_login_def upd_rsp_def zeroContext_def zeroResponse_def)
  have 2: "c_str (login_text ''admin'' ''wrong'' @ replicate 100 NUL) 0 = Some (login_text ''admin'' ''wrong'')"
    using c_str_app [of "login_text ''admin'' ''wrong''" "replicate 99 NUL"] by (simp add: login_text_def numeral_eq_Suc)
  have 3: "\<not> sublist ''password='' (''username='' @ ''admin'')" "known_user ''admin''" by code_simp+
  from login_any_password [OF 1(1) 2 _ _ 3(1) 1(2), of w] obtain ok c' w' where
    "AuthCheck (demo_login ''wrong'') w = Some (ok, c', w')" "ok \<longleftrightarrow> known_user ''admin'' \<and> (\<exists>s \<in> set (w_sessions w). \<not> live s)"
    by auto
  with 3(2) show "\<exists>ok c' w'. AuthCheck (demo_login ''wrong'') w = Some (ok, c', w') \<and>
      ok = list_ex (\<lambda>s. \<not> live s) (w_sessions w)" by (auto simp: list_ex_iff)
qed

end
