(* ===== verification/Form.thy ===== *)
theory Form
  imports Web
begin

text \<open>
  \<^verbatim>\<open>httpd/cgi/cgi_form.c\<close>: the page with the settings of the device. Showing it loads the
  working configuration into the copy under edit; posting it writes the fields there and makes
  the copy the working configuration.
\<close>

definition Form_OnHeadersReceived :: "REQUEST_CONTEXT \<Rightarrow> world \<Rightarrow> REQUEST_CONTEXT \<times> world" where
  "Form_OnHeadersReceived c w =
     (WEB_OnFormHeaders c,
      if requestMethod c = METHOD_GET then w\<lparr>w_dev := LoadConfig4Edit (w_dev w)\<rparr> else w)"

definition Form_OnRequestReceived ::
  "REQUEST_CONTEXT \<Rightarrow> world \<Rightarrow> (REQUEST_CONTEXT \<times> world) option" where
  "Form_OnRequestReceived c w =
     do { (c, w) \<leftarrow> WEB_RequestReceived c w;
          let w = (if requestMethod c = METHOD_POST then w\<lparr>w_dev := AppyConfig (w_dev w)\<rparr> else w);
          Some (upd_rsp (\<lambda>r. r\<lparr>sendBuffer := c_memset0 (sendBuffer r), bytesLeft := 0\<rparr>) c, w) }"

definition Form_SetResponseHeaders ::
  "string \<Rightarrow> REQUEST_CONTEXT \<Rightarrow> world \<Rightarrow> (REQUEST_CONTEXT \<times> world) option" where
  "Form_SetResponseHeaders info c w = WEB_AppendHeaders info c w"

definition Form_AllSent :: "REQUEST_CONTEXT \<Rightarrow> world \<Rightarrow> (REQUEST_CONTEXT \<times> world) option" where
  "Form_AllSent c w = WEB_AllSent c w"

end
