(* ===== verification/Upload.thy ===== *)
theory Upload
  imports Web
begin

text \<open>
  \<^verbatim>\<open>httpd/cgi/cgi_upload.c\<close>: a posted file is stored under the name of the \<^verbatim>\<open>X-File-Name\<close>
  header, which is Base64 text. The name is built in \<open>_appContext\<close>.
\<close>

definition UPLOAD_TO_FOLDER :: string where
  "UPLOAD_TO_FOLDER =
     ''D:/straight/straight-httpd/straight-httpd/straight-httpd/httpd/cncweb/app/cache/''"

definition Dev_IsBusy :: int where "Dev_IsBusy = 0"

definition Upload_Start :: "REQUEST_CONTEXT \<Rightarrow> world \<Rightarrow> (int \<times> REQUEST_CONTEXT \<times> world) option" where
  "Upload_Start c w =
     do { b \<leftarrow> as_bytes (appContext (ctxResponse c));
          name \<leftarrow> c_str b 0;
          (f, fs) \<leftarrow> WEB_fopen name ''wb'' (w_fs w);
          Some (if f = None then 0 else 1, c\<lparr>fileHandle := f\<rparr>, w\<lparr>w_fs := fs\<rparr>) }"

definition Upload_GetFreeSize :: "int \<Rightarrow> int" where
  "Upload_GetFreeSize askForSize = askForSize"

definition Upload_Received ::
  "REQUEST_CONTEXT \<Rightarrow> char list \<Rightarrow> world \<Rightarrow> (int \<times> world) option" where
  "Upload_Received c pData w =
     do { (n, fs) \<leftarrow> WEB_fwrite (fileHandle c) pData (w_fs w);
          Some (if 0 < n then int (length pData) else 0, w\<lparr>w_fs := fs\<rparr>) }"

text \<open>The handle is closed and stays in the context.\<close>

definition Upload_AllReceived :: "REQUEST_CONTEXT \<Rightarrow> world \<Rightarrow> (REQUEST_CONTEXT \<times> world) option" where
  "Upload_AllReceived c w =
     do { fs \<leftarrow> WEB_fclose (fileHandle c) (w_fs w); Some (c, w\<lparr>w_fs := fs\<rparr>) }"

text \<open>The position of the value of a header: behind the colon and the spaces that follow it.\<close>

definition value_pos :: "string \<Rightarrow> nat" where
  "value_pos line = (case c_strchr line CHR '':'' of
       None \<Rightarrow> length line
     | Some i \<Rightarrow> i + 1 + length (takeWhile (\<lambda>x. x = CHR '' '') (drop (i + 1) line)))"

text \<open>
  \<open>line\<close> is the receive buffer from the header line on. The name is decoded in place. The
  result says whether the header was taken.
\<close>

definition Upload_OnHeaderReceived ::
  "cbuf \<Rightarrow> REQUEST_CONTEXT \<Rightarrow> world \<Rightarrow> (int \<times> cbuf \<times> REQUEST_CONTEXT \<times> world) option" where
  "Upload_OnHeaderReceived line c w =
     do { header_line \<leftarrow> c_str line 0;
          if Strnicmp header_line ''X-File-Name:'' 12 = 0
          then do {
            let j = value_pos header_line;
            (len, rest) \<leftarrow> DecodeB64 (drop j line);
            line \<leftarrow> c_wr (take j line @ rest) (len + j) NUL;
            name \<leftarrow> c_str line j;
            b \<leftarrow> as_bytes (appContext (ctxResponse c));
            b \<leftarrow> c_strcpy b 0 (UPLOAD_TO_FOLDER @ name);
            path \<leftarrow> c_str b 0;
            Some (1, line, upd_rsp (\<lambda>r. r\<lparr>appContext := AppBytes b\<rparr>) c,
                  w\<lparr>w_folders_made := w_folders_made w @ MakeDeepPath path\<rparr>) }
          else Some (0, line, c, w) }"

definition Upload_OnCancel :: "REQUEST_CONTEXT \<Rightarrow> REQUEST_CONTEXT" where
  "Upload_OnCancel c = c"

definition Upload_OnHeadersReceived ::
  "REQUEST_CONTEXT \<Rightarrow> world \<Rightarrow> (REQUEST_CONTEXT \<times> world) option" where
  "Upload_OnHeadersReceived c w =
     (if requestMethod c = METHOD_GET then Some (c\<lparr>result := -404\<rparr>, w)
      else if requestMethod c = METHOD_POST
      then (if Dev_IsBusy \<noteq> 0 then Some (c\<lparr>result := -500\<rparr>, w)
            else do {
              (ready, c, w) \<leftarrow> Upload_Start c w;
              Some (if ready \<le> 0 then c\<lparr>result := -500\<rparr> else c, w) })
      else Some (c, w))"

definition Upload_OnContentReceived ::
  "cbuf \<Rightarrow> int \<Rightarrow> REQUEST_CONTEXT \<Rightarrow> world \<Rightarrow> (int \<times> REQUEST_CONTEXT \<times> world) option" where
  "Upload_OnContentReceived buffer sz c w =
     (let maxToConsume = min (contentLength c - contentReceived c) sz
      in if 0 < maxToConsume \<and> requestMethod c = METHOD_POST
         then
           let (kill, c) = IsKilling 1 c
           in if kill \<noteq> 0 then Some (0, c\<lparr>result := -500\<rparr>, w)
              else
                let nFree = Upload_GetFreeSize maxToConsume
                in if 0 < nFree
                   then do {
                     data \<leftarrow> c_bytes buffer 0 (nat nFree);
                     (eaten, w) \<leftarrow> Upload_Received c data w;
                     if 0 < eaten
                     then let (t, w) = tick_stamp w in Some (eaten, c\<lparr>req_tLastReceived := t\<rparr>, w)
                     else Some (0, c, w) }
                   else let (t, w) = tick_stamp w in Some (0, c\<lparr>req_tLastReceived := t\<rparr>, w)
         else Some (0, c, w))"

section \<open>The name of an upload\<close>

lemma b64_char_not_space: "v < 64 \<Longrightarrow> b64_char v \<noteq> NUL \<and> b64_char v \<noteq> CHR '' ''"
  by (auto simp: b64_char_def char_of_eq_iff take_bit_nat_eq_self)

lemma b64_encode_plain: "\<forall>x \<in> set (b64_encode xs). x \<noteq> NUL \<and> x \<noteq> CHR '' ''"
proof (induction xs rule: b64_encode.induct)
  case 1
  show ?case by simp
next
  case (2 x)
  have "(of_char x :: nat) < 256" by simp
  note s = b64_sextets [OF this this this]
  show ?case using s b64_char_not_space by (simp add: Let_def)
next
  case (3 x y)
  have l: "(of_char x :: nat) < 256" "(of_char y :: nat) < 256" by simp_all
  note s = b64_sextets [OF l l(1)]
  show ?case using s b64_char_not_space by (simp add: Let_def)
next
  case (4 x y z r)
  have l: "(of_char x :: nat) < 256" "(of_char y :: nat) < 256" "(of_char z :: nat) < 256" by simp_all
  note s = b64_sextets [OF l]
  show ?case using s b64_char_not_space 4 by (simp add: Let_def)
qed

lemma c_wr_same: "c_wr (A @ x # R) (length A) x = Some (A @ x # R)"
  by (simp add: c_wr_def)

definition file_name_line :: "char list \<Rightarrow> string" where
  "file_name_line name = ''X-File-Name: '' @ b64_encode name"

lemma file_name_line_plain: "NUL \<notin> set (file_name_line name)"
  using b64_encode_plain [of name] by (auto simp: file_name_line_def)

lemma value_pos_file_name: "value_pos (file_name_line name) = 13"
proof -
  have "takeWhile (\<lambda>x. x = CHR '' '') (b64_encode name) = []"
    using b64_encode_plain [of name] by (cases "b64_encode name") auto
  then show ?thesis by (simp add: value_pos_def file_name_line_def)
qed

text \<open>
  C31. The name of an upload: the header \<^verbatim>\<open>X-File-Name\<close> with the Base64 text of a name makes the
  target \<open>UPLOAD_TO_FOLDER\<close> followed by the name, and asks for the folders on the way to it. The
  text is written into 256 bytes without a check: the array is overrun exactly by names of 176
  bytes and more. Neither the session of the client nor the method of the request is looked at.
\<close>

theorem upload_name_stored:
  assumes app: "as_bytes (appContext (ctxResponse c)) = Some b" and len: "length b = MAX_APP_CONTEXT_SIZE"
    and name: "NUL \<notin> set name"
  shows "if 176 \<le> length name then Upload_OnHeaderReceived (file_name_line name @ NUL # r) c w = None
    else \<exists>line b'.
      Upload_OnHeaderReceived (file_name_line name @ NUL # r) c w =
        Some (1, line, upd_rsp (\<lambda>r. r\<lparr>appContext := AppBytes b'\<rparr>) c,
              w\<lparr>w_folders_made := w_folders_made w @ MakeDeepPath (UPLOAD_TO_FOLDER @ name)\<rparr>) \<and>
      c_str b' 0 = Some (UPLOAD_TO_FOLDER @ name)"
proof -
  let ?l = "file_name_line name"
  define X where "X = ''X-File-Name: ''"
  have X: "?l = X @ b64_encode name" "length X = 13" by (simp_all add: X_def file_name_line_def)
  have s: "c_str (?l @ NUL # r) 0 = Some ?l" by (rule c_str_app) (rule file_name_line_plain)
  have x: "Strnicmp ?l ''X-File-Name:'' 12 = 0" by (simp add: file_name_line_def Strnicmp_zero_iff)
  have d: "drop 13 (?l @ NUL # r) = b64_encode name @ NUL # r" and t: "take 13 (?l @ NUL # r) = X"
    by (simp_all add: X)
  from DecodeB64_encode [of name r] obtain rest where
    dec: "DecodeB64 (b64_encode name @ NUL # r) = Some (length name, name @ NUL # rest)" by blast
  have wr: "c_wr (X @ name @ NUL # rest) (length name + 13) NUL = Some (X @ name @ NUL # rest)"
    using c_wr_same [of "X @ name" NUL rest] X by (simp add: add.commute)
  have nm: "c_str (X @ name @ NUL # rest) 13 = Some name"
    using c_str_app [OF name, of rest] X by (simp add: c_str_def)
  have u: "length UPLOAD_TO_FOLDER = 80" "NUL \<notin> set UPLOAD_TO_FOLDER" by (simp_all add: UPLOAD_TO_FOLDER_def)
  have eval: "Upload_OnHeaderReceived (?l @ NUL # r) c w =
      do { b \<leftarrow> c_strcpy b 0 (UPLOAD_TO_FOLDER @ name);
           path \<leftarrow> c_str b 0;
           Some (1, X @ name @ NUL # rest, upd_rsp (\<lambda>r. r\<lparr>appContext := AppBytes b\<rparr>) c,
                 w\<lparr>w_folders_made := w_folders_made w @ MakeDeepPath path\<rparr>) }"
    unfolding Upload_OnHeaderReceived_def s Option.bind.bind_lunit x value_pos_file_name Let_def d dec prod.case t wr nm app
    by simp
  have none: "c_strcpy b 0 (UPLOAD_TO_FOLDER @ name) = None \<longleftrightarrow> 176 \<le> length name"
    using u len by (auto simp: c_strcpy_def c_cpy_def MAX_APP_CONTEXT_SIZE_def)
  have str: "c_str b' 0 = Some (UPLOAD_TO_FOLDER @ name)" if "c_strcpy b 0 (UPLOAD_TO_FOLDER @ name) = Some b'" for b'
    using c_strcpy_str [OF that] u name by auto
  show ?thesis
  proof (cases "c_strcpy b 0 (UPLOAD_TO_FOLDER @ name)")
    case None
    then show ?thesis using none by (simp add: eval)
  next
    case (Some b')
    with none have "\<not> 176 \<le> length name" by simp
    with Some str [OF Some] show ?thesis by (auto simp: eval)
  qed
qed

theorem upload_name_stored_witness:
  "\<forall>w. \<exists>line b'. Upload_OnHeaderReceived (file_name_line ''a/b.txt'' @ NUL # []) (zeroContext 0) w =
      Some (1, line, upd_rsp (\<lambda>r. r\<lparr>appContext := AppBytes b'\<rparr>) (zeroContext 0),
            w\<lparr>w_folders_made := w_folders_made w @ MakeDeepPath (UPLOAD_TO_FOLDER @ ''a/b.txt'')\<rparr>) \<and>
    c_str b' 0 = Some (UPLOAD_TO_FOLDER @ ''a/b.txt'')"
proof -
  have "as_bytes (appContext (ctxResponse (zeroContext 0))) = Some (replicate MAX_APP_CONTEXT_SIZE NUL)"
    by (simp add: as_bytes_def zeroContext_def zeroResponse_def zeroApp_def)
  from upload_name_stored [OF this, of "''a/b.txt''" "[]"] show ?thesis by simp
qed

end
