(* ===== verification/FileList.thy ===== *)
theory FileList
  imports Web
begin

text \<open>
  \<^verbatim>\<open>httpd/cgi/cgi_files.c\<close>: the content of a folder as JSON text. The buffer argument of the
  source is a position \<open>off\<close> of the send buffer, as in \<open>WEB_ReadContent\<close>.
\<close>

definition FOLDER_TO_LIST :: string where
  "FOLDER_TO_LIST =
     ''D:/straight/straight-httpd/straight-httpd/straight-httpd/httpd/cncweb/app/cache/''"

text \<open>The folder of the query \<^verbatim>\<open>path=\<close>, which the question mark separates from the path.\<close>

definition query_folder :: "REQUEST_CONTEXT \<Rightarrow> string option option" where
  "query_folder c =
     (if 0 \<le> posQuestion c
      then do { q \<leftarrow> c_str (requestPath c) (nat (posQuestion c) + 1);
                Some (map_option (\<lambda>i. drop (i + 5) q) (c_strstr q ''path='')) }
      else Some None)"

definition Files_OnRequestReceived ::
  "REQUEST_CONTEXT \<Rightarrow> world \<Rightarrow> (REQUEST_CONTEXT \<times> world) option" where
  "Files_OnRequestReceived c w =
     do { folder \<leftarrow> query_folder c;
          rp \<leftarrow> c_strcpy (responsePath c) 0 FOLDER_TO_LIST;
          rp \<leftarrow> (case folder of
              None \<Rightarrow> Some rp
            | Some p \<Rightarrow>
                do { rp \<leftarrow> c_strcat rp (if take 1 p = ''/'' then drop 1 p else p);
                     t \<leftarrow> c_str rp 0;
                     if t ! (length t - 1) \<noteq> CHR ''/'' then c_strcat rp ''/'' else Some rp });
          rp \<leftarrow> c_strcat rp ''*.*'';
          flt \<leftarrow> c_str rp 0;
          let c = c\<lparr>responsePath := rp, options := or (options c) CGI_OPT_CHUNK_ENABLED\<rparr>;
          let c = set_ssi (zeroSSI\<lparr>ssi_valid := 1\<rparr>) c;
          let (r, fs) = WEB_firstdir flt 64 (w_fs w);
          fs \<leftarrow> (case r of None \<Rightarrow> Some fs | Some (f, e) \<Rightarrow> WEB_closedir (Some f) fs);
          Some (c, w\<lparr>w_fs := fs\<rparr>) }"

definition Files_SetResponseHeader ::
  "string \<Rightarrow> REQUEST_CONTEXT \<Rightarrow> world \<Rightarrow> (REQUEST_CONTEXT \<times> world) option" where
  "Files_SetResponseHeader info c w =
     (if requestMethod c = METHOD_GET \<and> result c = CODE_OK
      then do { sb \<leftarrow> c_strcpy (sendBuffer (ctxResponse c)) 0
                  (header_chunked info ''application/json'' [] CONNECTION_HEADER);
                Some (upd_rsp (\<lambda>r. r\<lparr>sendBuffer := sb\<rparr>) c, w) }
      else Some (c, w))"

text \<open>\<^verbatim>\<open>strcpy\<close> and \<^verbatim>\<open>sprintf\<close> at the end of the text at \<open>off\<close>, and the new length of that text.\<close>

definition put_text :: "nat \<Rightarrow> cbuf \<Rightarrow> nat \<Rightarrow> string \<Rightarrow> (cbuf \<times> nat) option" where
  "put_text off sb outputCount s =
     do { sb \<leftarrow> c_strcpy sb (off + outputCount) s; t \<leftarrow> c_str sb off; Some (sb, length t) }"

text \<open>The four pieces of one entry; the date is printed as a 32-bit number.\<close>

definition entry_pieces :: "dir_entry \<Rightarrow> string list" where
  "entry_pieces e =
     [''{\"folder\":'' @ fmt_d (if de_folder e then 1 else 0),
      '',\"name\":\"'' @ de_name e @ ''\"'',
      '',\"size\":'' @ fmt_d (de_size e),
      '',\"date\":'' @ fmt_d (sint (of_nat (de_date e) :: s32)) @ ''}'']"

fun put_all :: "nat \<Rightarrow> cbuf \<Rightarrow> nat \<Rightarrow> string list \<Rightarrow> (cbuf \<times> nat) option" where
  "put_all off sb n [] = Some (sb, n)"
| "put_all off sb n (s # ss) = do { (sb, n) \<leftarrow> put_text off sb n s; put_all off sb n ss }"

text \<open>The entries that the listing leaves out: no name, the folder itself, the parent of the root.\<close>

definition skip_entry :: "string \<Rightarrow> string \<Rightarrow> bool" where
  "skip_entry path name \<longleftrightarrow> name = [] \<or> name = ''.'' \<or>
     (name = ''..'' \<and> length path = length FOLDER_TO_LIST + 3)"

text \<open>
  The loop; one iteration opens the folder or takes the next entry. The result is the number
  of bytes, or less than 0 for none.
\<close>

partial_function (option) files_loop ::
  "nat \<Rightarrow> int \<Rightarrow> string \<Rightarrow> u32 \<Rightarrow> handle option \<Rightarrow> int \<Rightarrow> cbuf \<Rightarrow> nat \<Rightarrow> file_system \<Rightarrow>
     (nat \<times> u32 \<times> handle option \<times> int \<times> cbuf \<times> file_system) option" where
  "files_loop off maxSize path stage fp entries sb outputCount fs =
     (if \<not> int outputCount < maxSize - 200 then Some (outputCount, stage, fp, entries, sb, fs)
      else do {
        (fp, e, fs) \<leftarrow> (if stage = 0
           then (case WEB_firstdir path 128 fs of
               (None, fs) \<Rightarrow> Some (None, None, fs) | (Some (f, e), fs) \<Rightarrow> Some (Some f, Some e, fs))
           else do { (e, fs) \<leftarrow> WEB_readdir fp 128 fs; Some (fp, e, fs) });
        case e of
          None \<Rightarrow>
            (if stage = 0
             then do { (sb, n) \<leftarrow> put_text off sb outputCount ''{\"result\":0, \"data\":[]}'';
                       Some (n, STAGE_END, fp, entries, sb, fs) }
             else do { fs \<leftarrow> WEB_closedir fp fs;
                       (sb, n) \<leftarrow> put_text off sb outputCount '']}'';
                       Some (n, STAGE_END, None, entries, sb, fs) })
        | Some e \<Rightarrow>
            if skip_entry path (de_name e)
            then files_loop off maxSize path (stage + 1) fp entries sb outputCount fs
            else do {
              (sb, n) \<leftarrow> (if entries = 0 then put_text off sb outputCount ''{\"result\":1, \"data\":[''
                 else do { sb \<leftarrow> c_wr sb (off + outputCount) CHR '',''; Some (sb, outputCount + 1) });
              (sb, n) \<leftarrow> put_all off sb n (entry_pieces e);
              files_loop off maxSize path (stage + 1) fp (entries + 1) sb n fs } })"

declare files_loop.simps [code]

definition Files_ReadOneFileInfo ::
  "nat \<Rightarrow> int \<Rightarrow> REQUEST_CONTEXT \<Rightarrow> world \<Rightarrow> (int \<times> REQUEST_CONTEXT \<times> world) option" where
  "Files_ReadOneFileInfo off maxSize c w =
     (if requestMethod c \<noteq> METHOD_GET then Some (-1, c, w)
      else do {
        let r = ctxResponse c;
        s \<leftarrow> as_ssi (appContext r);
        if dwOperStage r = STAGE_END
        then (case ssi_fp s of
            None \<Rightarrow> Some (-1, c, w)
          | Some f \<Rightarrow> do { fs \<leftarrow> WEB_closedir (Some f) (w_fs w);
                           Some (-1, set_ssi (s\<lparr>ssi_fp := None\<rparr>) c, w\<lparr>w_fs := fs\<rparr>) })
        else do {
          path \<leftarrow> c_str (responsePath c) 0;
          (n, stage, fp, entries, sb, fs) \<leftarrow>
            files_loop off maxSize path (dwOperStage r) (ssi_fp s) (dwTotal r) (sendBuffer r) 0 (w_fs w);
          Some (if 0 < n \<or> stage = STAGE_END then int n else -1,
                set_ssi (s\<lparr>ssi_fp := fp\<rparr>)
                  (upd_rsp (\<lambda>r. r\<lparr>sendBuffer := sb, dwOperStage := stage, dwTotal := entries\<rparr>) c),
                w\<lparr>w_fs := fs\<rparr>) } })"

end
