(* ===== verification/DeviceXml.thy ===== *)
theory DeviceXml
  imports Web
begin

text \<open>
  \<^verbatim>\<open>httpd/cgi/cgi_ssdp.c\<close>: the description of the device for UPnP. The document has 17
  pieces, one for each stage of the response; a block takes pieces as long as 128 bytes are
  free. The buffer argument of the source is a position \<open>off\<close> of the send buffer.
\<close>

definition SSDP_SendHeader ::
  "string \<Rightarrow> REQUEST_CONTEXT \<Rightarrow> world \<Rightarrow> (REQUEST_CONTEXT \<times> world) option" where
  "SSDP_SendHeader info c w =
     (if requestMethod c = METHOD_GET
      then do { sb \<leftarrow> c_strcpy (sendBuffer (ctxResponse c)) 0
                  (header_chunked ''200 OK'' ''text/xml; charset=\"utf-8\"'' header_nocache CONNECTION_HEADER);
                Some (upd_rsp (\<lambda>r. r\<lparr>sendBuffer := sb\<rparr>) c, w) }
      else Some (c, w))"

definition ssdp_pieces :: "device \<Rightarrow> string list" where
  "ssdp_pieces d =
     (let szIP = dotted (GetMyIP d)
      in [''<?xml version=\"1.0\"?>'' @ CRLF,
          ''<root xmlns=\"urn:schemas-upnp-org:device-1-0\">'' @ CRLF,
          ''<specVersion><major>1</major><minor>0</minor></specVersion>'' @ CRLF,
          ''<URLBase>https://'' @ szIP @ ''</URLBase>'' @ CRLF,
          ''<device>'' @ CRLF,
          ''<deviceType>urn:schemas-upnp-org:device:Basic:1</deviceType>'' @ CRLF,
          ''<friendlyName>'' @ GetDeviceName @ ''</friendlyName>'' @ CRLF,
          ''<presentationURL>https://'' @ szIP @ ''</presentationURL>'' @ CRLF,
          ''<manufacturer>'' @ GetVendor @ ''</manufacturer>'' @ CRLF,
          ''<manufacturerURL>'' @ GetVendorURL @ ''</manufacturerURL>'' @ CRLF,
          ''<modelDescription>'' @ GetModel @ ''</modelDescription>'' @ CRLF,
          ''<modelName>'' @ GetModel @ ''</modelName>'' @ CRLF,
          ''<modelNumber>'' @ GetDeviceName @ '' ('' @ GetDeviceVersion @ '')</modelNumber>'' @ CRLF,
          ''<modelURL>'' @ GetModelURL @ ''</modelURL>'' @ CRLF,
          ''<serialNumber>'' @ GetDeviceSN @ ''</serialNumber>'' @ CRLF,
          ''<UDN>uuid:'' @ GetDeviceUUID @ ''</UDN>'' @ CRLF,
          ''</device>'' @ CRLF @ ''</root>'' @ CRLF])"

text \<open>
  The stages from the current one on: the buffer, the bytes in it, the stage that was reached
  and whether all pieces are out. A full buffer leaves by the label \<open>block_end\<close>.
\<close>

fun ssdp_stages :: "nat \<Rightarrow> int \<Rightarrow> string list \<Rightarrow> cbuf \<Rightarrow> nat \<Rightarrow> u32 \<Rightarrow> (bool \<times> cbuf \<times> nat \<times> u32) option" where
  "ssdp_stages base maxSize [] sb off stage = Some (True, sb, off, stage)"
| "ssdp_stages base maxSize (x # xs) sb off stage =
     (if maxSize - 128 < int off then Some (False, sb, off, stage)
      else do { sb \<leftarrow> c_strcpy sb (base + off) x;
                t \<leftarrow> c_str sb base;
                ssdp_stages base maxSize xs sb (length t) (stage + 1) })"

definition SSDP_Sending ::
  "nat \<Rightarrow> int \<Rightarrow> REQUEST_CONTEXT \<Rightarrow> world \<Rightarrow> (int \<times> REQUEST_CONTEXT \<times> world) option" where
  "SSDP_Sending base maxSize c w =
     (if requestMethod c \<noteq> METHOD_GET then Some (0, c, w)
      else do {
        sb \<leftarrow> c_wr (sendBuffer (ctxResponse c)) base NUL;
        let c = upd_rsp (\<lambda>r. r\<lparr>sendBuffer := sb\<rparr>) c;
        let stage = dwOperStage (ctxResponse c);
        if stage = STAGE_END then Some (-1, c, w)
        else do {
          (complete, sb, off, stage) \<leftarrow>
            ssdp_stages base maxSize (drop (unat stage) (ssdp_pieces (w_dev w))) sb 0 stage;
          Some (int off,
            upd_rsp (\<lambda>r. r\<lparr>sendBuffer := sb, dwOperStage := (if complete then STAGE_END else stage)\<rparr>) c,
            w) } })"

section \<open>The description is complete\<close>

definition piece_ok :: "string \<Rightarrow> bool" where
  "piece_ok x \<longleftrightarrow> length x < 128 \<and> NUL \<notin> set x"

lemma ssdp_pieces_ok: "list_all piece_ok (ssdp_pieces d)" "length (ssdp_pieces d) = 17"
  using length_dotted [of "GetMyIP d"] NUL_notin_dotted [of "GetMyIP d"]
  by (simp_all add: ssdp_pieces_def piece_ok_def GetDeviceName_def GetVendor_def GetVendorURL_def GetModel_def
      GetModelURL_def GetDeviceVersion_def GetDeviceSN_def GetDeviceUUID_def Let_def)

lemma ssdp_stages_take:
  assumes "list_all piece_ok xs" and "c_str sb base = Some t" and "off = length t"
    and "int base + m \<le> int (length sb)" and "128 \<le> m"
  shows "\<exists>k sb' t'. ssdp_stages base m xs sb off stage = Some (k = length xs, sb', length t', stage + of_nat k) \<and>
    k \<le> length xs \<and> t' = t @ concat (take k xs) \<and> c_str sb' base = Some t' \<and> length sb' = length sb \<and>
    (int off \<le> m - 128 \<longrightarrow> xs \<noteq> [] \<longrightarrow> 0 < k) \<and> (int off \<le> m \<longrightarrow> int (length t') \<le> m)"
  using assms
proof (induction xs arbitrary: sb off t stage)
  case Nil
  then show ?case by simp
next
  case (Cons x xs)
  then have x: "length x < 128" "NUL \<notin> set x" and xs: "list_all piece_ok xs"
    by (simp_all add: piece_ok_def [of x])
  show ?case
  proof (cases "m - 128 < int off")
    case True
    with Cons.prems show ?thesis by (intro exI [of _ 0]) simp
  next
    case False
    have room: "base + off + length x < length sb" using False Cons.prems(4) x(1) by linarith
    obtain sb1 where s1: "c_strcpy sb (base + off) x = Some sb1" "c_str sb1 base = Some (t @ x)" "length sb1 = length sb"
      using c_strcpy_append [OF Cons.prems(2) x(2)] room Cons.prems(3) by blast
    from Cons.IH [OF xs s1(2), of "length (t @ x)" "stage + 1"] Cons.prems(4,5) s1(3)
    obtain k sb' t' where "ssdp_stages base m xs sb1 (length (t @ x)) (stage + 1) =
        Some (k = length xs, sb', length t', stage + 1 + of_nat k)" "k \<le> length xs" "t' = (t @ x) @ concat (take k xs)"
        "c_str sb' base = Some t'" "length sb' = length sb1" "int (length (t @ x)) \<le> m \<longrightarrow> int (length t') \<le> m" by auto
    with False s1 x(1) Cons.prems(3) show ?thesis by (intro exI [of _ "Suc k"]) (simp add: add.assoc)
  qed
qed

text \<open>The blocks that successive calls produce, until the last stage.\<close>

fun xml_blocks :: "nat \<Rightarrow> nat \<Rightarrow> int \<Rightarrow> REQUEST_CONTEXT \<Rightarrow> world \<Rightarrow> (string \<times> REQUEST_CONTEXT \<times> world) option" where
  "xml_blocks 0 base m c w = Some ([], c, w)"
| "xml_blocks (Suc k) base m c w =
     (if dwOperStage (ctxResponse c) = STAGE_END then Some ([], c, w)
      else do { (n, c, w) \<leftarrow> SSDP_Sending base m c w;
                (t, c', w) \<leftarrow> xml_blocks k base m c w;
                Some (take (nat n) (drop base (sendBuffer (ctxResponse c))) @ t, c', w) })"

lemma SSDP_Sending_block:
  assumes "requestMethod c = METHOD_GET" and "dwOperStage (ctxResponse c) = of_nat k" and "k < 17"
    and "int base + m \<le> int (length (sendBuffer (ctxResponse c)))" and "128 \<le> m"
  shows "\<exists>n c' j. SSDP_Sending base m c w = Some (n, c', w) \<and> k < j \<and> j \<le> 17 \<and>
    0 \<le> n \<and> n \<le> m \<and> base + nat n \<le> length (sendBuffer (ctxResponse c')) \<and>
    take (nat n) (drop base (sendBuffer (ctxResponse c'))) @ concat (drop j (ssdp_pieces (w_dev w))) = concat (drop k (ssdp_pieces (w_dev w))) \<and>
    dwOperStage (ctxResponse c') = (if j = 17 then STAGE_END else of_nat j) \<and> requestMethod c' = METHOD_GET \<and>
    length (sendBuffer (ctxResponse c')) = length (sendBuffer (ctxResponse c))"
proof -
  define xs where "xs = drop k (ssdp_pieces (w_dev w))"
  define sb where "sb = (sendBuffer (ctxResponse c))[base := NUL]"
  have ns: "of_nat k \<noteq> STAGE_END" "unat (of_nat k :: u32) = k"
    using assms(3) by (auto simp: STAGE_END_def unsigned_of_nat take_bit_nat_eq_self word_unat_eq_iff)
  have lt: "base < length (sendBuffer (ctxResponse c))" using assms(4,5) by linarith
  then have "c_str sb base = Some []"
    using c_str_mid [of "[]" "take base (sendBuffer (ctxResponse c))" "drop (Suc base) (sendBuffer (ctxResponse c))"]
    by (simp add: sb_def upd_conv_take_nth_drop)
  moreover have "list_all piece_ok xs" using ssdp_pieces_ok(1) [of "w_dev w"] by (auto simp: xs_def list_all_iff dest: in_set_dropD)
  moreover have "int base + m \<le> int (length sb)" using assms(4) by (simp add: sb_def)
  ultimately obtain i sb' t' where i: "ssdp_stages base m xs sb 0 (of_nat k) = Some (i = length xs, sb', length t', of_nat k + of_nat i)"
    "i \<le> length xs" "t' = concat (take i xs)" "c_str sb' base = Some t'" "length sb' = length sb" "xs \<noteq> [] \<longrightarrow> 0 < i"
    "int (length t') \<le> m"
    using ssdp_stages_take [of xs sb base "[]" 0 m "of_nat k"] assms(5) by auto
  have len: "length xs = 17 - k" using ssdp_pieces_ok(2) [of "w_dev w"] by (simp add: xs_def)
  have "take (length t') (drop base sb') = t'"
    using i(4) by (elim c_str_parts) auto
  moreover have "concat (take i xs) @ concat (drop (k + i) (ssdp_pieces (w_dev w))) = concat xs"
    by (simp add: xs_def add.commute flip: drop_drop concat_append)
  ultimately have out: "take (length t') (drop base sb') @ concat (drop (k + i) (ssdp_pieces (w_dev w))) = concat xs"
    using i(3) by simp
  define c1 where "c1 = upd_rsp (\<lambda>r. r\<lparr>sendBuffer := sb\<rparr>) c"
  define c' where "c' = upd_rsp (\<lambda>r. r\<lparr>sendBuffer := sb', dwOperStage := (if i = length xs then STAGE_END else of_nat k + of_nat i)\<rparr>) c1"
  have w: "c_wr (sendBuffer (ctxResponse c)) base NUL = Some sb" using lt by (simp add: c_wr_def sb_def)
  have g: "requestMethod c1 = METHOD_GET" "dwOperStage (ctxResponse c1) = of_nat k" using assms(1,2) by (simp_all add: c1_def upd_rsp_def)
  have e: "SSDP_Sending base m c w = Some (int (length t'), c', w)"
    unfolding SSDP_Sending_def w Option.bind.bind_lunit Let_def c1_def [symmetric] g ns(2) xs_def [symmetric] i(1) case_prod_conv
      c'_def [symmetric]
    using assms(1) ns(1) by simp
  have c': "sendBuffer (ctxResponse c') = sb'" "requestMethod c' = METHOD_GET"
    "dwOperStage (ctxResponse c') = (if k + i = 17 then STAGE_END else of_nat (k + i))"
    using g(1) len assms(3) by (auto simp: c'_def upd_rsp_def)
  have j: "k < k + i" "k + i \<le> 17" using i(2,6) len assms(3) by auto
  have "length sb' = length (sendBuffer (ctxResponse c))" using i(5) by (simp add: sb_def)
  moreover have "base + length t' \<le> length sb'" using i(4) by (elim c_str_parts) auto
  ultimately show ?thesis using e c' j out i(7)
    by (intro exI [of _ "int (length t')"] exI [of _ c'] exI [of _ "k + i"]) (simp add: xs_def)
qed

text \<open>
  The description of the device is sent completely: whatever block size of at least 128 bytes the
  response engine asks for, the blocks of at most 17 successive calls are the 17 pieces of the document,
  in order and without a gap, and the last call sets the final stage.
\<close>

theorem device_description_complete:
  assumes "requestMethod c = METHOD_GET" and "dwOperStage (ctxResponse c) = 0"
    and "int base + m \<le> int (length (sendBuffer (ctxResponse c)))" and "128 \<le> m"
  shows "\<exists>c'. xml_blocks 17 base m c w = Some (concat (ssdp_pieces (w_dev w)), c', w) \<and>
    dwOperStage (ctxResponse c') = STAGE_END"
proof -
  have "\<exists>c'. xml_blocks n base m c w = Some (concat (drop k (ssdp_pieces (w_dev w))), c', w) \<and>
      dwOperStage (ctxResponse c') = STAGE_END"
    if "requestMethod c = METHOD_GET" "dwOperStage (ctxResponse c) = (if k = 17 then STAGE_END else of_nat k)" "k \<le> 17" "17 \<le> n + k"
      "int base + m \<le> int (length (sendBuffer (ctxResponse c)))" for n k c
    using that
  proof (induction n arbitrary: k c)
    case 0
    then show ?case using ssdp_pieces_ok(2) [of "w_dev w"] by simp
  next
    case (Suc n)
    show ?case
    proof (cases "k = 17")
      case True
      with Suc.prems show ?thesis using ssdp_pieces_ok(2) [of "w_dev w"] by simp
    next
      case False
      with Suc.prems have k: "dwOperStage (ctxResponse c) = of_nat k" "k < 17" by auto
      from SSDP_Sending_block [OF Suc.prems(1) k Suc.prems(5) assms(4), of w] obtain i c1 j where
        b: "SSDP_Sending base m c w = Some (i, c1, w)" "k < j" "j \<le> 17"
          "take (nat i) (drop base (sendBuffer (ctxResponse c1))) @ concat (drop j (ssdp_pieces (w_dev w))) = concat (drop k (ssdp_pieces (w_dev w)))"
          "dwOperStage (ctxResponse c1) = (if j = 17 then STAGE_END else of_nat j)" "requestMethod c1 = METHOD_GET"
          "length (sendBuffer (ctxResponse c1)) = length (sendBuffer (ctxResponse c))" by blast
      have "of_nat k \<noteq> STAGE_END" using k(2) by (auto simp: STAGE_END_def unsigned_of_nat take_bit_nat_eq_self word_unat_eq_iff)
      with Suc.IH [OF b(6,5,3)] b Suc.prems k show ?thesis by auto
    qed
  qed
  from this [of c 0 17] assms show ?thesis by simp
qed

theorem device_description_complete_witness:
  "\<forall>w. \<exists>c'. xml_blocks 17 200 300 ((zeroContext 0)\<lparr>requestMethod := METHOD_GET\<rparr>) w =
     Some (concat (ssdp_pieces (w_dev w)), c', w)"
proof
  fix w
  have "requestMethod ((zeroContext 0)\<lparr>requestMethod := METHOD_GET\<rparr>) = METHOD_GET"
    "dwOperStage (ctxResponse ((zeroContext 0)\<lparr>requestMethod := METHOD_GET\<rparr>)) = 0"
    "int 200 + 300 \<le> int (length (sendBuffer (ctxResponse ((zeroContext 0)\<lparr>requestMethod := METHOD_GET\<rparr>))))"
    "(128 :: int) \<le> 300"
    by (simp_all add: zeroContext_def zeroResponse_def MAX_SEND_BUF_SIZE_def TCP_MSS_def)
  from device_description_complete [OF this, of w]
  show "\<exists>c'. xml_blocks 17 200 300 ((zeroContext 0)\<lparr>requestMethod := METHOD_GET\<rparr>) w =
     Some (concat (ssdp_pieces (w_dev w)), c', w)" by blast
qed

end
