(* ===== verification/Cgi.thy ===== *)
theory Cgi
  imports Auth Form Upload FileList DeviceXml
begin

text \<open>
  \<^verbatim>\<open>httpd/http_cgi.c\<close>: the list of mappings, the choice of the handler of a request and the
  calls of the handler. The six static structures (\<open>g_cgiSSDP\<close> and so on) are the values of
  \<^typ>\<open>cgi_id\<close>; each function pointer of the structure is a function of the handler that is
  \<^const>\<open>None\<close> where the source has \<^verbatim>\<open>NULL\<close>.
\<close>

section \<open>The static structures\<close>

definition path_buf :: "string \<Rightarrow> cbuf" where
  "path_buf p = take MAX_CGI_PATH (p @ replicate MAX_CGI_PATH NUL)"

definition static_mapping :: "cgi_id \<Rightarrow> CGI_Mapping" where
  "static_mapping h = (case h of
     g_cgiSSDP \<Rightarrow> \<lparr>map_id = h, map_path = path_buf ''/upnp_device.xml'',
        optionsAllowed = or CGI_OPT_GET_ENABLED CGI_OPT_CHUNK_ENABLED\<rparr>
   | g_cgiAuth \<Rightarrow> \<lparr>map_id = h, map_path = path_buf ''/auth/*'',
        optionsAllowed = or CGI_OPT_GET_ENABLED CGI_OPT_POST_ENABLED\<rparr>
   | g_cgiForm \<Rightarrow> \<lparr>map_id = h, map_path = path_buf ''/app/form.shtml'',
        optionsAllowed = or CGI_OPT_AUTH_REQUIRED (or CGI_OPT_GET_ENABLED CGI_OPT_POST_ENABLED)\<rparr>
   | g_cgiFiles \<Rightarrow> \<lparr>map_id = h, map_path = path_buf ''/api/files.cgi'',
        optionsAllowed = or CGI_OPT_AUTH_REQUIRED CGI_OPT_GET_ENABLED\<rparr>
   | g_cgiUpload \<Rightarrow> \<lparr>map_id = h, map_path = path_buf ''/api/upload.cgi'',
        optionsAllowed = or CGI_OPT_AUTH_REQUIRED CGI_OPT_POST_ENABLED\<rparr>
   | g_cgiWebApp \<Rightarrow> \<lparr>map_id = h, map_path = path_buf ''/app/*'',
        optionsAllowed = or CGI_OPT_AUTH_REQUIRED CGI_OPT_GET_ENABLED\<rparr>)"

definition OnCancel :: "cgi_id \<Rightarrow> (REQUEST_CONTEXT \<Rightarrow> REQUEST_CONTEXT) option" where
  "OnCancel h = (case h of g_cgiUpload \<Rightarrow> Some Upload_OnCancel | _ \<Rightarrow> None)"

definition OnHeaderReceived ::
  "cgi_id \<Rightarrow> (cbuf \<Rightarrow> REQUEST_CONTEXT \<Rightarrow> world \<Rightarrow> (int \<times> cbuf \<times> REQUEST_CONTEXT \<times> world) option) option" where
  "OnHeaderReceived h = (case h of g_cgiUpload \<Rightarrow> Some Upload_OnHeaderReceived | _ \<Rightarrow> None)"

definition OnHeadersReceived ::
  "cgi_id \<Rightarrow> (REQUEST_CONTEXT \<Rightarrow> world \<Rightarrow> (REQUEST_CONTEXT \<times> world) option) option" where
  "OnHeadersReceived h = (case h of
     g_cgiAuth \<Rightarrow> Some (\<lambda>c w. Some (Auth_OnHeaders c, w))
   | g_cgiForm \<Rightarrow> Some (\<lambda>c w. Some (Form_OnHeadersReceived c w))
   | g_cgiUpload \<Rightarrow> Some Upload_OnHeadersReceived
   | _ \<Rightarrow> None)"

definition OnContentReceived ::
  "cgi_id \<Rightarrow> (cbuf \<Rightarrow> int \<Rightarrow> REQUEST_CONTEXT \<Rightarrow> world \<Rightarrow> (int \<times> REQUEST_CONTEXT \<times> world) option) option" where
  "OnContentReceived h = (case h of
     g_cgiAuth \<Rightarrow> Some (\<lambda>b n c w. map_option (\<lambda>(k, c). (k, c, w)) (Auth_OnPostData b n c))
   | g_cgiForm \<Rightarrow> Some WEB_OnFormReceived
   | g_cgiUpload \<Rightarrow> Some Upload_OnContentReceived
   | _ \<Rightarrow> None)"

definition OnRequestReceived ::
  "cgi_id \<Rightarrow> (REQUEST_CONTEXT \<Rightarrow> world \<Rightarrow> (REQUEST_CONTEXT \<times> world) option) option" where
  "OnRequestReceived h = (case h of
     g_cgiAuth \<Rightarrow> Some Auth_OnRequestReceived
   | g_cgiForm \<Rightarrow> Some Form_OnRequestReceived
   | g_cgiFiles \<Rightarrow> Some Files_OnRequestReceived
   | g_cgiUpload \<Rightarrow> Some Upload_AllReceived
   | g_cgiWebApp \<Rightarrow> Some WEB_RequestReceived
   | g_cgiSSDP \<Rightarrow> None)"

definition SetResponseHeaders ::
  "cgi_id \<Rightarrow> (string \<Rightarrow> REQUEST_CONTEXT \<Rightarrow> world \<Rightarrow> (REQUEST_CONTEXT \<times> world) option) option" where
  "SetResponseHeaders h = (case h of
     g_cgiSSDP \<Rightarrow> Some SSDP_SendHeader
   | g_cgiAuth \<Rightarrow> Some Auth_SetResponseHeaders
   | g_cgiForm \<Rightarrow> Some Form_SetResponseHeaders
   | g_cgiFiles \<Rightarrow> Some Files_SetResponseHeader
   | g_cgiWebApp \<Rightarrow> Some WEB_AppendHeaders
   | g_cgiUpload \<Rightarrow> None)"

definition ReadContent ::
  "cgi_id \<Rightarrow> (nat \<Rightarrow> int \<Rightarrow> REQUEST_CONTEXT \<Rightarrow> world \<Rightarrow> (int \<times> REQUEST_CONTEXT \<times> world) option) option" where
  "ReadContent h = (case h of
     g_cgiSSDP \<Rightarrow> Some SSDP_Sending
   | g_cgiFiles \<Rightarrow> Some Files_ReadOneFileInfo
   | g_cgiUpload \<Rightarrow> None
   | _ \<Rightarrow> Some WEB_ReadContent)"

definition OnAllSent ::
  "cgi_id \<Rightarrow> (REQUEST_CONTEXT \<Rightarrow> world \<Rightarrow> (REQUEST_CONTEXT \<times> world) option) option" where
  "OnAllSent h = (case h of
     g_cgiAuth \<Rightarrow> Some WEB_AllSent
   | g_cgiForm \<Rightarrow> Some Form_AllSent
   | g_cgiWebApp \<Rightarrow> Some WEB_AllSent
   | _ \<Rightarrow> None)"

definition OnFinished ::
  "cgi_id \<Rightarrow> (REQUEST_CONTEXT \<Rightarrow> world \<Rightarrow> (REQUEST_CONTEXT \<times> world) option) option" where
  "OnFinished h = (case h of
     g_cgiAuth \<Rightarrow> Some WEB_Finished | g_cgiWebApp \<Rightarrow> Some WEB_Finished | _ \<Rightarrow> None)"

section \<open>The list of mappings\<close>

text \<open>The path is cut at a star, which makes the mapping a prefix.\<close>

definition wildcard :: "CGI_Mapping \<Rightarrow> CGI_Mapping option" where
  "wildcard m =
     do { p \<leftarrow> c_str (map_path m) 0;
          case c_strchr p CHR ''*'' of
            None \<Rightarrow> Some m
          | Some i \<Rightarrow> do { b \<leftarrow> c_wr (map_path m) i NUL;
                          Some (m\<lparr>map_path := b,
                                  optionsAllowed := or (optionsAllowed m) CGI_OPT_PREFIX_WILDCARD\<rparr>) } }"

definition CGI_Append ::
  "CGI_Mapping \<Rightarrow> string option \<Rightarrow> u32 \<Rightarrow> CGI_Mapping list \<Rightarrow> CGI_Mapping list option" where
  "CGI_Append newMapping ovwPath ovwOptions g_cgiMapping =
     do { b \<leftarrow> (case ovwPath of
              None \<Rightarrow> Some (map_path newMapping)
            | Some p \<Rightarrow> c_strncpy (c_memset0 (map_path newMapping)) 0 p (MAX_CGI_PATH - 1));
          let m = newMapping\<lparr>map_path := b,
            optionsAllowed := (if ovwOptions \<noteq> 0 then ovwOptions else optionsAllowed newMapping)\<rparr>;
          m \<leftarrow> wildcard m;
          Some (g_cgiMapping @ [m]) }"

definition CGI_SetupMapping :: "CGI_Mapping list option" where
  "CGI_SetupMapping =
     do { l \<leftarrow> CGI_Append (static_mapping g_cgiSSDP) (Some ''/upnp_device.xml'')
                 (or CGI_OPT_GET_ENABLED CGI_OPT_CHUNK_ENABLED) [];
          l \<leftarrow> CGI_Append (static_mapping g_cgiAuth) (Some ''/auth/*'')
                 (or CGI_OPT_GET_ENABLED CGI_OPT_POST_ENABLED) l;
          l \<leftarrow> CGI_Append (static_mapping g_cgiForm) (Some ''/app/form.shtml'')
                 (or CGI_OPT_AUTH_REQUIRED (or CGI_OPT_GET_ENABLED CGI_OPT_POST_ENABLED)) l;
          l \<leftarrow> CGI_Append (static_mapping g_cgiFiles) (Some ''/api/files.cgi'')
                 (or CGI_OPT_AUTH_REQUIRED (or CGI_OPT_GET_ENABLED CGI_OPT_CHUNK_ENABLED)) l;
          l \<leftarrow> CGI_Append (static_mapping g_cgiUpload) (Some ''/api/upload.cgi'')
                 (or CGI_OPT_AUTH_REQUIRED CGI_OPT_POST_ENABLED) l;
          CGI_Append (static_mapping g_cgiWebApp) (Some ''/app/*'')
                 (or CGI_OPT_AUTH_REQUIRED CGI_OPT_GET_ENABLED) l }"

text \<open>The first mapping that matches the path.\<close>

fun find_mapping :: "string \<Rightarrow> CGI_Mapping list \<Rightarrow> CGI_Mapping option option" where
  "find_mapping req [] = Some None"
| "find_mapping req (m # ms) =
     do { p \<leftarrow> c_str (map_path m) 0;
          if opt_set (optionsAllowed m) CGI_OPT_PREFIX_WILDCARD
          then (if length p \<le> length req \<and> Strnicmp req p (length p) = 0 then Some (Some m)
                else find_mapping req ms)
          else (if length req = length p \<and> Strnicmp req p (length p) = 0 then Some (Some m)
                else find_mapping req ms) }"

text \<open>Without a match only the handler is cleared; the options keep their old value.\<close>

definition CGI_SetCgiHandler :: "CGI_Mapping list \<Rightarrow> REQUEST_CONTEXT \<Rightarrow> REQUEST_CONTEXT option" where
  "CGI_SetCgiHandler g_cgiMapping c =
     do { req \<leftarrow> c_str (requestPath c) 0;
          m \<leftarrow> find_mapping req g_cgiMapping;
          Some (case m of
              None \<Rightarrow> c\<lparr>handler := None\<rparr>
            | Some m \<Rightarrow> c\<lparr>handler := Some (map_id m), options := optionsAllowed m\<rparr>) }"

section \<open>Calls of the handler\<close>

definition CGI_Cancel :: "REQUEST_CONTEXT \<Rightarrow> REQUEST_CONTEXT" where
  "CGI_Cancel c = (case Option.bind (handler c) OnCancel of None \<Rightarrow> c | Some f \<Rightarrow> f c)"

definition CGI_Finish :: "REQUEST_CONTEXT \<Rightarrow> world \<Rightarrow> (REQUEST_CONTEXT \<times> world) option" where
  "CGI_Finish c w = (case Option.bind (handler c) OnFinished of None \<Rightarrow> Some (c, w) | Some f \<Rightarrow> f c w)"

definition CGI_HeaderReceived ::
  "cbuf \<Rightarrow> REQUEST_CONTEXT \<Rightarrow> world \<Rightarrow> (int \<times> cbuf \<times> REQUEST_CONTEXT \<times> world) option" where
  "CGI_HeaderReceived line c w = (case Option.bind (handler c) OnHeaderReceived of
     None \<Rightarrow> Some (0, line, c, w) | Some f \<Rightarrow> f line c w)"

text \<open>What remains for a request that no handler takes: redirection or an error.\<close>

definition no_handler :: "REQUEST_CONTEXT \<Rightarrow> world \<Rightarrow> (REQUEST_CONTEXT \<times> world) option" where
  "no_handler c w =
     (if result c < 0 then Some (c, w)
      else do {
        req \<leftarrow> c_str (requestPath c) 0;
        ext \<leftarrow> c_str (extension c) 0;
        if 0 < httpsListening w \<and> https c = 0 \<and> Strnicmp req ''upnp_device.xml'' 15 \<noteq> 0
        then do { c \<leftarrow> redirect_to (''https://'' @ dotted (GetMyIP (w_dev w)) @ ''/'') 0 c; Some (c, w) }
        else if SessionTypes ext \<and> handler c = None
        then do { c \<leftarrow> redirect_to WEB_DEFAULT_PAGE 0 c; Some (c, w) }
        else Some (c\<lparr>result := (if requestMethod c = METHOD_GET then -404 else -500)\<rparr>, w) })"

definition CGI_HeadersReceived :: "REQUEST_CONTEXT \<Rightarrow> world \<Rightarrow> (REQUEST_CONTEXT \<times> world) option" where
  "CGI_HeadersReceived c w = (case handler c of
       None \<Rightarrow> no_handler c w
     | Some h \<Rightarrow>
         if opt_set (options c) CGI_OPT_AUTH_REQUIRED \<and> authorized (ctxResponse c) \<noteq> CODE_OK
         then Some (c\<lparr>result := authorized (ctxResponse c)\<rparr>, w)
         else if (requestMethod c = METHOD_GET \<and> opt_set (options c) CGI_OPT_GET_ENABLED) \<or>
                 (requestMethod c = METHOD_POST \<and> opt_set (options c) CGI_OPT_POST_ENABLED)
         then (case OnHeadersReceived h of None \<Rightarrow> Some (c, w) | Some f \<Rightarrow> f c w)
         else no_handler c w)"

definition CGI_ContentReceived ::
  "cbuf \<Rightarrow> int \<Rightarrow> REQUEST_CONTEXT \<Rightarrow> world \<Rightarrow> (int \<times> REQUEST_CONTEXT \<times> world) option" where
  "CGI_ContentReceived buffer sz c w = (case Option.bind (handler c) OnContentReceived of
     None \<Rightarrow> Some (0, c, w) | Some f \<Rightarrow> f buffer sz c w)"

definition CGI_RequestReceived :: "REQUEST_CONTEXT \<Rightarrow> world \<Rightarrow> (REQUEST_CONTEXT \<times> world) option" where
  "CGI_RequestReceived c w = (case Option.bind (handler c) OnRequestReceived of
     None \<Rightarrow> Some (c, w) | Some f \<Rightarrow> f c w)"

section \<open>The response\<close>

definition redirect_body1 :: string where
  "redirect_body1 = ''<html><head/><body><script>location.href='' @ [CHR 0x27]"
definition redirect_body2 :: string where
  "redirect_body2 = [CHR 0x27] @ '';</script></body></html>''"

text \<open>\<^verbatim>\<open>sprintf_s\<close> ends the program when the text and its terminator do not fit.\<close>

definition getClock :: "world \<Rightarrow> nat \<Rightarrow> string option" where
  "getClock w maxSize =
     (let s = gmt4http (w_time w) in if length s + 1 \<le> maxSize - 1 then Some s else None)"

definition CGI_SetResponseHeaders ::
  "string \<Rightarrow> REQUEST_CONTEXT \<Rightarrow> world \<Rightarrow> (REQUEST_CONTEXT \<times> world) option" where
  "CGI_SetResponseHeaders info c w =
     do { sb \<leftarrow> c_wr (sendBuffer (ctxResponse c)) 0 NUL;
          rp \<leftarrow> c_str (responsePath c) 0;
          sb \<leftarrow> (if result c = CODE_REDIRECT
             then c_strcpy sb 0 (header_generic ''200 OK'' ''text/html''
                    (int (length redirect_body1 + length redirect_body2 + length rp)) ''close'')
             else Some sb);
          let c = upd_rsp (\<lambda>r. r\<lparr>sendBuffer := sb\<rparr>) c;
          (c, w) \<leftarrow> (case Option.bind (handler c) SetResponseHeaders of
              None \<Rightarrow> Some (c, w) | Some f \<Rightarrow> f info c w);
          first \<leftarrow> c_rd (sendBuffer (ctxResponse c)) 0;
          sb \<leftarrow> (if first = NUL
             then c_strcpy (sendBuffer (ctxResponse c)) 0 (header_generic info ''text/html'' 0 CONNECTION_HEADER)
             else Some (sendBuffer (ctxResponse c)));
          date \<leftarrow> c_strncpy (replicate 40 NUL) 0 ''Date: '' 10;
          clock \<leftarrow> getClock w 32;
          date \<leftarrow> c_strcpy date 6 clock;
          date \<leftarrow> c_strcat date CRLF;
          d \<leftarrow> c_str date 0;
          sb \<leftarrow> c_strcat sb d;
          sb \<leftarrow> c_strcat sb ''Server: '';
          sb \<leftarrow> c_strcat sb SERVER_HEADER;
          sb \<leftarrow> c_strcat sb CRLF;
          sb \<leftarrow> c_strcat sb CRLF;
          rp \<leftarrow> c_str (responsePath c) 0;
          sb \<leftarrow> (if result c = CODE_REDIRECT
             then do { sb \<leftarrow> c_strcat sb redirect_body1; sb \<leftarrow> c_strcat sb rp; c_strcat sb redirect_body2 }
             else Some sb);
          sent \<leftarrow> c_str sb 0;
          Some (upd_rsp (\<lambda>r. r\<lparr>sendBuffer := sb, bytesLeft := int (length sent)\<rparr>) c, w) }"

text \<open>
  The frame of a chunk around the \<open>n\<close> bytes at \<open>off + 10\<close>: the length in front of them, the
  last chunk behind them when it is \<open>final\<close>, and all of it moved to \<open>off\<close>.
\<close>

definition last_chunk :: string where "last_chunk = CRLF @ ''0'' @ CRLF @ CRLF"

definition frame_chunk :: "nat \<Rightarrow> bool \<Rightarrow> bool \<Rightarrow> nat \<Rightarrow> cbuf \<Rightarrow> (nat \<times> cbuf) option" where
  "frame_chunk off first final n sb =
     do { let szSize = (if first then [] else CRLF) @ fmt_X n @ CRLF;
          let prefixLen = length szSize;
          if 10 < prefixLen then None
          else do {
            sb \<leftarrow> c_cpy sb (off + 10 - prefixLen) szSize;
            let n = n + prefixLen;
            (n, sb) \<leftarrow> (if final
               then do { sb \<leftarrow> c_cpy sb (off + 10 - prefixLen + n) last_chunk; Some (n + 7, sb) }
               else Some (n, sb));
            sb \<leftarrow> c_memmove sb off (off + 10 - prefixLen) n;
            Some (n, sb) } }"

text \<open>1 when there is data to send, 0 when there is none for now, -1 at the end.\<close>

definition CGI_LoadContentToSend ::
  "proc_caller \<Rightarrow> REQUEST_CONTEXT \<Rightarrow> world \<Rightarrow> (int \<times> REQUEST_CONTEXT \<times> world) option" where
  "CGI_LoadContentToSend caller c w =
     (let r = ctxResponse c
      in if (requestMethod c = METHOD_GET \<or> requestMethod c = METHOD_POST) \<and>
            dwOperStage r = STAGE_END \<and> caller = HTTP_PROC_CALLER_SENT \<and> total2Send r \<le> totalSent r
         then (case handler c of
             None \<Rightarrow> None
           | Some h \<Rightarrow> (case OnAllSent h of
                 None \<Rightarrow> Some (-1, c, w)
               | Some f \<Rightarrow> do { (c, w) \<leftarrow> f c w; Some (-1, c, w) }))
         else case Option.bind (handler c) ReadContent of
           None \<Rightarrow> Some (-1, c, w)
         | Some read \<Rightarrow>
             if dwOperStage r = STAGE_END then Some (0, c, w)
             else if bytesLeft r < 0 then None
             else
               let off = nat (bytesLeft r); nFreeSize = sendMaxBlock r - bytesLeft r - 2
               in if \<not> opt_set (options c) CGI_OPT_CHUNK_ENABLED
                  then do {
                    (n, c, w) \<leftarrow> read off nFreeSize c w;
                    if n < 0 then Some (-1, upd_rsp (\<lambda>r. r\<lparr>dwOperStage := STAGE_END\<rparr>) c, w)
                    else Some (if n = 0 then 0 else 1,
                               upd_rsp (\<lambda>r. r\<lparr>bytesLeft := bytesLeft r + n\<rparr>) c, w) }
                  else do {
                    let first = (dwOperStage r = 0 \<and> dwOperIndex r = 0);
                    (n, c, w) \<leftarrow> read (off + 10) (nFreeSize - 10) c w;
                    if 0 < n
                    then do {
                      (m, sb) \<leftarrow> frame_chunk off first (dwOperStage (ctxResponse c) = STAGE_END) (nat n)
                                  (sendBuffer (ctxResponse c));
                      Some (1, upd_rsp (\<lambda>r. r\<lparr>sendBuffer := sb, bytesLeft := bytesLeft r + int m\<rparr>) c, w) }
                    else Some (if n < 0 then -1 else 0, c, w) })"

section \<open>Routing\<close>

text \<open>
  What the routing promises: the first line of this table that fits, letters compared without
  their case, a star standing for any rest.
\<close>

definition routes :: "(cgi_id \<times> bool \<times> string \<times> u32) list" where
  "routes =
     [(g_cgiSSDP, False, ''/upnp_device.xml'', or CGI_OPT_GET_ENABLED CGI_OPT_CHUNK_ENABLED),
      (g_cgiAuth, True, ''/auth/'', or CGI_OPT_GET_ENABLED CGI_OPT_POST_ENABLED),
      (g_cgiForm, False, ''/app/form.shtml'',
         or CGI_OPT_AUTH_REQUIRED (or CGI_OPT_GET_ENABLED CGI_OPT_POST_ENABLED)),
      (g_cgiFiles, False, ''/api/files.cgi'',
         or CGI_OPT_AUTH_REQUIRED (or CGI_OPT_GET_ENABLED CGI_OPT_CHUNK_ENABLED)),
      (g_cgiUpload, False, ''/api/upload.cgi'', or CGI_OPT_AUTH_REQUIRED CGI_OPT_POST_ENABLED),
      (g_cgiWebApp, True, ''/app/'', or CGI_OPT_AUTH_REQUIRED CGI_OPT_GET_ENABLED)]"

definition fits :: "string \<Rightarrow> cgi_id \<times> bool \<times> string \<times> u32 \<Rightarrow> bool" where
  "fits req r = (case r of (h, wild, p, opts) \<Rightarrow>
     if wild then prefix (map ToUpper p) (map ToUpper req) else map ToUpper req = map ToUpper p)"

definition mapping_of :: "cgi_id \<times> bool \<times> string \<times> u32 \<Rightarrow> CGI_Mapping" where
  "mapping_of r = (case r of (h, wild, p, opts) \<Rightarrow>
     \<lparr>map_id = h, map_path = path_buf p,
      optionsAllowed = (if wild then or opts CGI_OPT_PREFIX_WILDCARD else opts)\<rparr>)"

lemma CGI_SetupMapping_routes: "CGI_SetupMapping = Some (map mapping_of routes)"
  by code_simp

definition wf_route :: "cgi_id \<times> bool \<times> string \<times> u32 \<Rightarrow> bool" where
  "wf_route r = (case r of (h, wild, p, opts) \<Rightarrow>
     NUL \<notin> set p \<and> length p < MAX_CGI_PATH \<and> \<not> opt_set opts CGI_OPT_PREFIX_WILDCARD)"

lemma wf_routes: "list_all wf_route routes"
  by code_simp

lemma path_buf_str: "NUL \<notin> set p \<Longrightarrow> length p < MAX_CGI_PATH \<Longrightarrow> c_str (path_buf p) 0 = Some p"
  using c_str_app [of p "replicate (MAX_CGI_PATH - Suc (length p)) NUL"]
  by (simp add: path_buf_def MAX_CGI_PATH_def replicate_app_Cons_same flip: replicate_Suc)
    (metis Suc_diff_Suc c_str_app replicate_Suc)

lemma wild_set: "opt_set (or opts CGI_OPT_PREFIX_WILDCARD) CGI_OPT_PREFIX_WILDCARD"
proof -
  have "and (or opts CGI_OPT_PREFIX_WILDCARD) CGI_OPT_PREFIX_WILDCARD = CGI_OPT_PREFIX_WILDCARD"
    by (simp add: and.commute)
  then show ?thesis by (simp add: opt_set_def CGI_OPT_PREFIX_WILDCARD_def)
qed

lemma fits_prefix:
  "(length p \<le> length req \<and> Strnicmp req p (length p) = 0) \<longleftrightarrow> prefix (map ToUpper p) (map ToUpper req)"
proof
  assume "length p \<le> length req \<and> Strnicmp req p (length p) = 0"
  then have "map ToUpper p = take (length p) (map ToUpper req)" by (simp add: Strnicmp_zero_iff take_map)
  then show "prefix (map ToUpper p) (map ToUpper req)" by (metis take_is_prefix)
next
  assume "prefix (map ToUpper p) (map ToUpper req)"
  then obtain t where t: "map ToUpper req = map ToUpper p @ t" by (auto simp: prefix_def)
  then have "length req = length p + length t" by (metis length_append length_map)
  with t show "length p \<le> length req \<and> Strnicmp req p (length p) = 0"
    by (simp add: Strnicmp_zero_iff flip: take_map)
qed

lemma fits_full:
  "(length req = length p \<and> Strnicmp req p (length p) = 0) \<longleftrightarrow> map ToUpper req = map ToUpper p"
  using map_eq_imp_length_eq [of ToUpper req ToUpper p] by (auto simp: Strnicmp_zero_iff)

lemma find_mapping_find:
  "list_all wf_route rs \<Longrightarrow>
   find_mapping req (map mapping_of rs) = Some (map_option mapping_of (find (fits req) rs))"
proof (induction rs)
  case (Cons r rs)
  obtain h wild p opts where r: "r = (h, wild, p, opts)" by (cases r) auto
  with Cons.prems have p: "c_str (path_buf p) 0 = Some p" and o: "\<not> opt_set opts CGI_OPT_PREFIX_WILDCARD"
    by (auto simp: wf_route_def path_buf_str)
  show ?case
    using Cons by (cases wild) (auto simp: r mapping_of_def p o wild_set fits_def fits_prefix fits_full)
qed simp

text \<open>
  C7. The routing: with the mappings of the setup, \<open>CGI_SetCgiHandler\<close> chooses the handler of
  the first line of the table \<open>routes\<close> that fits the path of the request, whatever the case of
  its letters, and takes over the options of that line; without a line that fits there is no
  handler, and the options of the request before stay in force.
\<close>

theorem CGI_SetCgiHandler_routes:
  assumes "CGI_SetupMapping = Some l" and "c_str (requestPath c) 0 = Some req"
  shows "CGI_SetCgiHandler l c = Some (case find (fits req) routes of
           None \<Rightarrow> c\<lparr>handler := None\<rparr>
         | Some r \<Rightarrow> c\<lparr>handler := Some (map_id (mapping_of r)), options := optionsAllowed (mapping_of r)\<rparr>)"
proof -
  from assms(1) have l: "l = map mapping_of routes" by (simp add: CGI_SetupMapping_routes)
  show ?thesis
    using find_mapping_find [OF wf_routes, of req] assms(2)
    by (simp add: CGI_SetCgiHandler_def l split: option.split)
qed

definition demo_request :: "string \<Rightarrow> REQUEST_CONTEXT" where
  "demo_request p = (zeroContext 0)\<lparr>requestPath := p @ replicate (128 - length p) NUL\<rparr>"

lemma demo_request_path: "NUL \<notin> set p \<Longrightarrow> length p < 128 \<Longrightarrow> c_str (requestPath (demo_request p)) 0 = Some p"
  by (cases "128 - length p") (simp_all add: demo_request_def c_str_app)

theorem CGI_SetCgiHandler_routes_witness:
  "\<exists>l c1 c2. CGI_SetupMapping = Some l \<and>
     CGI_SetCgiHandler l (demo_request ''/APP/Form.shtml'') = Some c1 \<and> handler c1 = Some g_cgiForm \<and>
     CGI_SetCgiHandler l (demo_request ''/index.html'') = Some c2 \<and> handler c2 = None"
proof -
  have 1: "find (fits ''/APP/Form.shtml'') routes = Some (routes ! 2)"
    and 2: "find (fits ''/index.html'') routes = None"
    and 3: "map_id (mapping_of (routes ! 2)) = g_cgiForm"
    by code_simp+
  note r = CGI_SetCgiHandler_routes [OF CGI_SetupMapping_routes demo_request_path]
  show ?thesis
    using r [of "''/APP/Form.shtml''"] r [of "''/index.html''"]
    by (simp add: CGI_SetupMapping_routes 1 2 3)
qed

section \<open>Chunks\<close>

lemma c_cpy_at: "length P = length Z \<Longrightarrow> c_cpy (A @ P @ R) (length A) Z = Some (A @ Z @ R)"
  by (simp add: c_cpy_def)

lemma c_bytes_at: "c_bytes (A @ D @ R) (length A) (length D) = Some D"
  by (simp add: c_bytes_def)

lemma c_memmove_front:
  "length A = a + b \<Longrightarrow> c_memmove (A @ D @ R) a (length A) (length D) =
     Some (take a A @ D @ drop (a + length D) (A @ D @ R))"
  unfolding c_memmove_def c_bytes_at by (simp add: c_cpy_def)

text \<open>The text of a chunk, and of the end of the body behind the last one.\<close>

definition chunk_text :: "bool \<Rightarrow> bool \<Rightarrow> char list \<Rightarrow> string" where
  "chunk_text first final d =
     (if first then [] else CRLF) @ fmt_X (length d) @ CRLF @ d @ (if final then last_chunk else [])"

definition size_line :: "bool \<Rightarrow> nat \<Rightarrow> string" where
  "size_line first n = (if first then [] else CRLF) @ fmt_X n @ CRLF"

lemma length_fmt_X_le: "n < 16 ^ k \<Longrightarrow> 0 < k \<Longrightarrow> length (fmt_X n) \<le> k"
  unfolding fmt_X_def by (rule length_fmt_nat_le) auto

lemma split4:
  assumes "i + p + n + t \<le> length sb"
  obtains A P D T R where "sb = A @ P @ D @ T @ R" "length A = i" "length P = p" "length D = n" "length T = t"
proof
  show "sb = take i sb @ take p (drop i sb) @ take n (drop (i + p) sb) @ take t (drop (i + p + n) sb) @
      drop (i + p + n + t) sb"
    by (metis append_take_drop_id drop_drop add.commute)
qed (use assms in auto)

lemma frame_chunk_frames:
  assumes n: "0 < n" "n < 65536"
    and room: "off + 10 + n + (if final then 7 else 0) \<le> length sb"
  shows "\<exists>sb'. frame_chunk off first final n sb =
           Some (length (chunk_text first final (take n (drop (off + 10) sb))), sb') \<and>
         length sb' = length sb \<and> take off sb' = take off sb \<and>
         prefix (chunk_text first final (take n (drop (off + 10) sb))) (drop off sb')"
proof -
  define Z where "Z = size_line first n"
  have "n < 16 ^ 4" using n by simp
  from length_fmt_X_le [OF this] have Z: "length Z \<le> 8" by (simp add: Z_def size_line_def)
  define L where "L = (if final then last_chunk else [])"
  have L: "length L = (if final then 7 else 0)" by (simp add: L_def last_chunk_def)
  from room Z L have "(off + 10 - length Z) + length Z + n + length L \<le> length sb" by simp
  then obtain A P D T R where sb: "sb = A @ P @ D @ T @ R" and A: "length A = off + 10 - length Z"
    and P: "length P = length Z" and D: "length D = n" and T: "length T = length L"
    by (rule split4)
  have d: "take n (drop (off + 10) sb) = D" using Z by (simp add: sb A P D)
  define M where "M = Z @ D @ L"
  have M: "chunk_text first final D = M"
    by (simp add: M_def Z_def L_def chunk_text_def size_line_def D)
  have s1: "c_cpy sb (off + 10 - length Z) Z = Some (A @ Z @ D @ T @ R)"
    unfolding sb A [symmetric] by (rule c_cpy_at) (simp add: P)
  have s2: "(if final then do { sb \<leftarrow> c_cpy (A @ Z @ D @ T @ R) (off + 10 - length Z + (n + length Z)) last_chunk;
                               Some (n + length Z + 7, sb) }
             else Some (n + length Z, A @ Z @ D @ T @ R)) = Some (length M, A @ M @ R)"
  proof (cases final)
    case True
    then have "c_cpy ((A @ Z @ D) @ T @ R) (length (A @ Z @ D)) last_chunk = Some ((A @ Z @ D) @ last_chunk @ R)"
      by (intro c_cpy_at) (simp add: T L_def)
    with True A D L show ?thesis by (simp add: M_def L_def add.commute add.left_commute last_chunk_def)
  next
    case False
    then show ?thesis using T D by (simp add: M_def L_def)
  qed
  have "length A = off + (10 - length Z)" using Z by (simp add: A)
  from c_memmove_front [OF this, of M R]
  have s3: "c_memmove (A @ M @ R) off (off + 10 - length Z) (length M) =
      Some (take off A @ M @ drop (off + length M) (A @ M @ R))"
    using Z by (simp add: A)
  have off: "off \<le> length A" using Z A by simp
  have "frame_chunk off first final n sb = Some (length M, take off A @ M @ drop (off + length M) (A @ M @ R))"
    unfolding frame_chunk_def Let_def size_line_def [symmetric] Z_def [symmetric]
    using Z s2 by (simp add: s1 s3 del: append_assoc)
  moreover have "length (take off A @ M @ drop (off + length M) (A @ M @ R)) = length sb"
    using off by (simp add: sb M_def P T)
  moreover have "take off (take off A @ M @ drop (off + length M) (A @ M @ R)) = take off sb"
    using off by (simp add: sb)
  moreover have "prefix M (drop off (take off A @ M @ drop (off + length M) (A @ M @ R)))"
    using off by simp
  ultimately show ?thesis unfolding d M by blast
qed

text \<open>A body in chunks, and the decoder of RFC 7230 for it.\<close>

fun chunk_stream :: "bool \<Rightarrow> char list list \<Rightarrow> string" where
  "chunk_stream first [] = []"
| "chunk_stream first (d # ds) = chunk_text first (ds = []) d @ chunk_stream False ds"

function decode_chunked :: "string \<Rightarrow> char list option" where
  "decode_chunked s =
     (let hex = takeWhile (\<lambda>x. x \<noteq> CR) s; n = hex_val hex; r = drop (length hex + 2) s
      in if hex = [] \<or> take 2 (drop (length hex) s) \<noteq> CRLF then None
         else if n = 0 then (if r = CRLF then Some [] else None)
         else if take 2 (drop n r) \<noteq> CRLF then None
         else map_option (\<lambda>rest. take n r @ rest) (decode_chunked (drop (n + 2) r)))"
  by pat_completeness auto
termination
proof (relation "measure length")
  show "wf (measure length)" by simp
next
  fix s :: string and hex n r
  assume "hex = takeWhile (\<lambda>x. x \<noteq> CR) s" "n = hex_val hex" "r = drop (length hex + 2) s"
    and h: "\<not> (hex = [] \<or> take 2 (drop (length hex) s) \<noteq> CRLF)"
  then have "s \<noteq> []" by auto
  then show "(drop (n + 2) r, s) \<in> measure length" using \<open>r = _\<close> by (cases s) auto
qed

declare decode_chunked.simps [simp del]

lemma fmt_nat_printable: "2 \<le> b \<Longrightarrow> b \<le> 16 \<Longrightarrow> x \<in> set (fmt_nat b n) \<Longrightarrow> 48 \<le> (of_char x :: nat)"
proof (induction b n rule: fmt_nat.induct)
  case (1 b n)
  have d: "48 \<le> (of_char (digit_char k) :: nat)" if "k < 16" for k
    using that by (simp add: digit_char_def)
  have "n mod b < b" using 1(2) by simp
  then have m: "n mod b < 16" using 1(3) by (rule less_le_trans)
  show ?case
  proof (cases "n < b")
    case True
    then show ?thesis using 1(2-4) d [of n] by (simp add: fmt_nat.simps [of b n])
  next
    case False
    then show ?thesis using 1(1) [OF _ 1(2,3)] 1(2,4) d [OF m]
      by (auto simp: fmt_nat.simps [of b n])
  qed
qed

lemma CR_notin_fmt_X: "CR \<notin> set (fmt_X n)"
proof
  assume "CR \<in> set (fmt_X n)"
  from fmt_nat_printable [OF _ _ this [unfolded fmt_X_def]] show False by simp
qed

lemma fmt_X_nonempty: "fmt_X n \<noteq> []"
  by (simp add: fmt_X_def fmt_nat.simps [of 16 n])

lemma decode_one:
  assumes "d \<noteq> []"
  shows "decode_chunked (fmt_X (length d) @ CRLF @ d @ CRLF @ r) = map_option ((@) d) (decode_chunked r)"
  using assms
  by (subst decode_chunked.simps)
    (simp add: takeWhile_ne_noteq CR_notin_fmt_X hex_val_fmt_X fmt_X_nonempty Let_def)

lemma decode_last: "decode_chunked (''0'' @ CRLF @ CRLF) = Some []"
  by (subst decode_chunked.simps) (simp add: hex_val_def Let_def)

lemma decode_stream:
  "\<forall>d \<in> set ds. d \<noteq> [] \<Longrightarrow> ds \<noteq> [] \<Longrightarrow>
   \<exists>t. chunk_stream first ds = (if first then [] else CRLF) @ t \<and> decode_chunked t = Some (concat ds)"
proof (induction ds arbitrary: first)
  case (Cons d ds)
  show ?case
  proof (cases "ds = []")
    case True
    then show ?thesis
      using decode_one [of d "''0'' @ CRLF @ CRLF"] Cons.prems decode_last
      by (simp add: chunk_text_def last_chunk_def)
  next
    case False
    from Cons.IH [of False] False Cons.prems obtain t
      where t: "chunk_stream False ds = CRLF @ t" "decode_chunked t = Some (concat ds)" by auto
    show ?thesis
      using decode_one [of d t] Cons.prems False t by (simp add: chunk_text_def)
  qed
qed simp

text \<open>What the server sends for a list of blocks, each \<open>n\<close> bytes at \<open>off + 10\<close> of a buffer.\<close>

fun frames :: "bool \<Rightarrow> (nat \<times> nat \<times> cbuf) list \<Rightarrow> string option" where
  "frames first [] = Some []"
| "frames first ((off, n, sb) # bs) =
     do { (m, sb') \<leftarrow> frame_chunk off first (bs = []) n sb;
          t \<leftarrow> c_bytes sb' off m;
          r \<leftarrow> frames False bs;
          Some (t @ r) }"

definition block :: "nat \<times> nat \<times> cbuf \<Rightarrow> char list" where
  "block b = (case b of (off, n, sb) \<Rightarrow> take n (drop (off + 10) sb))"

definition block_fits :: "nat \<times> nat \<times> cbuf \<Rightarrow> bool" where
  "block_fits b = (case b of (off, n, sb) \<Rightarrow> 0 < n \<and> n < 65536 \<and> off + 10 + n + 7 \<le> length sb)"

lemma prefix_c_bytes: "prefix t (drop i b) \<Longrightarrow> i \<le> length b \<Longrightarrow> c_bytes b i (length t) = Some t"
  by (auto simp: c_bytes_def prefix_def) (metis length_append length_drop le_add_diff_inverse nat_add_left_cancel_le le_add1)

lemma frames_stream: "list_all block_fits bs \<Longrightarrow> frames first bs = Some (chunk_stream first (map block bs))"
proof (induction bs arbitrary: first)
  case (Cons b bs)
  obtain off n sb where b: "b = (off, n, sb)" by (cases b)
  from Cons.prems have n: "0 < n" "n < 65536" and r: "off + 10 + n + (if bs = [] then 7 else 0) \<le> length sb"
    by (auto simp: b block_fits_def)
  from frame_chunk_frames [OF n r, of first] obtain sb' where f: "frame_chunk off first (bs = []) n sb =
      Some (length (chunk_text first (bs = []) (block b)), sb')" and l: "length sb' = length sb"
    and p: "prefix (chunk_text first (bs = []) (block b)) (drop off sb')"
    by (auto simp: b block_def)
  from prefix_c_bytes [OF p] r l
  have "c_bytes sb' off (length (chunk_text first (bs = []) (block b))) = Some (chunk_text first (bs = []) (block b))"
    by simp
  with Cons f show ?case by (simp add: b [symmetric]) (simp add: b)
qed simp

text \<open>
  C8. A body in chunks is read back: when the blocks of a response are framed one after the
  other, the decoder of RFC 7230 gets exactly their data from the bytes that are sent, and
  finds the end of the body behind the last one. Every block must leave room for the frame.
\<close>

theorem chunked_body_round_trip:
  assumes "bs \<noteq> []" and "list_all block_fits bs"
  shows "\<exists>t. frames True bs = Some t \<and> decode_chunked t = Some (concat (map block bs))"
proof -
  have "\<forall>d \<in> set (map block bs). d \<noteq> []"
    using assms(2) by (auto simp: list_all_iff block_def block_fits_def)
  with decode_stream [of "map block bs" True] frames_stream [OF assms(2), of True] assms(1)
  show ?thesis by auto
qed

definition demo_blocks :: "(nat \<times> nat \<times> cbuf) list" where
  "demo_blocks = [(0, 5, replicate 10 NUL @ ''Hello'' @ replicate 20 NUL),
                  (2, 20, replicate 12 NUL @ ''abcdefghijklmnopqrst'' @ replicate 20 NUL)]"

theorem chunked_body_round_trip_witness:
  "\<exists>t. frames True demo_blocks = Some t \<and> decode_chunked t = Some ''Helloabcdefghijklmnopqrst''"
proof -
  have "demo_blocks \<noteq> []" "list_all block_fits demo_blocks"
    by (simp_all add: demo_blocks_def block_fits_def)
  moreover have "concat (map block demo_blocks) = ''Helloabcdefghijklmnopqrst''" by code_simp
  ultimately have "demo_blocks \<noteq> []" "list_all block_fits demo_blocks"
    "concat (map block demo_blocks) = ''Helloabcdefghijklmnopqrst''" by blast+
  with chunked_body_round_trip [of demo_blocks] show ?thesis by metis
qed

text \<open>The chunk of length 0 needs seven bytes behind the block.\<close>

lemma frame_chunk_overruns:
  assumes "0 < n" and "n < 65536" and "length sb < off + 10 + n + 7"
  shows "frame_chunk off first True n sb = None"
proof -
  define Z where "Z = size_line first n"
  have "n < 16 ^ 4" using assms(2) by simp
  from length_fmt_X_le [OF this] have Z: "length Z \<le> 8" by (simp add: Z_def size_line_def)
  have "c_cpy b (off + 10 - length Z + (n + length Z)) last_chunk = None" if "length b = length sb" for b
    using assms(3) Z that by (auto simp: c_cpy_def last_chunk_def)
  then show ?thesis
    unfolding frame_chunk_def Let_def size_line_def [symmetric] Z_def [symmetric]
    by (cases "c_cpy sb (off + 10 - length Z) Z") (auto dest: c_cpy_len)
qed

text \<open>
  C38. The frame of the last block: when all bytes that \<open>CGI_LoadContentToSend\<close> offers to
  \<open>ReadContent\<close> are filled with the last block of a body (up to 12 bytes before the end of the
  buffer), the chunk of length 0 does not fit behind it and the send buffer is overrun; with
  five bytes less everything fits.
\<close>

theorem last_chunk_overrun:
  assumes "0 < n" and "n < 65536" and "off + 10 + n \<le> length sb"
  shows "frame_chunk off first True n sb = None \<longleftrightarrow> length sb < off + 10 + n + 7"
proof
  assume "frame_chunk off first True n sb = None"
  with frame_chunk_frames [OF assms(1,2), of off True sb first] show "length sb < off + 10 + n + 7"
    by (cases "off + 10 + n + 7 \<le> length sb") auto
next
  assume "length sb < off + 10 + n + 7"
  then show "frame_chunk off first True n sb = None" by (rule frame_chunk_overruns [OF assms(1,2)])
qed

theorem last_chunk_overrun_witness:
  "frame_chunk 0 True True 1588 (replicate 1600 CHR ''x'') = None"
  using last_chunk_overrun [of 1588 0 "replicate 1600 CHR ''x''" True] by simp

end
