(* ===== verification/Response.thy ===== *)
theory Response
  imports Cgi
begin

text \<open>
  \<^verbatim>\<open>httpd/http_core.c\<close>, the sending side: \<open>sendBuffered\<close> and \<open>HttpResponseProc\<close>.
\<close>

section \<open>The transport\<close>

definition altcp_sndbuf :: "world \<Rightarrow> int \<times> world" where
  "altcp_sndbuf w = (w_sndbuf w (w_sndbuf_n w), w\<lparr>w_sndbuf_n := w_sndbuf_n w + 1\<rparr>)"

definition altcp_write :: "nat option \<Rightarrow> char list \<Rightarrow> world \<Rightarrow> bool \<times> world" where
  "altcp_write p bytes w =
     (let ok = w_write_ok w (w_write_n w); w = w\<lparr>w_write_n := w_write_n w + 1\<rparr>
      in (ok, if ok then w\<lparr>w_wire := w_wire w @ [(p, bytes)]\<rparr> else w))"

section \<open>Sending\<close>

text \<open>
  The loop hands the front of the send buffer to the transport as long as there is room; the
  first component of the result is \<^const>\<open>False\<close> for an error of \<open>altcp_write\<close>.
\<close>

function sendBuffered :: "REQUEST_CONTEXT \<Rightarrow> world \<Rightarrow> (bool \<times> REQUEST_CONTEXT \<times> world) option" where
  "sendBuffered c w =
     (if \<not> 0 < bytesLeft (ctxResponse c) then Some (True, c, w)
      else
        let (maxbuf, w) = altcp_sndbuf w
        in if maxbuf \<le> 0 then Some (True, c, w)
           else
             let n = min (bytesLeft (ctxResponse c)) maxbuf; left = bytesLeft (ctxResponse c) - n
             in case c_bytes (sendBuffer (ctxResponse c)) 0 (nat n) of
                  None \<Rightarrow> None
                | Some bytes \<Rightarrow>
                    let (ok, w) = altcp_write (pcb c) bytes w
                    in if \<not> ok then Some (False, c, w)
                       else
                         case (if 0 < left then c_memmove (sendBuffer (ctxResponse c)) 0 (nat n) (nat left)
                               else Some (sendBuffer (ctxResponse c))) of
                           None \<Rightarrow> None
                         | Some sb \<Rightarrow>
                             (case c_wr sb (nat left) NUL of
                                None \<Rightarrow> None
                              | Some sb \<Rightarrow>
                                  let (t, w) = tick_stamp w
                                  in sendBuffered
                                       (upd_rsp (\<lambda>r. r\<lparr>total2Send := total2Send r + n, bytesLeft := left,
                                          sendBuffer := sb, rsp_tLastSent := t\<rparr>) c) w))"
  by pat_completeness auto
termination
  by (relation "measure (\<lambda>(c, w). nat (bytesLeft (ctxResponse c)))")
    (auto simp: upd_rsp_def)

declare sendBuffered.simps [simp del]

definition Response_Status_Lines :: "string list" where
  "Response_Status_Lines =
     [''000 Unknown Error'', ''100 Continue'', ''101 Switching Protocols'',
      ''200 OK'', ''201 Created'', ''202 Accepted'', ''203 Non-Authoritative Information'',
      ''204 No Content'', ''205 Reset Content'', ''206 Partial Content'',
      ''300 Multiple Choices'', ''301 Moved Permanently'', ''302 Found'', ''303 See Other'',
      ''304 Not Modified'', ''305 Use Proxy'', ''307 Temporary Redirect'',
      ''400 Bad Request'', ''401 Unauthorized'', ''402 Payment Required'', ''403 Forbidden'',
      ''404 Not Found'', ''405 Method Not Allowed'', ''406 Not Acceptable'',
      ''407 Proxy Authentication Required'', ''408 Request Time-out'', ''409 Conflict'',
      ''410 Gone'', ''411 Length Required'', ''412 Precondition Failed'',
      ''413 Request Entity Too Large'', ''414 Request-URI Too Large'',
      ''415 Unsupported Media Type'', ''416 Requested range not satisfiable'',
      ''417 Expectation Failed'', ''500 Internal Server Error'', ''501 Not Implemented'',
      ''502 Bad Gateway'', ''503 Service Unavailable'', ''504 Gateway Time-out'',
      ''505 HTTP Version not supported'', '''']"

fun find_status :: "string \<Rightarrow> string list \<Rightarrow> string" where
  "find_status code [] = code"
| "find_status code (l # ls) =
     (if l = [] then code else if take 3 code = take 3 l then l else find_status code ls)"

definition status_info :: "int \<Rightarrow> string" where
  "status_info res = find_status (pad0 3 (fmt_d (\<bar>res\<bar> mod 1000))) Response_Status_Lines"

text \<open>The header of the response, for the first call of a request.\<close>

definition send_header :: "REQUEST_CONTEXT \<Rightarrow> world \<Rightarrow> (bool \<times> REQUEST_CONTEXT \<times> world) option" where
  "send_header c w =
     do { let (t, w) = tick_stamp w;
          let c = upd_rsp (\<lambda>r. r\<lparr>dwOperStage := 0, dwOperIndex := 0, rsp_tLastSent := t,
                                sendMaxBlock := int MAX_SEND_BUF_SIZE\<rparr>) c;
          (c, w) \<leftarrow> CGI_SetResponseHeaders (status_info (result c)) c w;
          (ok, c, w) \<leftarrow> sendBuffered c w;
          Some (ok,
            if ok then (upd_rsp (\<lambda>r. r\<lparr>sending := 1\<rparr>) c)
              \<lparr>state := (if result c = CODE_REDIRECT then HTTP_STATE_SENDING_BODY else HTTP_STATE_SENDING_HEADER)\<rparr>
            else c\<lparr>state := HTTP_STATE_REQUEST_END, result := -500\<rparr>, w) }"

text \<open>The next block of the body.\<close>

definition send_body :: "proc_caller \<Rightarrow> REQUEST_CONTEXT \<Rightarrow> world \<Rightarrow> (REQUEST_CONTEXT \<times> world) option" where
  "send_body caller c w =
     do { (hasData2Send, c, w) \<leftarrow> CGI_LoadContentToSend caller c w;
          if 0 < hasData2Send
          then do {
            (ok, c, w) \<leftarrow> sendBuffered c w;
            Some (if ok then upd_rsp (\<lambda>r. r\<lparr>sending := 1\<rparr>) c
                  else c\<lparr>state := HTTP_STATE_REQUEST_END, result := -500\<rparr>, w) }
          else if hasData2Send < 0 then Some (c\<lparr>state := HTTP_STATE_REQUEST_END\<rparr>, w)
          else Some (c, w) }"

definition HttpResponseProc ::
  "proc_caller \<Rightarrow> REQUEST_CONTEXT \<Rightarrow> world \<Rightarrow> (REQUEST_CONTEXT \<times> world) option" where
  "HttpResponseProc caller c w =
     (if state c < HTTP_STATE_BODY_DONE \<or> result c = 0 then Some (c, w)
      else
        let left = bytesLeft (ctxResponse c); atEnd = (dwOperStage (ctxResponse c) = STAGE_END);
            (room, w) = (if 0 < left \<and> \<not> atEnd then altcp_sndbuf w else (0, w))
        in if 0 < left \<and> (atEnd \<or> room \<le> left)
           then do {
             (ok, c, w) \<leftarrow> sendBuffered c w;
             Some (if ok then c else c\<lparr>result := -500, state := HTTP_STATE_REQUEST_END\<rparr>, w) }
           else do {
             (ok, c, w) \<leftarrow>
               (if sending (ctxResponse c) = 0 then send_header c w
                else if state c = HTTP_STATE_SENDING_HEADER \<and> caller = HTTP_PROC_CALLER_SENT
                then Some (True, c\<lparr>state := (if result c < 0 then HTTP_STATE_REQUEST_END
                                             else HTTP_STATE_SENDING_BODY)\<rparr>, w)
                else Some (True, c, w));
             if ok \<and> state c = HTTP_STATE_SENDING_BODY then send_body caller c w else Some (c, w) })"

section \<open>What sending leaves alone\<close>

text \<open>
  Sending and reading touch only the response part of a connection; \<open>same_conn\<close> says that the rest, and the fields of
  the response that only the engine sets, stay.
\<close>

definition same_conn :: "REQUEST_CONTEXT \<Rightarrow> REQUEST_CONTEXT \<Rightarrow> bool" where
  "same_conn c c' \<longleftrightarrow> c' = c\<lparr>ctxResponse := ctxResponse c'\<rparr> \<and> sending (ctxResponse c') = sending (ctxResponse c) \<and>
     sendMaxBlock (ctxResponse c') = sendMaxBlock (ctxResponse c) \<and> totalSent (ctxResponse c') = totalSent (ctxResponse c) \<and>
     length (sendBuffer (ctxResponse c')) = length (sendBuffer (ctxResponse c))"

lemma same_conn_refl [simp]: "same_conn c c"
  by (simp add: same_conn_def)

lemma same_conn_trans: "same_conn c c1 \<Longrightarrow> same_conn c1 c2 \<Longrightarrow> same_conn c c2"
  unfolding same_conn_def by (metis (no_types, lifting) REQUEST_CONTEXT.update_convs(29) REQUEST_CONTEXT.surjective REQUEST_CONTEXT.ext_inject)

lemma same_conn_fields:
  assumes "same_conn c c'"
  shows "pcb c' = pcb c" "handler c' = handler c" "state c' = state c" "result c' = result c" "options c' = options c"
    "requestMethod c' = requestMethod c" "session c' = session c" "checkAlive c' = checkAlive c"
proof -
  obtain r where "c' = c\<lparr>ctxResponse := r\<rparr>" using assms unfolding same_conn_def by blast
  then show "pcb c' = pcb c" "handler c' = handler c" "state c' = state c" "result c' = result c" "options c' = options c"
    "requestMethod c' = requestMethod c" "session c' = session c" "checkAlive c' = checkAlive c" by simp_all
qed

text \<open>What the sources of bodies read of a context.\<close>

definition source_part :: "REQUEST_CONTEXT \<Rightarrow> int \<times> app_context \<times> u32 \<times> int \<times> int" where
  "source_part c = (requestMethod c, appContext (ctxResponse c), dwOperStage (ctxResponse c), dwOperIndex (ctxResponse c),
     dwTotal (ctxResponse c))"

definition same_site :: "world \<Rightarrow> world \<Rightarrow> bool" where
  "same_site w w' \<longleftrightarrow> w_fs w' = w_fs w \<and> w_dev w' = w_dev w"

section \<open>Sending delivers the buffer\<close>

definition wf_send :: "REQUEST_CONTEXT \<Rightarrow> bool" where
  "wf_send c \<longleftrightarrow> 0 \<le> bytesLeft (ctxResponse c) \<and>
     bytesLeft (ctxResponse c) \<le> int (length (sendBuffer (ctxResponse c)))"

definition pending :: "REQUEST_CONTEXT \<Rightarrow> char list" where
  "pending c = take (nat (bytesLeft (ctxResponse c))) (sendBuffer (ctxResponse c))"

definition sent_as :: "REQUEST_CONTEXT \<Rightarrow> world \<Rightarrow> REQUEST_CONTEXT \<Rightarrow> world \<Rightarrow> char list list \<Rightarrow> bool" where
  "sent_as c w c' w' bs \<longleftrightarrow> w_wire w' = w_wire w @ map (Pair (pcb c)) bs \<and>
     concat bs @ pending c' = pending c \<and> wf_send c' \<and> pcb c' = pcb c \<and>
     w_sndbuf w' = w_sndbuf w \<and> w_write_ok w' = w_write_ok w \<and>
     total2Send (ctxResponse c') = total2Send (ctxResponse c) + int (length (concat bs))"

text \<open>A transport that always has room and never fails.\<close>

definition ready :: "world \<Rightarrow> bool" where
  "ready w \<longleftrightarrow> (\<forall>k. 0 < w_sndbuf w k \<and> w_write_ok w k)"

definition same_transport :: "world \<Rightarrow> world \<Rightarrow> bool" where
  "same_transport w w' \<longleftrightarrow> w_wire w' = w_wire w \<and> w_sndbuf w' = w_sndbuf w \<and> w_write_ok w' = w_write_ok w"

lemma sent_as_refl: "wf_send c \<Longrightarrow> same_transport w w' \<Longrightarrow> sent_as c w c w' []"
  by (simp add: sent_as_def same_transport_def)

lemma sent_as_trans:
  "sent_as c w c1 w1 bs \<Longrightarrow> sent_as c1 w1 c2 w2 bs' \<Longrightarrow> sent_as c w c2 w2 (bs @ bs')"
  by (auto simp: sent_as_def)

text \<open>One round of the loop: \<open>n\<close> bytes leave the front of the buffer.\<close>

lemma send_round:
  assumes c: "wf_send c" and n: "0 < n" "n \<le> bytesLeft (ctxResponse c)"
  defines "r \<equiv> ctxResponse c" and "left \<equiv> bytesLeft (ctxResponse c) - n"
  shows "\<exists>sb sb'. (if 0 < left then c_memmove (sendBuffer r) 0 (nat n) (nat left) else Some (sendBuffer r)) = Some sb \<and>
           c_wr sb (nat left) NUL = Some sb' \<and> length sb' = length (sendBuffer r) \<and>
           take (nat n) (sendBuffer r) @ take (nat left) sb' = pending c"
proof -
  define A where "A = take (nat n) (sendBuffer r)"
  define D where "D = take (nat left) (drop (nat n) (sendBuffer r))"
  define R where "R = drop (nat n + nat left) (sendBuffer r)"
  have sb: "sendBuffer r = A @ D @ R"
    by (simp add: A_def D_def R_def) (metis append_take_drop_id drop_drop add.commute)
  have l: "length A = nat n" "length D = nat left" and k: "nat left < length (sendBuffer r)"
    using c n by (auto simp: A_def D_def wf_send_def r_def left_def)
  have p: "pending c = A @ D"
    using n by (simp add: pending_def A_def D_def r_def left_def nat_diff_distrib take_add [symmetric] flip: r_def)
  show ?thesis
  proof (cases "0 < left")
    case True
    have "c_memmove (A @ D @ R) 0 (length A) (length D) = Some (D @ drop (length D) (A @ D @ R))"
      by (simp add: c_memmove_def c_bytes_def c_cpy_def)
    then have m: "c_memmove (sendBuffer r) 0 (nat n) (nat left) = Some (D @ drop (length D) (sendBuffer r))"
      using l sb by simp
    have len: "length (D @ drop (length D) (sendBuffer r)) = length (sendBuffer r)" using k l by simp
    have "take (nat left) ((D @ drop (length D) (sendBuffer r))[nat left := NUL]) = D" using l by simp
    with True m len k p l show ?thesis by (auto simp: c_wr_def A_def [symmetric])
  next
    case False
    then have "left = 0" using n by (simp add: left_def)
    then show ?thesis using False l k sb p n by (auto simp: c_wr_def)
  qed
qed

lemma sendBuffered_spec:
  "wf_send c \<Longrightarrow> \<exists>ok c' w' bs. sendBuffered c w = Some (ok, c', w') \<and> sent_as c w c' w' bs \<and>
     (ready w \<longrightarrow> ok \<and> pending c' = [])"
proof (induction c w rule: sendBuffered.induct)
  case (1 c w)
  show ?case
  proof (cases "0 < bytesLeft (ctxResponse c)")
    case False
    then show ?thesis using 1(2) sent_as_refl [of c w w]
      by (auto simp: sendBuffered.simps [of c w] same_transport_def pending_def)
  next
    case pos: True
    obtain maxbuf w1 where s: "altcp_sndbuf w = (maxbuf, w1)" by (cases "altcp_sndbuf w")
    have w1: "same_transport w w1" using s by (auto simp: altcp_sndbuf_def same_transport_def)
    show ?thesis
    proof (cases "maxbuf \<le> 0")
      case True
      have "\<not> ready w" using True s by (auto simp: ready_def altcp_sndbuf_def not_less)
      then show ?thesis using True pos s sent_as_refl [OF 1(2) w1] by (auto simp: sendBuffered.simps [of c w])
    next
      case False
      define n where "n = min (bytesLeft (ctxResponse c)) maxbuf"
      define left where "left = bytesLeft (ctxResponse c) - n"
      have n: "0 < n" "n \<le> bytesLeft (ctxResponse c)" using pos False by (auto simp: n_def)
      define bytes where "bytes = take (nat n) (sendBuffer (ctxResponse c))"
      have b: "c_bytes (sendBuffer (ctxResponse c)) 0 (nat n) = Some bytes"
        using 1(2) n by (auto simp: c_bytes_def bytes_def wf_send_def)
      obtain ok w2 where wr: "altcp_write (pcb c) bytes w1 = (ok, w2)" by (cases "altcp_write (pcb c) bytes w1")
      have w2: "w_wire w2 = (if ok then w_wire w @ [(pcb c, bytes)] else w_wire w)"
        "w_sndbuf w2 = w_sndbuf w" "w_write_ok w2 = w_write_ok w" "ready w \<Longrightarrow> ok"
        using wr w1 by (auto simp: altcp_write_def Let_def same_transport_def ready_def split: if_splits)
      from send_round [OF 1(2) n] obtain sb sb' where
        m: "(if 0 < left then c_memmove (sendBuffer (ctxResponse c)) 0 (nat n) (nat left)
             else Some (sendBuffer (ctxResponse c))) = Some sb" "c_wr sb (nat left) NUL = Some sb'"
        and l: "length sb' = length (sendBuffer (ctxResponse c))"
        and p: "bytes @ take (nat left) sb' = pending c"
        unfolding left_def bytes_def by blast
      obtain t w3 where ts: "tick_stamp w2 = (t, w3)" by (cases "tick_stamp w2")
      have w3: "same_transport w2 w3"
        using ts by (auto simp: tick_stamp_def LWIP_GetTickCount_def same_transport_def)
      define c1 where "c1 = upd_rsp (\<lambda>r. r\<lparr>total2Send := total2Send r + n, bytesLeft := left,
                                          sendBuffer := sb', rsp_tLastSent := t\<rparr>) c"
      note eval = pos s False prod.case Let_def n_def [symmetric] left_def [symmetric] b wr m ts
        option.case if_True if_False not_True_eq_False not_False_eq_True
      show ?thesis
      proof (cases ok)
        case True
        have wf1: "wf_send c1" using 1(2) n l by (simp add: c1_def upd_rsp_def wf_send_def left_def)
        have sent: "sent_as c w c1 w3 [bytes]"
          using wf1 p n 1(2) w2 w3 True
          by (simp add: sent_as_def c1_def upd_rsp_def pending_def bytes_def wf_send_def same_transport_def)
        have rd: "ready w3 = ready w" using w2 w3 by (simp add: ready_def same_transport_def)
        have eq: "sendBuffered c w = sendBuffered c1 w3"
          by (subst sendBuffered.simps)
            (simp only: eval True c1_def)
        have "\<exists>ok c' w' bs. sendBuffered c1 w3 = Some (ok, c', w') \<and> sent_as c1 w3 c' w' bs \<and>
            (ready w3 \<longrightarrow> ok \<and> pending c' = [])"
          using 1(1) [OF _ s [symmetric] refl False n_def left_def b wr [symmetric] refl _ m(1) m(2) ts [symmetric] refl]
            pos True wf1 by (simp add: c1_def)
        then show ?thesis using eq rd sent_as_trans [OF sent] by metis
      next
        case no: False
        then have "sendBuffered c w = Some (False, c, w2)"
          by (subst sendBuffered.simps)
            (simp only: eval)
        moreover have "same_transport w w2" using w2 no by (simp add: same_transport_def)
        ultimately show ?thesis using w2(4) no sent_as_refl [OF 1(2)] by blast
      qed
    qed
  qed
qed

text \<open>
  C6. Sending: \<open>sendBuffered\<close> always returns; the bytes it hands to the transport, in their
  order, followed by those that stay in the buffer, are the bytes that were in the buffer, and
  their number is added to the total. When the transport always has room and accepts every
  write, nothing stays behind.
\<close>

theorem sendBuffered_delivers:
  assumes "wf_send c"
  shows "\<exists>ok c' w' bs. sendBuffered c w = Some (ok, c', w') \<and>
           w_wire w' = w_wire w @ map (Pair (pcb c)) bs \<and> concat bs @ pending c' = pending c \<and>
           total2Send (ctxResponse c') = total2Send (ctxResponse c) + int (length (concat bs)) \<and>
           (ready w \<longrightarrow> ok \<and> pending c' = [])"
  using sendBuffered_spec [OF assms, of w] unfolding sent_as_def by blast

definition demo_world :: world where
  "demo_world = \<lparr>w_sessions = SetupSession, w_dev = InitDevInfo \<lparr>g_WorkConfig = zeroConfig, g_TempConfig = zeroConfig, g_ipIsReady = 1\<rparr>,
     w_fs = demo_fs False, w_folders_made = [], w_mapping = map mapping_of routes, httpsListening = 0,
     w_clock = (\<lambda>k. 1000), w_ticks = 0, w_time = 1000000000, w_sndbuf = (\<lambda>k. 1600), w_sndbuf_n = 0,
     w_write_ok = (\<lambda>k. True), w_write_n = 0, w_close_ok = (\<lambda>k. True), w_close_n = 0, w_wire = [],
     w_closed = [], w_aborted = [], w_recved = 0\<rparr>"

definition demo_send :: REQUEST_CONTEXT where
  "demo_send = upd_rsp (\<lambda>r. r\<lparr>sendBuffer := ''Hello'' @ replicate 3 NUL, bytesLeft := 5\<rparr>) (zeroContext 0)"

theorem sendBuffered_delivers_witness:
  "\<exists>ok c' w' bs. sendBuffered demo_send demo_world = Some (ok, c', w') \<and>
     w_wire w' = map (Pair None) bs \<and> concat bs = ''Hello'' \<and> ok"
proof -
  have 1: "wf_send demo_send" "pcb demo_send = None" "pending demo_send = ''Hello''"
    by (simp_all add: wf_send_def demo_send_def upd_rsp_def pending_def zeroContext_def)
  have 2: "ready demo_world" by (simp add: ready_def demo_world_def)
  have 3: "w_wire demo_world = []" by (simp add: demo_world_def)
  from sendBuffered_delivers [OF 1(1), of demo_world] 1 2 3 show ?thesis by (simp, elim exE conjE) auto
qed

end
