(* ===== verification/Connection.thy ===== *)
theory Connection
  imports Cgi
begin

text \<open>
  \<^verbatim>\<open>httpd/http_core.c\<close>, the life of a connection context: timeouts, the reset between two
  requests, closing and freeing. The locks of the contexts are always free (all callbacks run
  in one thread) and are left out.
\<close>

definition altcp_close :: "nat \<Rightarrow> world \<Rightarrow> bool \<times> world" where
  "altcp_close p w =
     (let ok = w_close_ok w (w_close_n w); w = w\<lparr>w_close_n := w_close_n w + 1\<rparr>
      in (ok, if ok then w\<lparr>w_closed := w_closed w @ [p]\<rparr> else w))"

text \<open>
  The elapsed times are those of \<open>SessionCheck\<close>. The receive timeout counts until the request
  is complete, the send timeout from then on.
\<close>

definition IsContextTimeout :: "REQUEST_CONTEXT \<Rightarrow> world \<Rightarrow> bool \<times> world" where
  "IsContextTimeout c w =
     (let (t, w) = LWIP_GetTickCount w;
          recvElapsed = elapsed (ucast t) (req_tLastReceived c);
          sendElapsed = elapsed (ucast t) (rsp_tLastSent (ctxResponse c))
      in (if state c < HTTP_STATE_BODY_DONE then ucast (nReceiveTimeout c) < recvElapsed
          else ucast (nSendTimeout (ctxResponse c)) < sendElapsed, w))"

text \<open>Closing the file of the context, if there is one.\<close>

definition close_file :: "REQUEST_CONTEXT \<Rightarrow> world \<Rightarrow> (REQUEST_CONTEXT \<times> world) option" where
  "close_file c w = (case fileHandle c of
       None \<Rightarrow> Some (c, w)
     | Some f \<Rightarrow> do { fs \<leftarrow> WEB_fclose (Some f) (w_fs w);
                      Some (c\<lparr>fileHandle := None\<rparr>, w\<lparr>w_fs := fs\<rparr>) })"

text \<open>The texts of a request, cleared.\<close>

definition clear_texts :: "REQUEST_CONTEXT \<Rightarrow> REQUEST_CONTEXT" where
  "clear_texts c = c\<lparr>ver := c_memset0 (ver c), extension := c_memset0 (extension c),
     requestPath := c_memset0 (requestPath c), responsePath := c_memset0 (responsePath c)\<rparr>"

definition ResetHttpContext :: "REQUEST_CONTEXT \<Rightarrow> world \<Rightarrow> (REQUEST_CONTEXT \<times> world) option" where
  "ResetHttpContext c w =
     do { let (t, w) = tick_stamp w;
          let c = clear_texts (c\<lparr>state := HTTP_STATE_IDLE, tRequestStart := 0, req_tLastReceived := t,
            requestMethod := -1, expect00 := -1, rangeFrom := 0, rangeTo := 0, ifModified := 0,
            chunked := -1, contentLength := -1, contentReceived := 0, keepalive := 0, result := 0,
            ctxResponse := zeroResponse\<lparr>nSendTimeout := TO_SENT\<rparr>, nReceiveTimeout := TO_RECV,
            handler := None\<rparr>);
          (c, w) \<leftarrow> close_file c w;
          Some (c\<lparr>max_level := int MAX_REQ_BUF_SIZE\<rparr>, w) }"

definition FreeHttpContext :: "REQUEST_CONTEXT \<Rightarrow> world \<Rightarrow> (REQUEST_CONTEXT \<times> world) option" where
  "FreeHttpContext c w =
     do { (c, w) \<leftarrow> CGI_Finish c w;
          let c = clear_texts (c\<lparr>reqBufList := None, bufOffset := 0, state := HTTP_STATE_IDLE,
            tRequestStart := 0, pcb := None, requestMethod := -1, contentLength := -1, keepalive := 0,
            chunked := 0, contentReceived := 0, result := 0, ctxResponse := zeroResponse,
            handler := None\<rparr>);
          (c, w) \<leftarrow> close_file c w;
          Some (c\<lparr>request_length := 0, max_level := int MAX_REQ_BUF_SIZE,
                  http_request_buffer := c_memset0 (http_request_buffer c)\<rparr>, w) }"

text \<open>A connection that cannot be closed stays with the transport, without a context.\<close>

definition CloseHttpContext :: "REQUEST_CONTEXT \<Rightarrow> world \<Rightarrow> (REQUEST_CONTEXT \<times> world) option" where
  "CloseHttpContext c w = (case pcb c of
       None \<Rightarrow> FreeHttpContext c w
     | Some p \<Rightarrow>
         let (ok, w) = altcp_close p w
         in FreeHttpContext (if ok then c\<lparr>pcb := None, peer_closing := 0\<rparr> else c) w)"

text \<open>The first context without a connection; the pending data of its last connection is dropped.\<close>

fun find_context :: "nat \<Rightarrow> REQUEST_CONTEXT list \<Rightarrow> nat option" where
  "find_context i [] = None"
| "find_context i (c # cs) = (if pcb c = None then Some i else find_context (Suc i) cs)"

definition GetHttpContext ::
  "REQUEST_CONTEXT list \<Rightarrow> world \<Rightarrow> (nat option \<times> REQUEST_CONTEXT list \<times> world) option" where
  "GetHttpContext cs w = (case find_context 0 cs of
       None \<Rightarrow> Some (None, cs, w)
     | Some i \<Rightarrow>
         do { (c, w) \<leftarrow> ResetHttpContext ((cs ! i)\<lparr>reqBufList := None, bufOffset := 0, peer_closing := 0\<rparr>) w;
              Some (Some i, cs[i := c], w) })"

end
