(* ===== verification/Request.thy ===== *)
theory Request
  imports Response Connection
begin

text \<open>
  \<^verbatim>\<open>httpd/http_core.c\<close>, the receiving side: the queue of packet buffers, the lines of the
  header, the body, and \<open>HttpRequestProc\<close>, which every event of a connection runs.
\<close>

section \<open>The queue of received packets\<close>

text \<open>
  Packet buffers that are used up leave the front of the queue. The results are the rest of the
  queue, the offset in its first buffer and the number of bytes that were freed.
\<close>

fun free_front :: "pbuf_chain \<Rightarrow> nat \<Rightarrow> (pbuf_chain \<times> nat \<times> nat) option" where
  "free_front [] off = Some ([], off, 0)"
| "free_front (p # ps) off =
     (if off < length p then Some (p # ps, off, 0)
      else if ps = [] then None
      else do { (q, off, n) \<leftarrow> free_front ps (off - length p); Some (q, off, length p + n) })"

text \<open>Data at the end of the receive buffer, followed by two NULs.\<close>

definition put_received :: "char list \<Rightarrow> REQUEST_CONTEXT \<Rightarrow> REQUEST_CONTEXT option" where
  "put_received data c =
     (if request_length c < 0 then None
      else do {
        let n = nat (request_length c);
        b \<leftarrow> c_cpy (http_request_buffer c) n data;
        b \<leftarrow> c_wr b (n + length data) NUL;
        b \<leftarrow> c_wr b (n + length data + 1) NUL;
        Some (c\<lparr>http_request_buffer := b, request_length := request_length c + int (length data)\<rparr>) })"

definition dequeue :: "REQUEST_CONTEXT \<Rightarrow> world \<Rightarrow> (REQUEST_CONTEXT \<times> world) option" where
  "dequeue c w = (case reqBufList c of
       None \<Rightarrow> Some (c, w)
     | Some q \<Rightarrow>
         let tot_len = length (concat q);
             nSpace = min (max_level c - request_length c) (int tot_len - int (bufOffset c))
         in if nSpace \<le> 0 then Some (c, w)
            else do {
              c \<leftarrow> put_received (take (nat nSpace) (drop (bufOffset c) (concat q))) c;
              let off = bufOffset c + nat nSpace;
              if off = tot_len
              then Some (c\<lparr>reqBufList := None, bufOffset := 0\<rparr>, w\<lparr>w_recved := w_recved w + tot_len\<rparr>)
              else do {
                (q, off, n) \<leftarrow> free_front q off;
                Some (c\<lparr>reqBufList := Some q, bufOffset := off\<rparr>, w\<lparr>w_recved := w_recved w + n\<rparr>) } })"

section \<open>The request line\<close>

text \<open>
  The path of a request and the three bytes of the version behind \<^verbatim>\<open> HTTP/\<close>; leading spaces
  and everything behind 126 bytes are left out.
\<close>

fun scan_path :: "char list \<Rightarrow> string \<Rightarrow> string \<times> char list option" where
  "scan_path [] path = (path, None)"
| "scan_path (x # l) path =
     (if prefix '' HTTP/1.'' (x # l) then (path, Some (take 3 (drop 6 (x # l @ [NUL]))))
      else scan_path l (if (path = [] \<and> x = CHR '' '') \<or> \<not> length path < 128 - 2 then path else path @ [x]))"

text \<open>
  The extension behind the last dot of the path proper, collected in an array of 8 bytes:
  \<open>dot\<close> says that a dot was seen, \<open>question\<close> holds the position of the first question mark.
\<close>

fun query_loop :: "string \<Rightarrow> nat \<Rightarrow> bool \<Rightarrow> nat option \<Rightarrow> nat \<Rightarrow> cbuf \<Rightarrow> (nat option \<times> cbuf) option" where
  "query_loop [] i dot question len ext = Some (question, ext)"
| "query_loop (x # p) i dot question len ext =
     (if x = CHR ''.''
      then (if question = None
            then do { ext \<leftarrow> c_wr ext 0 NUL; query_loop p (Suc i) True question 0 ext }
            else query_loop p (Suc i) dot question len ext)
      else if x = CHR ''?''
      then query_loop p (Suc i) dot (if question = None then Some i else question) len ext
      else if x = CHR ''#'' then query_loop p (Suc i) dot question len ext
      else if x = CHR ''/''
      then (if question = None
            then do { ext \<leftarrow> c_wr ext 0 NUL; query_loop p (Suc i) False question 0 ext }
            else query_loop p (Suc i) dot question len ext)
      else if dot \<and> question = None
      then do { ext \<leftarrow> c_wr ext len x;
                ext \<leftarrow> c_wr ext (len + 1) NUL;
                query_loop p (Suc i) dot question (len + 1) ext }
      else query_loop p (Suc i) dot question len ext)"

definition ParseQueryString :: "REQUEST_CONTEXT \<Rightarrow> REQUEST_CONTEXT option" where
  "ParseQueryString c =
     do { path \<leftarrow> c_str (requestPath c) 0;
          (question, ext) \<leftarrow> query_loop path 0 False None 0 (c_memset0 (extension c));
          let c = c\<lparr>extension := ext\<rparr>;
          case question of
            None \<Rightarrow> Some (c\<lparr>posQuestion := -1\<rparr>)
          | Some i \<Rightarrow> do { rp \<leftarrow> c_wr (requestPath c) i NUL;
                          Some (c\<lparr>posQuestion := int i, requestPath := rp\<rparr>) } }"

text \<open>
  The request line between \<open>pos\<close> and \<open>i\<close> of the receive buffer. \<^const>\<open>False\<close> stands for a
  method that is not supported.
\<close>

definition request_line ::
  "nat \<Rightarrow> nat \<Rightarrow> REQUEST_CONTEXT \<Rightarrow> world \<Rightarrow> (bool \<times> REQUEST_CONTEXT) option" where
  "request_line pos i c w =
     (let line = take (i - pos) (drop pos (http_request_buffer c));
          isGet = (take 4 line = ''GET ''); isPost = (take 5 line = ''POST '');
          iSkip = (if isGet then 4 else 5)
      in if \<not> isGet \<and> \<not> isPost then Some (False, c\<lparr>result := -500\<rparr>)
         else do {
           let c = c\<lparr>requestMethod := (if isGet then METHOD_GET else METHOD_POST)\<rparr>;
           let (path, version) = scan_path (drop iSkip line) [];
           v \<leftarrow> (case version of None \<Rightarrow> Some (ver c)
                | Some x \<Rightarrow> do { v \<leftarrow> c_cpy (ver c) 0 x; c_wr v 3 NUL });
           rp \<leftarrow> c_cpy (requestPath c) 0 path;
           rp \<leftarrow> c_wr rp (length path) NUL;
           (pathLen, rp) \<leftarrow> URLDecode rp;
           rp \<leftarrow> c_wr rp pathLen NUL;
           c \<leftarrow> ParseQueryString (upd_rsp (\<lambda>r. r\<lparr>appContext := zeroApp\<rparr>)
                 (c\<lparr>ver := v, checkAlive := 0, posQuestion := -1, requestPath := rp\<rparr>));
           req \<leftarrow> c_str (requestPath c) 0;
           rsp \<leftarrow> c_strcpy (responsePath c) 0 req;
           let c = c\<lparr>responsePath := rsp,
             checkAlive := (if Strnicmp req WEB_SESSION_CHECK (length WEB_SESSION_CHECK) = 0 then 1 else 0)\<rparr>;
           c \<leftarrow> CGI_SetCgiHandler (w_mapping w) c;
           Some (True, c) })"

section \<open>The header lines\<close>

text \<open>Whether one of two spellings occurs in the line behind the name of the header.\<close>

definition line_has :: "cbuf \<Rightarrow> nat \<Rightarrow> string \<Rightarrow> string \<Rightarrow> int option" where
  "line_has b i s1 s2 =
     do { l \<leftarrow> c_str b i; Some (if c_strstr l s1 \<noteq> None \<or> c_strstr l s2 \<noteq> None then 1 else 0) }"

text \<open>
  \<^verbatim>\<open>Range:\<close>. The numbers are read from the seventh byte behind the start of \<^verbatim>\<open>bytes=\<close> on;
  an empty range is no range.
\<close>

definition parse_range :: "cbuf \<Rightarrow> nat \<Rightarrow> (int \<times> int) option" where
  "parse_range b pos =
     do { l \<leftarrow> c_str b (pos + 6);
          (rfrom, rto) \<leftarrow> (case c_strstr l ''bytes='' of
              None \<Rightarrow> Some (0, 0)
            | Some k \<Rightarrow>
                do { let p = pos + 6 + k + 7;
                     s \<leftarrow> c_str b p;
                     case c_strstr s ''-'' of
                       None \<Rightarrow> Some (c_atol s, 0)
                     | Some m \<Rightarrow>
                         do { d \<leftarrow> c_rd b (p + m + 1);
                              if is_digit d
                              then do { s2 \<leftarrow> c_str b (p + m + 1);
                                        rto \<leftarrow> c_int (c_atol s2 + 1);
                                        Some (c_atol s, rto) }
                              else Some (c_atol s, 0x7FFFFFFF) } });
          Some (if rfrom < rto then (rfrom, rto) else (0, 0)) }"

definition header_line ::
  "nat \<Rightarrow> nat \<Rightarrow> REQUEST_CONTEXT \<Rightarrow> world \<Rightarrow> (REQUEST_CONTEXT \<times> world) option" where
  "header_line pos i c w =
     do { let b = http_request_buffer c;
          l \<leftarrow> c_str b pos;
          if Strnicmp l ''Content-Length:'' 15 = 0
          then do { v \<leftarrow> c_str b (pos + 15); Some (c\<lparr>contentLength := c_atol v, contentReceived := 0\<rparr>, w) }
          else if Strnicmp l ''Connection:'' 11 = 0
          then do { k \<leftarrow> line_has b (pos + 11) ''keep-alive'' ''Keep-Alive''; Some (c\<lparr>keepalive := k\<rparr>, w) }
          else if Strnicmp l ''Transfer-Encoding:'' 18 = 0
          then do { k \<leftarrow> line_has b (pos + 18) ''chunked'' ''Chunked''; Some (c\<lparr>chunked := k\<rparr>, w) }
          else if Strnicmp l ''Expect:'' 7 = 0
          then do { k \<leftarrow> line_has b (pos + 7) ''100-continue'' ''100-Continue''; Some (c\<lparr>expect00 := k\<rparr>, w) }
          else if Strnicmp l ''If-Modified-Since:'' 18 = 0
          then do { t \<leftarrow> parseHttpDate b (pos + 19); Some (c\<lparr>ifModified := t\<rparr>, w) }
          else if Strnicmp l ''Range:'' 6 = 0
          then do { (rfrom, rto) \<leftarrow> parse_range b pos; Some (c\<lparr>rangeFrom := rfrom, rangeTo := rto\<rparr>, w) }
          else if Strnicmp l ''X-Auth-Token:'' 13 = 0 \<or> Strnicmp l ''Cookie:'' 7 = 0
          then do {
            v \<leftarrow> c_str b (pos + value_pos (take (i - pos) (drop pos b)));
            t \<leftarrow> c_strncpy (c_memset0 (rsp_token (ctxResponse c))) 0 v (128 - 2);
            Some (upd_rsp (\<lambda>r. r\<lparr>rsp_token := t\<rparr>) c, w) }
          else do {
            (taken, rest, c, w) \<leftarrow> CGI_HeaderReceived (drop pos b) c w;
            Some (c\<lparr>http_request_buffer := take pos b @ rest\<rparr>, w) } }"

text \<open>The empty line behind the header.\<close>

definition empty_line :: "REQUEST_CONTEXT \<Rightarrow> REQUEST_CONTEXT option" where
  "empty_line c =
     do { sb \<leftarrow> c_wr (sendBuffer (ctxResponse c)) 0 NUL;
          Some (upd_rsp (\<lambda>r. r\<lparr>authorized := 0, sending := 0, total2Send := 0, totalSent := 0,
                   dwOperIndex := 0, dwOperStage := 0, bytesLeft := 0, sendBuffer := sb\<rparr>)
                 (c\<lparr>result := (if requestMethod c < 0 then -500 else result c),
                    state := HTTP_STATE_HEADER_DONE\<rparr>)) }"

text \<open>
  The loop over the receive buffer. The results are whether the header is complete and the
  number of bytes that are used up.
\<close>

function header_lines ::
  "nat \<Rightarrow> nat \<Rightarrow> nat \<Rightarrow> REQUEST_CONTEXT \<Rightarrow> world \<Rightarrow> (bool \<times> nat \<times> REQUEST_CONTEXT \<times> world) option" where
  "header_lines i pos sz c w =
     (if \<not> i + 1 < sz then Some (False, pos, c, w)
      else do {
        x \<leftarrow> c_rd (http_request_buffer c) i;
        y \<leftarrow> c_rd (http_request_buffer c) (i + 1);
        if x \<noteq> CR \<or> y \<noteq> LF then header_lines (i + 1) pos sz c w
        else if i = pos then do { c \<leftarrow> empty_line c; Some (True, i + 2, c, w) }
        else do {
          b \<leftarrow> c_wr (http_request_buffer c) i NUL;
          let c = c\<lparr>http_request_buffer := b\<rparr>;
          if requestMethod c < 0
          then do { (ok, c) \<leftarrow> request_line pos i c w;
                    if ok then header_lines (i + 1) (i + 2) sz c w else Some (False, pos, c, w) }
          else do { (c, w) \<leftarrow> header_line pos i c w;
                    header_lines (i + 1) (i + 2) sz c w } } })"
  by pat_completeness auto
termination
  by (relation "measure (\<lambda>(i, pos, sz, c, w). sz - i)") auto

declare header_lines.simps [simp del]

text \<open>Bytes leave the front of the receive buffer.\<close>

definition shift_out :: "nat \<Rightarrow> REQUEST_CONTEXT \<Rightarrow> REQUEST_CONTEXT option" where
  "shift_out n c =
     (let left = request_length c - int n
      in if 0 < left
         then do { b \<leftarrow> c_memmove (http_request_buffer c) 0 n (nat left);
                   Some (c\<lparr>http_request_buffer := b, request_length := left\<rparr>) }
         else Some (c\<lparr>request_length := left\<rparr>))"

text \<open>
  The header part of one round; the results are whether the header has just been completed and
  the number of bytes that are left. A line that fills the buffer loses its first half.
\<close>

definition parse_header ::
  "int \<Rightarrow> REQUEST_CONTEXT \<Rightarrow> world \<Rightarrow> (bool \<times> int \<times> REQUEST_CONTEXT \<times> world) option" where
  "parse_header sz c w =
     (if state c = HTTP_STATE_HEADER_RECEIVING \<and> 2 \<le> sz
      then do {
        (afterHeader, pos, c, w) \<leftarrow> header_lines 0 0 (nat sz) c w;
        c \<leftarrow> (if pos = 0
              then (if max_level c \<le> request_length c then shift_out (nat (request_length c div 2)) c else Some c)
              else shift_out pos c);
        Some (afterHeader, sz - int pos, c, w) }
      else Some (False, sz, c, w))"

section \<open>The body\<close>

text \<open>A new request is on its way: the clock is read twice.\<close>

definition start_request :: "REQUEST_CONTEXT \<Rightarrow> world \<Rightarrow> REQUEST_CONTEXT \<times> world" where
  "start_request c w =
     (if 0 < request_length c \<and> state c = HTTP_STATE_IDLE
      then let (t1, w) = tick_stamp w; (t2, w) = tick_stamp w
           in (upd_rsp (\<lambda>r. r\<lparr>rsp_tLastSent := 0\<rparr>)
                (c\<lparr>state := HTTP_STATE_HEADER_RECEIVING, tRequestStart := t1, req_tLastReceived := t2\<rparr>), w)
      else (c, w))"

text \<open>The end of the request starts the send timeout.\<close>

definition body_done :: "REQUEST_CONTEXT \<Rightarrow> world \<Rightarrow> REQUEST_CONTEXT \<times> world" where
  "body_done c w =
     (let (t, w) = tick_stamp w
      in (upd_rsp (\<lambda>r. r\<lparr>rsp_tLastSent := t\<rparr>) (c\<lparr>state := HTTP_STATE_BODY_DONE\<rparr>), w))"

text \<open>The client is known when its token belongs to a session that was opened from its address.\<close>

definition after_header :: "REQUEST_CONTEXT \<Rightarrow> world \<Rightarrow> (REQUEST_CONTEXT \<times> world) option" where
  "after_header c w =
     do { token \<leftarrow> c_str (rsp_token (ctxResponse c)) 0;
          s \<leftarrow> GetSession (Some token) (w_sessions w);
          ext \<leftarrow> c_str (extension c) 0;
          let c = upd_rsp (\<lambda>r. r\<lparr>authorized := CODE_OK\<rparr>) (c\<lparr>session := s\<rparr>);
          let known = (case s of None \<Rightarrow> False | Some k \<Rightarrow> ipRemote c = nLoginIP (w_sessions w ! k));
          c \<leftarrow> (if \<not> known \<and> opt_set (options c) CGI_OPT_AUTH_REQUIRED \<and> SessionTypes ext
                then redirect_to WEB_DEFAULT_PAGE CODE_REDIRECT c else Some c);
          let (c, w) = (if 0 < chunked c then (c\<lparr>state := HTTP_STATE_CHUNK_LEN_RECEIVING\<rparr>, w)
                        else if 0 < contentLength c then (c\<lparr>state := HTTP_STATE_BODY_RECEIVING\<rparr>, w)
                        else body_done c w);
          CGI_HeadersReceived c w }"

text \<open>The end of the line with the length of a chunk.\<close>

function chunk_line :: "cbuf \<Rightarrow> int \<Rightarrow> nat \<Rightarrow> nat option option" where
  "chunk_line b sz k =
     (if \<not> int k < sz - 1 then Some None
      else do { x \<leftarrow> c_rd b k;
                y \<leftarrow> c_rd b (k + 1);
                if x = CR \<or> y = LF then Some (Some k) else chunk_line b sz (k + 1) })"
  by pat_completeness auto
termination
  by (relation "measure (\<lambda>(b, sz, k). nat (sz - int k))") auto

declare chunk_line.simps [simp del]

definition chunk_length :: "int \<Rightarrow> REQUEST_CONTEXT \<Rightarrow> REQUEST_CONTEXT option" where
  "chunk_length sz c =
     (if state c = HTTP_STATE_CHUNK_LEN_RECEIVING \<and> 2 < sz
      then do {
        k \<leftarrow> chunk_line (http_request_buffer c) sz 0;
        case k of
          None \<Rightarrow> Some c
        | Some k \<Rightarrow>
            do { b \<leftarrow> c_wr (http_request_buffer c) k NUL;
                 s \<leftarrow> c_str b 0;
                 len \<leftarrow> c_int (c_atol s + 2);
                 shift_out (k + 2) (c\<lparr>http_request_buffer := b, contentLength := len, contentReceived := 0,
                                     state := HTTP_STATE_CHUNK_RECEIVING\<rparr>) } }
      else Some c)"

text \<open>The end of a chunk or of the body.\<close>

definition content_done :: "REQUEST_CONTEXT \<Rightarrow> world \<Rightarrow> REQUEST_CONTEXT \<times> world" where
  "content_done c w =
     (if contentReceived c < contentLength c then (c, w)
      else if 0 < chunked c
      then let (c, w) = (if contentLength c = 2 then body_done c w
                         else (c\<lparr>state := HTTP_STATE_CHUNK_LEN_RECEIVING\<rparr>, w))
           in (c\<lparr>contentLength := 0, contentReceived := 0\<rparr>, w)
      else body_done c w)"

section \<open>The loop\<close>

datatype flow = Again | Leave | Return

definition finish_request :: "REQUEST_CONTEXT \<Rightarrow> world \<Rightarrow> (flow \<times> REQUEST_CONTEXT \<times> world) option" where
  "finish_request c w =
     do { (c, w) \<leftarrow> CGI_RequestReceived c w;
          Some (Leave, if result c = 0 then c\<lparr>result := CODE_OK\<rparr> else c, w) }"

text \<open>
  The body part of one round. \<open>sz\<close> is the number of bytes that were in the receive buffer behind
  the header; the length line of a chunk does not change it.
\<close>

definition receive_body ::
  "int \<Rightarrow> REQUEST_CONTEXT \<Rightarrow> world \<Rightarrow> (flow \<times> REQUEST_CONTEXT \<times> world) option" where
  "receive_body sz c w =
     do { c \<leftarrow> chunk_length sz c;
          if state c = HTTP_STATE_CHUNK_RECEIVING \<or> state c = HTTP_STATE_BODY_RECEIVING
          then do {
            (consumed, c, w) \<leftarrow> CGI_ContentReceived (http_request_buffer c) sz c w;
            if result c \<le> -500 then Some (Return, c, w)
            else if consumed \<le> 0 then Some (Leave, c, w)
            else do {
              c \<leftarrow> shift_out (nat consumed) c;
              let (c, w) = content_done (c\<lparr>contentReceived := contentReceived c + consumed\<rparr>) w;
              if state c = HTTP_STATE_BODY_DONE then finish_request c w
              else Some (if reqBufList c = None then Leave else Again, c, w) } }
          else if state c = HTTP_STATE_BODY_DONE then finish_request c w
          else Some (Leave, c, w) }"

text \<open>One round of the loop.\<close>

definition request_round :: "REQUEST_CONTEXT \<Rightarrow> world \<Rightarrow> (flow \<times> REQUEST_CONTEXT \<times> world) option" where
  "request_round c w =
     do { (c, w) \<leftarrow> dequeue c w;
          let sz = request_length c;
          if sz = 0 then Some (Leave, c, w)
          else do {
            let (c, w) = start_request c w;
            (afterHeader, sz, c, w) \<leftarrow> parse_header sz c w;
            if result c < 0 then Some (Leave, c, w)
            else if state c = HTTP_STATE_HEADER_RECEIVING \<and> int MAX_REQ_BUF_SIZE \<le> request_length c
            then Some (Leave, c\<lparr>result := -500\<rparr>, w)
            else if state c < HTTP_STATE_HEADER_DONE
            then Some (if reqBufList c = None then Leave else Again, c, w)
            else do {
              (c, w) \<leftarrow> (if afterHeader then after_header c w else Some (c, w));
              if result c < 0 then Some (Leave, c\<lparr>state := HTTP_STATE_SENDING_HEADER\<rparr>, w)
              else receive_body sz c w } } }"

partial_function (option) request_loop ::
  "REQUEST_CONTEXT \<Rightarrow> world \<Rightarrow> (flow \<times> REQUEST_CONTEXT \<times> world) option" where
  "request_loop c w =
     (if \<not> state c < HTTP_STATE_BODY_DONE then Some (Leave, c, w)
      else do {
        (f, c, w) \<leftarrow> request_round c w;
        if f = Again then request_loop c w else Some (f, c, w) })"

declare request_loop.simps [code]

definition HttpRequestProc ::
  "proc_caller \<Rightarrow> REQUEST_CONTEXT \<Rightarrow> world \<Rightarrow> (REQUEST_CONTEXT \<times> world) option" where
  "HttpRequestProc caller c w =
     do { (f, c, w) \<leftarrow> request_loop c w;
          if f = Return then Some (c, w)
          else if HTTP_STATE_BODY_DONE \<le> state c
          then do {
            (c, w) \<leftarrow> HttpResponseProc caller c w;
            if state c = HTTP_STATE_REQUEST_END
            then (if 0 < peer_closing c then CloseHttpContext c w
                  else if 0 < keepalive c then ResetHttpContext c w
                  else CloseHttpContext c w)
            else Some (c, w) }
          else Some (if 0 < peer_closing c then c\<lparr>result := -500\<rparr> else c, w) }"

section \<open>The stream of received bytes\<close>

definition queued :: "REQUEST_CONTEXT \<Rightarrow> char list" where
  "queued c = (case reqBufList c of None \<Rightarrow> [] | Some q \<Rightarrow> concat q)"

text \<open>The bytes that are received and not yet used: the receive buffer and the rest of the queue.\<close>

definition unread :: "REQUEST_CONTEXT \<Rightarrow> char list" where
  "unread c = take (nat (request_length c)) (http_request_buffer c) @ drop (bufOffset c) (queued c)"

definition wf_recv :: "REQUEST_CONTEXT \<Rightarrow> bool" where
  "wf_recv c \<longleftrightarrow> 0 \<le> request_length c \<and> request_length c \<le> max_level c \<and>
     max_level c = int MAX_REQ_BUF_SIZE \<and> length (http_request_buffer c) = MAX_REQ_BUF_SIZE + 4 \<and>
     (case reqBufList c of None \<Rightarrow> bufOffset c = 0 | Some q \<Rightarrow> bufOffset c < length (concat q))"

lemma free_front_ok:
  "off < length (concat q) \<Longrightarrow> \<exists>q' off' n. free_front q off = Some (q', off', n) \<and>
     drop off' (concat q') = drop off (concat q) \<and> off' < length (concat q') \<and>
     n + length (concat q') = length (concat q)"
proof (induction q arbitrary: off)
  case (Cons p ps)
  show ?case
  proof (cases "off < length p")
    case False
    with Cons.prems have o: "off - length p < length (concat ps)" by auto
    then have "ps \<noteq> []" by auto
    moreover from Cons.IH [OF o] obtain q' off' n where
      "free_front ps (off - length p) = Some (q', off', n)" "drop off' (concat q') = drop (off - length p) (concat ps)"
      "off' < length (concat q')" "n + length (concat q') = length (concat ps)" by blast
    ultimately show ?thesis using False by auto
  qed (use Cons.prems in auto)
qed simp

lemma put_received_ok:
  assumes "0 \<le> request_length c" and "length (http_request_buffer c) = MAX_REQ_BUF_SIZE + 4"
    and "request_length c + int (length d) \<le> int MAX_REQ_BUF_SIZE"
  shows "\<exists>b. put_received d c = Some (c\<lparr>http_request_buffer := b, request_length := request_length c + int (length d)\<rparr>) \<and>
     length b = MAX_REQ_BUF_SIZE + 4 \<and>
     take (nat (request_length c + int (length d))) b = take (nat (request_length c)) (http_request_buffer c) @ d"
proof -
  have n: "nat (request_length c) + length d + 1 < length (http_request_buffer c)" using assms by simp
  moreover have "nat (request_length c + int (length d)) = nat (request_length c) + length d"
    using assms(1) by simp
  ultimately show ?thesis
    unfolding put_received_def Let_def
    using assms by (intro exI [of _ "(take (nat (request_length c)) (http_request_buffer c) @ d @
        drop (nat (request_length c) + length d) (http_request_buffer c))
        [nat (request_length c) + length d := NUL, Suc (nat (request_length c) + length d) := NUL]"])
      (simp add: c_cpy_def c_wr_def)
qed

lemma dequeue_stream:
  assumes "wf_recv c"
  shows "\<exists>c' w'. dequeue c w = Some (c', w') \<and> wf_recv c' \<and> unread c' = unread c \<and>
           w_recved w' + length (queued c') = w_recved w + length (queued c)"
proof (cases "reqBufList c")
  case None
  then show ?thesis using assms by (simp add: dequeue_def)
next
  case (Some q)
  define d where "d = length (concat q) - bufOffset c"
  have off: "bufOffset c < length (concat q)" using assms Some by (simp add: wf_recv_def)
  define n where "n = min (max_level c - request_length c) (int (length (concat q)) - int (bufOffset c))"
  show ?thesis
  proof (cases "n \<le> 0")
    case True
    then show ?thesis using assms Some by (simp add: dequeue_def n_def [symmetric])
  next
    case False
    define data where "data = take (nat n) (drop (bufOffset c) (concat q))"
    have l: "length data = nat n" using False by (simp add: data_def n_def)
    have "0 \<le> request_length c" "length (http_request_buffer c) = MAX_REQ_BUF_SIZE + 4"
      "request_length c + int (length data) \<le> int MAX_REQ_BUF_SIZE"
      using assms False by (auto simp: wf_recv_def l n_def)
    from put_received_ok [OF this] obtain b where p: "put_received data c =
        Some (c\<lparr>http_request_buffer := b, request_length := request_length c + int (length data)\<rparr>)"
      and lb: "length b = MAX_REQ_BUF_SIZE + 4"
      and tb: "take (nat (request_length c + int (length data))) b =
        take (nat (request_length c)) (http_request_buffer c) @ data" by blast
    define c1 where "c1 = c\<lparr>http_request_buffer := b, request_length := request_length c + int (length data)\<rparr>"
    have split: "drop (bufOffset c) (concat q) = data @ drop (bufOffset c + nat n) (concat q)"
      unfolding data_def by (metis append_take_drop_id drop_drop add.commute)
    have level: "request_length c + int (length data) \<le> max_level c" using False by (auto simp: l n_def)
    have eval: "dequeue c w = (if bufOffset c + nat n = length (concat q)
        then Some (c1\<lparr>reqBufList := None, bufOffset := 0\<rparr>, w\<lparr>w_recved := w_recved w + length (concat q)\<rparr>)
        else do { (q, off, m) \<leftarrow> free_front q (bufOffset c + nat n);
                  Some (c1\<lparr>reqBufList := Some q, bufOffset := off\<rparr>, w\<lparr>w_recved := w_recved w + m\<rparr>) })"
      unfolding dequeue_def Some option.case Let_def n_def [symmetric] data_def [symmetric] p
      using False by (simp add: c1_def)
    have wf: "wf_recv (c1\<lparr>reqBufList := r, bufOffset := k\<rparr>) \<longleftrightarrow>
        (case r of None \<Rightarrow> k = 0 | Some q \<Rightarrow> k < length (concat q))" for r k
      using assms lb level by (cases r) (auto simp: wf_recv_def c1_def)
    have un: "unread (c1\<lparr>reqBufList := r, bufOffset := k\<rparr>) = unread c"
      if "drop k (case r of None \<Rightarrow> [] | Some q \<Rightarrow> concat q) = drop (bufOffset c + nat n) (concat q)" for r k
      using that tb split Some by (cases r) (simp_all add: unread_def queued_def c1_def)
    show ?thesis
    proof (cases "bufOffset c + nat n = length (concat q)")
      case True
      then show ?thesis
        using Some wf [where r = None and k = 0] un [where r = None and k = 0] by (simp add: eval queued_def)
    next
      case no: False
      then have o: "bufOffset c + nat n < length (concat q)" using False by (auto simp: n_def)
      from free_front_ok [OF o] obtain q' off' m where
        "free_front q (bufOffset c + nat n) = Some (q', off', m)"
        "drop off' (concat q') = drop (bufOffset c + nat n) (concat q)" "off' < length (concat q')"
        "m + length (concat q') = length (concat q)" by blast
      then show ?thesis
        using Some no wf [where r = "Some q'" and k = off'] un [where r = "Some q'" and k = off'] by (simp add: eval queued_def)
    qed
  qed
qed

lemma shift_out_stream:
  assumes "wf_recv c" and "int n \<le> request_length c"
  shows "\<exists>c'. shift_out n c = Some c' \<and> wf_recv c' \<and> queued c' = queued c \<and>
           unread c = take n (http_request_buffer c) @ unread c'"
proof -
  define left where "left = request_length c - int n"
  have l: "nat left + n = nat (request_length c)" "nat (request_length c) \<le> length (http_request_buffer c)"
    using assms by (auto simp: left_def wf_recv_def)
  show ?thesis
  proof (cases "0 < left")
    case True
    have lt: "min (length (http_request_buffer c) - n) (nat left) = nat left" using l by simp
    define b where "b = take (nat left) (drop n (http_request_buffer c)) @ drop (nat left) (http_request_buffer c)"
    have m: "c_memmove (http_request_buffer c) 0 n (nat left) = Some b"
      using l by (simp add: c_memmove_def c_bytes_def c_cpy_def b_def lt add.commute)
    have "take (nat left) b = drop n (take (nat (request_length c)) (http_request_buffer c))"
      using l by (simp add: b_def drop_take lt) (metis add_diff_cancel_right')
    moreover have "length b = length (http_request_buffer c)" using l by (simp add: b_def)
    moreover have "take (nat (request_length c)) (http_request_buffer c) = take n (http_request_buffer c) @
        drop n (take (nat (request_length c)) (http_request_buffer c))"
      using l by (metis append_take_drop_id le_add2 min.absorb1 take_take)
    ultimately show ?thesis
      using True m assms l unfolding shift_out_def Let_def left_def [symmetric]
      by (intro exI [of _ "c\<lparr>http_request_buffer := b, request_length := left\<rparr>"])
        (cases "reqBufList c"; simp add: wf_recv_def unread_def queued_def left_def)
  next
    case False
    then have "left = 0" using assms(2) by (simp add: left_def)
    moreover from this l have "n = nat (request_length c)" by simp
    ultimately show ?thesis
      using assms l unfolding shift_out_def Let_def left_def [symmetric]
      by (intro exI [of _ "c\<lparr>request_length := left\<rparr>"])
        (cases "reqBufList c"; simp add: wf_recv_def unread_def queued_def)
  qed
qed

section \<open>Requests without a session\<close>

text \<open>Whether the token belongs to a session that was opened from the address of the client.\<close>

definition logged_in :: "REQUEST_CONTEXT \<Rightarrow> world \<Rightarrow> bool" where
  "logged_in c w \<longleftrightarrow> (\<exists>token k. c_str (rsp_token (ctxResponse c)) 0 = Some token \<and>
     GetSession (Some token) (w_sessions w) = Some (Some k) \<and> nLoginIP (w_sessions w ! k) = ipRemote c)"

text \<open>Everything that is not the clock.\<close>

definition untouched :: "world \<Rightarrow> world \<Rightarrow> bool" where
  "untouched w w' \<longleftrightarrow> w' = w\<lparr>w_ticks := w_ticks w'\<rparr>"

lemma c_strcpy_ok: "i + length s < length b \<Longrightarrow> \<exists>b'. c_strcpy b i s = Some b' \<and> length b' = length b"
  by (simp add: c_strcpy_def c_cpy_def)

lemma redirect_to_ok:
  assumes "length (responsePath c) = 128" and "length page < 128" and "NUL \<notin> set page"
  shows "\<exists>rp. redirect_to page a c =
           Some (upd_rsp (\<lambda>r. r\<lparr>authorized := a\<rparr>) (c\<lparr>responsePath := rp, result := CODE_REDIRECT\<rparr>)) \<and>
         c_str rp 0 = Some page"
  using c_strcpy_ok [of 0 page "responsePath c"] c_strcpy_str [of "responsePath c" page] assms
  by (auto simp: redirect_to_def)

text \<open>
  What the step behind the header does with a request that is not logged in: the answer becomes a redirection, the
  handler's function is left out, and the body is received all the same.
\<close>

definition sent_to_login :: "REQUEST_CONTEXT \<Rightarrow> nat option \<Rightarrow> cbuf \<Rightarrow> REQUEST_CONTEXT" where
  "sent_to_login c s rp = upd_rsp (\<lambda>r. r\<lparr>authorized := CODE_REDIRECT\<rparr>) (c\<lparr>session := s, responsePath := rp, result := CODE_REDIRECT\<rparr>)"

lemma after_header_redirects:
  assumes token: "c_str (rsp_token (ctxResponse c)) 0 = Some token"
    and sess: "GetSession (Some token) (w_sessions w) = Some s"
    and ext: "c_str (extension c) 0 = Some ext" "SessionTypes ext"
    and auth: "opt_set (options c) CGI_OPT_AUTH_REQUIRED" and h: "handler c = Some h"
    and out: "\<not> logged_in c w" and len: "length (responsePath c) = 128"
  shows "\<exists>rp. c_str rp 0 = Some WEB_DEFAULT_PAGE \<and> after_header c w =
    Some (if 0 < chunked c then ((sent_to_login c s rp)\<lparr>state := HTTP_STATE_CHUNK_LEN_RECEIVING\<rparr>, w)
          else if 0 < contentLength c then ((sent_to_login c s rp)\<lparr>state := HTTP_STATE_BODY_RECEIVING\<rparr>, w)
          else body_done (sent_to_login c s rp) w)"
proof -
  define c1 where "c1 = upd_rsp (\<lambda>r. r\<lparr>authorized := CODE_OK\<rparr>) (c\<lparr>session := s\<rparr>)"
  have known: "(case s of None \<Rightarrow> False | Some k \<Rightarrow> ipRemote c1 = nLoginIP (w_sessions w ! k)) = False"
    using out sess token by (auto simp: logged_in_def c1_def upd_rsp_def split: option.splits)
  have l1: "length (responsePath c1) = 128" using len by (simp add: c1_def upd_rsp_def)
  from redirect_to_ok [OF l1, of WEB_DEFAULT_PAGE CODE_REDIRECT] obtain rp
    where r: "redirect_to WEB_DEFAULT_PAGE CODE_REDIRECT c1 =
        Some (upd_rsp (\<lambda>r. r\<lparr>authorized := CODE_REDIRECT\<rparr>) (c1\<lparr>responsePath := rp, result := CODE_REDIRECT\<rparr>))"
      and rp: "c_str rp 0 = Some WEB_DEFAULT_PAGE"
    by (auto simp: WEB_DEFAULT_PAGE_def)
  have c2: "upd_rsp (\<lambda>r. r\<lparr>authorized := CODE_REDIRECT\<rparr>) (c1\<lparr>responsePath := rp, result := CODE_REDIRECT\<rparr>) = sent_to_login c s rp"
    by (simp add: sent_to_login_def c1_def upd_rsp_def)
  have o1: "opt_set (options c1) CGI_OPT_AUTH_REQUIRED" using auth by (simp add: c1_def upd_rsp_def)
  have f: "chunked (sent_to_login c s rp) = chunked c" "contentLength (sent_to_login c s rp) = contentLength c"
    by (simp_all add: sent_to_login_def upd_rsp_def)
  have eval: "after_header c w =
      (case (if 0 < chunked c then ((sent_to_login c s rp)\<lparr>state := HTTP_STATE_CHUNK_LEN_RECEIVING\<rparr>, w)
             else if 0 < contentLength c then ((sent_to_login c s rp)\<lparr>state := HTTP_STATE_BODY_RECEIVING\<rparr>, w)
             else body_done (sent_to_login c s rp) w) of (c, w) \<Rightarrow> CGI_HeadersReceived c w)"
    unfolding after_header_def Let_def token sess ext(1) Option.bind.bind_lunit c1_def [symmetric] known
    using ext(2) o1 by (simp only: r c2 f Option.bind.bind_lunit simp_thms if_True)
  have gate: "CGI_HeadersReceived c3 w' = Some (c3, w')"
    if "handler c3 = Some h" "options c3 = options c" "authorized (ctxResponse c3) = CODE_REDIRECT" "result c3 = CODE_REDIRECT" for c3 w'
    using that auth by (simp add: CGI_HeadersReceived_def CODE_OK_def CODE_REDIRECT_def)
  have g: "CGI_HeadersReceived ((sent_to_login c s rp)\<lparr>state := x\<rparr>) w = Some ((sent_to_login c s rp)\<lparr>state := x\<rparr>, w)"
    "CGI_HeadersReceived (fst (body_done (sent_to_login c s rp) w)) (snd (body_done (sent_to_login c s rp) w)) =
      Some (body_done (sent_to_login c s rp) w)" for x
    using h by (auto simp: gate sent_to_login_def upd_rsp_def body_done_def split: prod.split)
  then show ?thesis unfolding eval using rp by (intro exI [of _ rp]) (simp add: case_prod_beta)
qed

text \<open>
  C1. The login check in front of the handlers: at the point where the header of a request is complete,
  its handler requires a login, its extension takes part in sessions and the token of the request
  does not belong to a session that was opened from the same address, the step that follows
  (\<open>after_header\<close>) makes the answer a redirection to the login page and leaves out the function
  \<open>OnHeadersReceived\<close> of the handler: no file is opened, nothing is stored for the handler, and of
  the world only the clock has moved. The property is about this step alone. The function for single
  header lines has run before it, and the functions for the body and for the answer, behind it, are
  not guarded.
\<close>

theorem unauthorized_request_redirected:
  assumes token: "c_str (rsp_token (ctxResponse c)) 0 = Some token"
    and sess: "GetSession (Some token) (w_sessions w) = Some s"
    and ext: "c_str (extension c) 0 = Some ext" "SessionTypes ext"
    and auth: "opt_set (options c) CGI_OPT_AUTH_REQUIRED" and h: "handler c = Some h"
    and out: "\<not> logged_in c w"
    and len: "length (responsePath c) = 128"
  shows "\<exists>c' w'. after_header c w = Some (c', w') \<and> result c' = CODE_REDIRECT \<and>
           c_str (responsePath c') 0 = Some WEB_DEFAULT_PAGE \<and> fileHandle c' = fileHandle c \<and>
           session c' = s \<and> appContext (ctxResponse c') = appContext (ctxResponse c) \<and> untouched w w'"
proof -
  obtain rp where r: "c_str rp 0 = Some WEB_DEFAULT_PAGE" "after_header c w =
    Some (if 0 < chunked c then ((sent_to_login c s rp)\<lparr>state := HTTP_STATE_CHUNK_LEN_RECEIVING\<rparr>, w)
          else if 0 < contentLength c then ((sent_to_login c s rp)\<lparr>state := HTTP_STATE_BODY_RECEIVING\<rparr>, w)
          else body_done (sent_to_login c s rp) w)"
    using after_header_redirects [OF assms] by blast
  then show ?thesis
    by (auto simp: body_done_def tick_stamp_def LWIP_GetTickCount_def sent_to_login_def upd_rsp_def untouched_def Let_def)
qed

definition demo_upload :: REQUEST_CONTEXT where
  "demo_upload = (zeroContext 0)\<lparr>extension := ''cgi'' @ replicate 5 NUL,
     options := or CGI_OPT_AUTH_REQUIRED CGI_OPT_POST_ENABLED, handler := Some g_cgiUpload\<rparr>"

theorem unauthorized_request_redirected_witness:
  "\<exists>c' w'. after_header demo_upload demo_world = Some (c', w') \<and> result c' = CODE_REDIRECT \<and>
     c_str (responsePath c') 0 = Some WEB_DEFAULT_PAGE \<and> session c' = None \<and> untouched demo_world w'"
proof -
  have 1: "c_str (rsp_token (ctxResponse demo_upload)) 0 = Some []"
    by (simp add: demo_upload_def zeroContext_def zeroResponse_def c_str_def)
  have 2: "GetSession (Some []) (w_sessions demo_world) = Some None" by (simp add: GetSession_def)
  have 3: "c_str (extension demo_upload) 0 = Some ''cgi''" by (simp add: demo_upload_def zeroContext_def c_str_def)
  have 6: "SessionTypes ''cgi''" by code_simp
  have 4: "opt_set (options demo_upload) CGI_OPT_AUTH_REQUIRED" "handler demo_upload = Some g_cgiUpload"
    "length (responsePath demo_upload) = 128"
    by (simp_all add: demo_upload_def zeroContext_def opt_set_def cgi_opts)
  have 5: "\<not> logged_in demo_upload demo_world" using 1 by (simp add: logged_in_def GetSession_def)
  from unauthorized_request_redirected [OF 1 2 3 6 4(1,2) 5 4(3)] show ?thesis by blast
qed

end
