(* ===== verification/Server.thy ===== *)
theory Server
  imports Request
begin

text \<open>
  \<^verbatim>\<open>httpd/http_core.c\<close>, the callbacks of the transport. The argument that the transport
  passes is the index of a context, or \<^const>\<open>None\<close> for a connection that has lost its context.
\<close>

record server =
  g_httpContext :: "REQUEST_CONTEXT list"
  sv_world :: world

text \<open>The result of a callback: \<^verbatim>\<open>ERR_OK\<close>, \<^verbatim>\<open>ERR_VAL\<close> or \<^verbatim>\<open>ERR_ABRT\<close>.\<close>

datatype cb_result = CB_OK | CB_VAL | CB_ABRT

text \<open>An operation on one context.\<close>

definition on_context ::
  "nat \<Rightarrow> (REQUEST_CONTEXT \<Rightarrow> world \<Rightarrow> (REQUEST_CONTEXT \<times> world) option) \<Rightarrow> server \<Rightarrow> server option" where
  "on_context i f s =
     (if i < length (g_httpContext s)
      then do { (c, w) \<leftarrow> f (g_httpContext s ! i) (sv_world s);
                Some (s\<lparr>g_httpContext := (g_httpContext s)[i := c], sv_world := w\<rparr>) }
      else None)"

section \<open>Start and stop\<close>

definition SetupHttpContext :: "world \<Rightarrow> server option" where
  "SetupHttpContext w =
     do { m \<leftarrow> CGI_SetupMapping;
          Some \<lparr>g_httpContext = map zeroContext [0..<MAX_CONNECTIONS],
                sv_world = w\<lparr>w_sessions := SetupSession, w_mapping := m\<rparr>\<rparr> }"

text \<open>
  \<open>pcb_new\<close> is what \<open>altcp_tls_new\<close> or \<open>altcp_tcp_new_ip_type\<close> gives, \<open>pcb_listen\<close> what
  \<open>altcp_listen_with_backlog_and_err\<close> gives.
\<close>

definition HttpdInit :: "int \<Rightarrow> nat option \<Rightarrow> nat option \<Rightarrow> world \<Rightarrow> nat option \<times> world" where
  "HttpdInit tls pcb_new pcb_listen w =
     (let w = (if 0 < tls then w\<lparr>httpsListening := 0\<rparr> else w)
      in if pcb_new = None then (None, w)
         else (pcb_listen, if 0 < tls \<and> pcb_listen \<noteq> None then w\<lparr>httpsListening := 1\<rparr> else w))"

fun free_all :: "REQUEST_CONTEXT list \<Rightarrow> world \<Rightarrow> (REQUEST_CONTEXT list \<times> world) option" where
  "free_all [] w = Some ([], w)"
| "free_all (c # cs) w =
     do { (c, w) \<leftarrow> FreeHttpContext c w; (cs, w) \<leftarrow> free_all cs w; Some (c # cs, w) }"

definition HttpdStop :: "nat \<Rightarrow> server \<Rightarrow> server option" where
  "HttpdStop pcbListen s =
     do { let w = snd (altcp_close pcbListen (sv_world s));
          (cs, w) \<leftarrow> free_all (g_httpContext s) w;
          Some (s\<lparr>g_httpContext := cs, sv_world := w\<rparr>) }"

section \<open>Callbacks\<close>

text \<open>A connection without a context: it is closed, or aborted where closing fails.\<close>

definition close_or_abort :: "nat \<Rightarrow> world \<Rightarrow> cb_result \<times> world" where
  "close_or_abort p w =
     (let (ok, w) = altcp_close p w
      in if ok then (CB_OK, w) else (CB_ABRT, w\<lparr>w_aborted := w_aborted w @ [p]\<rparr>))"

text \<open>
  The address of the accepted connection is read before \<open>pcbAccepted\<close> is compared with
  \<^verbatim>\<open>NULL\<close>.
\<close>

definition OnHttpAccept ::
  "nat option \<Rightarrow> bool \<Rightarrow> u32 \<Rightarrow> u16 \<Rightarrow> u16 \<Rightarrow> bool \<Rightarrow> server \<Rightarrow> (cb_result \<times> server) option" where
  "OnHttpAccept pcbAccepted errIn_ok remote_ip remote_port local_port tls s = (case pcbAccepted of
       None \<Rightarrow> None
     | Some p \<Rightarrow>
         if \<not> errIn_ok then Some (CB_VAL, s)
         else do {
           (i, cs, w) \<leftarrow> GetHttpContext (g_httpContext s) (sv_world s);
           case i of
             None \<Rightarrow> (let (r, w) = close_or_abort p w in Some (r, s\<lparr>g_httpContext := cs, sv_world := w\<rparr>))
           | Some i \<Rightarrow>
               Some (CB_OK, s\<lparr>g_httpContext := cs[i := (cs ! i)\<lparr>pcb := Some p, https := (if tls then 1 else 0),
                        ipRemote := remote_ip, portRemote := remote_port, portLocal := local_port\<rparr>],
                      sv_world := w\<rparr>) })"

text \<open>What every event of a connection does with an error of the request.\<close>

definition handle_errors ::
  "int \<Rightarrow> REQUEST_CONTEXT \<Rightarrow> world \<Rightarrow> (bool \<times> REQUEST_CONTEXT \<times> world) option" where
  "handle_errors limit c w =
     (let c = (if result c \<le> limit then CGI_Cancel c else c)
      in if result c \<le> -500 then do { (c, w) \<leftarrow> CloseHttpContext c w; Some (True, c, w) }
         else Some (False, c, w))"

text \<open>Received data goes to the queue, or to the receive buffer when all of it fits.\<close>

definition accept_data :: "pbuf_chain \<Rightarrow> REQUEST_CONTEXT \<Rightarrow> world \<Rightarrow> (REQUEST_CONTEXT \<times> world) option" where
  "accept_data p c w = (case reqBufList c of
       Some q \<Rightarrow> Some (c\<lparr>reqBufList := Some (q @ p)\<rparr>, w)
     | None \<Rightarrow>
         let tot_len = length (concat p)
         in if max_level c - request_length c < int tot_len then Some (c\<lparr>reqBufList := Some p\<rparr>, w)
            else do { c \<leftarrow> put_received (concat p) c; Some (c, w\<lparr>w_recved := w_recved w + tot_len\<rparr>) })"

text \<open>The use of the session is stamped unless the request only asks whether it is alive.\<close>

definition session_stamp ::
  "(nat option \<Rightarrow> u32 \<Rightarrow> sessions \<Rightarrow> sessions) \<Rightarrow> REQUEST_CONTEXT \<Rightarrow> world \<Rightarrow> world" where
  "session_stamp f c w =
     (case session c of
        Some k \<Rightarrow>
          if checkAlive c = 0 \<and> live (w_sessions w ! k)
          then let (t, w) = LWIP_GetTickCount w in w\<lparr>w_sessions := f (Some k) t (w_sessions w)\<rparr>
          else w
      | None \<Rightarrow> w)"

definition receive_event ::
  "pbuf_chain option \<Rightarrow> REQUEST_CONTEXT \<Rightarrow> world \<Rightarrow> (REQUEST_CONTEXT \<times> world) option" where
  "receive_event p c w =
     (if p = None \<and> state c = HTTP_STATE_IDLE then CloseHttpContext c w
      else do {
        let c = (if p = None then c\<lparr>peer_closing := 1\<rparr> else c);
        let (t, w) = tick_stamp w;
        let c = c\<lparr>req_tLastReceived := t\<rparr>;
        (c, w) \<leftarrow> (case p of None \<Rightarrow> Some (c, w) | Some q \<Rightarrow> accept_data q c w);
        (c, w) \<leftarrow> HttpRequestProc HTTP_PROC_CALLER_RECV c w;
        (closed, c, w) \<leftarrow> handle_errors (-400) c w;
        Some (c, if closed then w else session_stamp SessionReceived c w) })"

definition OnHttpReceive :: "nat option \<Rightarrow> pbuf_chain option \<Rightarrow> server \<Rightarrow> server option" where
  "OnHttpReceive arg p s = (case arg of
       None \<Rightarrow> Some (case p of
           None \<Rightarrow> s
         | Some q \<Rightarrow> s\<lparr>sv_world := (sv_world s)\<lparr>w_recved := w_recved (sv_world s) + length (concat q)\<rparr>\<rparr>)
     | Some i \<Rightarrow> on_context i (receive_event p) s)"

definition poll_event :: "REQUEST_CONTEXT \<Rightarrow> world \<Rightarrow> (REQUEST_CONTEXT \<times> world) option" where
  "poll_event c w =
     (let (timeout, w) = IsContextTimeout c w
      in if timeout then CloseHttpContext (CGI_Cancel c) w
         else do {
           (c, w) \<leftarrow> HttpRequestProc HTTP_PROC_CALLER_POLL c w;
           (closed, c, w) \<leftarrow> handle_errors (-1) c w;
           Some (c, w) })"

text \<open>A connection without a context is closed by its poll and sent events.\<close>

definition orphan_event :: "nat \<Rightarrow> server \<Rightarrow> cb_result \<times> server" where
  "orphan_event p s = (let (r, w) = close_or_abort p (sv_world s) in (r, s\<lparr>sv_world := w\<rparr>))"

definition OnHttpPoll :: "nat option \<Rightarrow> nat \<Rightarrow> server \<Rightarrow> (cb_result \<times> server) option" where
  "OnHttpPoll arg p s = (case arg of
       Some i \<Rightarrow> map_option (Pair CB_OK) (on_context i poll_event s)
     | None \<Rightarrow> Some (orphan_event p s))"

definition sent_event :: "nat \<Rightarrow> REQUEST_CONTEXT \<Rightarrow> world \<Rightarrow> (REQUEST_CONTEXT \<times> world) option" where
  "sent_event len c w =
     do { let w = session_stamp SessionSent c w;
          let c = upd_rsp (\<lambda>r. r\<lparr>totalSent := totalSent r + int len\<rparr>) c;
          (c, w) \<leftarrow> HttpRequestProc HTTP_PROC_CALLER_SENT c w;
          (closed, c, w) \<leftarrow> handle_errors (-1) c w;
          Some (c, w) }"

definition OnHttpSent :: "nat option \<Rightarrow> nat \<Rightarrow> nat \<Rightarrow> server \<Rightarrow> (cb_result \<times> server) option" where
  "OnHttpSent arg p len s = (case arg of
       Some i \<Rightarrow> map_option (Pair CB_OK) (on_context i (sent_event len) s)
     | None \<Rightarrow> Some (orphan_event p s))"

definition OnHttpError :: "nat option \<Rightarrow> server \<Rightarrow> server option" where
  "OnHttpError arg s = (case arg of
       None \<Rightarrow> Some s
     | Some i \<Rightarrow> on_context i (\<lambda>c w. FreeHttpContext (CGI_Cancel c) w) s)"

section \<open>Received data is a stream\<close>

lemma accept_data_stream:
  assumes "wf_recv c" and "concat p \<noteq> []"
  shows "\<exists>c' w'. accept_data p c w = Some (c', w') \<and> wf_recv c' \<and> unread c' = unread c @ concat p \<and>
           w_recved w' + length (queued c') = w_recved w + length (queued c) + length (concat p)"
proof (cases "reqBufList c")
  case (Some q)
  then show ?thesis
    using assms(1) by (simp add: accept_data_def wf_recv_def unread_def queued_def)
next
  case None
  show ?thesis
  proof (cases "max_level c - request_length c < int (length (concat p))")
    case True
    then show ?thesis
      using None assms by (simp add: accept_data_def wf_recv_def unread_def queued_def)
  next
    case False
    then have "0 \<le> request_length c" "length (http_request_buffer c) = MAX_REQ_BUF_SIZE + 4"
      "request_length c + int (length (concat p)) \<le> int MAX_REQ_BUF_SIZE"
      using assms(1) by (auto simp: wf_recv_def)
    from put_received_ok [OF this] obtain b where "put_received (concat p) c =
        Some (c\<lparr>http_request_buffer := b, request_length := request_length c + int (length (concat p))\<rparr>)"
      "length b = MAX_REQ_BUF_SIZE + 4" "take (nat (request_length c + int (length (concat p)))) b =
        take (nat (request_length c)) (http_request_buffer c) @ concat p" by blast
    with None False assms(1) show ?thesis
      by (simp add: accept_data_def wf_recv_def unread_def queued_def Let_def)
  qed
qed

datatype recv_op = Arrive pbuf_chain | Load | Use nat

text \<open>
  Arrivals, moves from the queue to the receive buffer and uses of up to \<open>n\<close> bytes of the buffer;
  the first result holds the bytes that were used.
\<close>

fun recv_ops :: "recv_op list \<Rightarrow> REQUEST_CONTEXT \<Rightarrow> world \<Rightarrow> (char list \<times> REQUEST_CONTEXT \<times> world) option" where
  "recv_ops [] c w = Some ([], c, w)"
| "recv_ops (Arrive p # os) c w = do { (c, w) \<leftarrow> accept_data p c w; recv_ops os c w }"
| "recv_ops (Load # os) c w = do { (c, w) \<leftarrow> dequeue c w; recv_ops os c w }"
| "recv_ops (Use n # os) c w =
     do { c' \<leftarrow> shift_out (min n (nat (request_length c))) c;
          (u, c'', w) \<leftarrow> recv_ops os c' w;
          Some (take (min n (nat (request_length c))) (http_request_buffer c) @ u, c'', w) }"

fun arrived :: "recv_op list \<Rightarrow> char list" where
  "arrived [] = []"
| "arrived (Arrive p # os) = concat p @ arrived os"
| "arrived (x # os) = arrived os"

definition no_empty :: "recv_op \<Rightarrow> bool" where
  "no_empty x = (case x of Arrive p \<Rightarrow> concat p \<noteq> [] | _ \<Rightarrow> True)"

text \<open>
  C4. Received data is a stream: whatever packets arrive and whenever they are taken from the
  queue, the bytes that are used, followed by those that still wait in the buffer and in the
  queue, are the bytes that waited before and those that arrived, in their order. Each byte is
  given back to the receive window exactly once, when it leaves the queue.
\<close>

theorem received_stream_refines:
  assumes "wf_recv c" and "list_all no_empty os"
  shows "\<exists>u c' w'. recv_ops os c w = Some (u, c', w') \<and> wf_recv c' \<and>
           u @ unread c' = unread c @ arrived os \<and>
           w_recved w' + length (queued c') = w_recved w + length (queued c) + length (arrived os)"
  using assms
proof (induction os arbitrary: c w)
  case Nil
  then show ?case by simp
next
  case (Cons x os)
  then have os: "list_all no_empty os" by simp
  show ?case
  proof (cases x)
    case (Arrive p)
    from Cons.prems Arrive have p: "concat p \<noteq> []" by (simp add: no_empty_def)
    from accept_data_stream [OF Cons.prems(1) p, of w] obtain c1 w1 where a: "accept_data p c w = Some (c1, w1)" "wf_recv c1"
      "unread c1 = unread c @ concat p"
      "w_recved w1 + length (queued c1) = w_recved w + length (queued c) + length (concat p)" by blast
    from Cons.IH [OF a(2) os, of w1] a Arrive show ?thesis by (elim exE conjE) simp
  next
    case Load
    from dequeue_stream [OF Cons.prems(1), of w] obtain c1 w1 where a: "dequeue c w = Some (c1, w1)" "wf_recv c1"
      "unread c1 = unread c" "w_recved w1 + length (queued c1) = w_recved w + length (queued c)" by blast
    from Cons.IH [OF a(2) os, of w1] a Load show ?thesis by (elim exE conjE) simp
  next
    case (Use n)
    have "int (min n (nat (request_length c))) \<le> request_length c" using Cons.prems(1) by (auto simp: wf_recv_def)
    from shift_out_stream [OF Cons.prems(1) this] obtain c1 where a:
      "shift_out (min n (nat (request_length c))) c = Some c1" "wf_recv c1" "queued c1 = queued c"
      "unread c = take (min n (nat (request_length c))) (http_request_buffer c) @ unread c1" by blast
    from Cons.IH [OF a(2) os, of w] a Use show ?thesis by (elim exE conjE) simp
  qed
qed

theorem received_stream_refines_witness:
  "\<exists>u c' w'. recv_ops [Arrive [''GET '', ''/''], Load, Use 3] ((zeroContext 0)\<lparr>max_level := 800\<rparr>) demo_world = Some (u, c', w') \<and>
     u @ unread c' = ''GET /'' \<and> w_recved w' + length (queued c') = 5"
proof -
  have 1: "wf_recv ((zeroContext 0)\<lparr>max_level := 800\<rparr>)"
    by (simp add: wf_recv_def zeroContext_def MAX_REQ_BUF_SIZE_def TCP_MSS_def)
  have 2: "list_all no_empty [Arrive [''GET '', ''/''], Load, Use 3]" by (simp add: no_empty_def)
  have 3: "unread ((zeroContext 0)\<lparr>max_level := 800\<rparr>) = []" "queued ((zeroContext 0)\<lparr>max_level := 800\<rparr>) = []" "w_recved demo_world = 0"
    by (simp_all add: unread_def queued_def zeroContext_def demo_world_def)
  from received_stream_refines [OF 1 2, of demo_world] 3 show ?thesis by (simp, elim exE conjE) auto
qed

section \<open>Accepting connections\<close>

text \<open>A context without a connection has no open file: \<open>FreeHttpContext\<close> leaves it like that.\<close>

definition idle_clean :: "REQUEST_CONTEXT \<Rightarrow> bool" where
  "idle_clean c \<longleftrightarrow> (pcb c = None \<longrightarrow> fileHandle c = None)"

lemma find_context_None: "find_context i cs = None \<longleftrightarrow> (\<forall>c \<in> set cs. pcb c \<noteq> None)"
  by (induction cs arbitrary: i) auto

lemma find_context_Some:
  "find_context i cs = Some k \<Longrightarrow>
   i \<le> k \<and> k < i + length cs \<and> pcb (cs ! (k - i)) = None \<and> (\<forall>j < k - i. pcb (cs ! j) \<noteq> None)"
proof (induction cs arbitrary: i)
  case (Cons c cs)
  show ?case
  proof (cases "pcb c = None")
    case False
    with Cons.prems have "find_context (Suc i) cs = Some k" by simp
    note ih = Cons.IH [OF this]
    have "\<forall>j < k - i. pcb ((c # cs) ! j) \<noteq> None"
    proof (intro allI impI)
      fix j assume "j < k - i"
      then show "pcb ((c # cs) ! j) \<noteq> None" using ih False by (cases j) auto
    qed
    moreover have "k - i = Suc (k - Suc i)" using ih by linarith
    ultimately show ?thesis using ih by simp
  qed (use Cons.prems in auto)
qed simp

lemma close_file_clean: "returns (close_file c w) (\<lambda>r. fileHandle (fst r) = None \<and> pcb (fst r) = pcb c)"
  by (simp add: close_file_def returns_simps)

lemma FreeHttpContext_idle: "returns (FreeHttpContext c w) (\<lambda>r. pcb (fst r) = None \<and> idle_clean (fst r))"
  unfolding FreeHttpContext_def Let_def returns_simps
  by (auto simp: returns_def idle_clean_def clear_texts_def dest!: returnsD [OF close_file_clean])

lemma ResetHttpContext_clean:
  assumes "fileHandle c = None"
  shows "\<exists>c' w'. ResetHttpContext c w = Some (c', w') \<and> state c' = HTTP_STATE_IDLE \<and> reqBufList c' = reqBufList c \<and>
    handler c' = None \<and> requestMethod c' = -1 \<and> result c' = 0 \<and> fileHandle c' = None"
  using assms by (simp add: ResetHttpContext_def close_file_def clear_texts_def Let_def split_def)

text \<open>
  C11. At most as many connections as there are contexts: a new connection takes the first context
  without a connection, which is made empty, and leaves the others alone; when all are in use the
  connection is closed, or aborted where the transport does not let it close, and no context changes.
\<close>

theorem accept_first_free:
  assumes s: "list_all idle_clean (g_httpContext s)"
  shows "\<exists>r s'. OnHttpAccept (Some p) True ip rport lport tls s = Some (r, s') \<and>
    length (g_httpContext s') = length (g_httpContext s) \<and> list_all idle_clean (g_httpContext s') \<and>
    (case find_context 0 (g_httpContext s) of
       None \<Rightarrow> (\<forall>c \<in> set (g_httpContext s). pcb c \<noteq> None) \<and> g_httpContext s' = g_httpContext s \<and>
               p \<in> set (w_closed (sv_world s')) \<union> set (w_aborted (sv_world s'))
     | Some i \<Rightarrow> r = CB_OK \<and> i < length (g_httpContext s) \<and> pcb (g_httpContext s ! i) = None \<and>
               (\<forall>j < i. pcb (g_httpContext s ! j) \<noteq> None) \<and>
               (\<forall>j. j \<noteq> i \<longrightarrow> g_httpContext s' ! j = g_httpContext s ! j) \<and>
               (let c = g_httpContext s' ! i in pcb c = Some p \<and> ipRemote c = ip \<and> state c = HTTP_STATE_IDLE \<and>
                  reqBufList c = None \<and> handler c = None \<and> requestMethod c = -1 \<and> result c = 0))"
proof (cases "find_context 0 (g_httpContext s)")
  case None
  then show ?thesis
    using s find_context_None [of 0 "g_httpContext s"]
    by (auto simp: OnHttpAccept_def GetHttpContext_def close_or_abort_def altcp_close_def Let_def)
next
  case (Some i)
  define cs where "cs = g_httpContext s"
  have i: "i < length cs" "pcb (cs ! i) = None" "\<forall>j < i. pcb (cs ! j) \<noteq> None"
    using find_context_Some [OF Some] by (auto simp: cs_def)
  define c where "c = (cs ! i)\<lparr>reqBufList := None, bufOffset := 0, peer_closing := 0\<rparr>"
  have "fileHandle c = None" using s i by (simp add: c_def cs_def list_all_length idle_clean_def)
  from ResetHttpContext_clean [OF this, of "sv_world s"] obtain c' w' where
    r: "ResetHttpContext c (sv_world s) = Some (c', w')" "state c' = HTTP_STATE_IDLE" "reqBufList c' = None"
      "handler c' = None" "requestMethod c' = -1" "result c' = 0" "fileHandle c' = None" by (auto simp: c_def)
  define d where "d = c'\<lparr>pcb := Some p, https := (if tls then 1 else 0), ipRemote := ip, portRemote := rport, portLocal := lport\<rparr>"
  have g: "GetHttpContext (g_httpContext s) (sv_world s) = Some (Some i, cs[i := c'], w')"
    using Some r(1) by (simp add: GetHttpContext_def c_def cs_def)
  have e: "OnHttpAccept (Some p) True ip rport lport tls s = Some (CB_OK, s\<lparr>g_httpContext := cs[i := d], sv_world := w'\<rparr>)"
    using i(1) by (simp add: OnHttpAccept_def g d_def)
  have "list_all idle_clean (cs[i := d])"
    using s by (auto simp: cs_def list_all_iff d_def idle_clean_def dest!: set_update_subset_insert [THEN subsetD])
  with e Some i r show ?thesis by (simp add: cs_def [symmetric] d_def)
qed

theorem accept_first_free_witness:
  "\<exists>r s'. OnHttpAccept (Some 7) True 1 2 3 False \<lparr>g_httpContext = map zeroContext [0..<MAX_CONNECTIONS], sv_world = demo_world\<rparr> = Some (r, s') \<and>
     r = CB_OK \<and> pcb (g_httpContext s' ! 0) = Some 7"
proof -
  have 1: "list_all idle_clean (g_httpContext \<lparr>g_httpContext = map zeroContext [0..<MAX_CONNECTIONS], sv_world = demo_world\<rparr>)"
    by (simp add: idle_clean_def zeroContext_def list_all_iff)
  have 2: "find_context 0 (map zeroContext [0..<MAX_CONNECTIONS]) = Some 0"
    by (simp add: zeroContext_def MAX_CONNECTIONS_def upt_rec)
  from accept_first_free [OF 1, of 7 1 2 3 False] show ?thesis by (simp add: 2 Let_def, elim exE conjE) auto
qed

section \<open>Silent connections\<close>

lemma unat_up: "unat (ucast (x :: u32) :: u64) = unat x"
  using unat_u32_lt [of x] by (simp add: unsigned_ucast_eq take_bit_nat_eq_self)

lemma elapsed_stamps:
  fixes t t0 :: u32
  assumes "0 < t0" and "t0 \<le> t"
  shows "elapsed (ucast t) (stamp t0) = ucast (t - t0)"
proof -
  have 1: "unat (ucast t :: u64) = unat t" "unat (ucast t0 :: u64) = unat t0" "unat (ucast (t - t0) :: u64) = unat (t - t0)"
    by (simp_all add: unat_up)
  have s: "stamp t0 = ucast t0" "(ucast t0 :: u64) \<noteq> 0" using assms(1) 1(2) by (auto simp: stamp_def word_unat_eq_iff word_less_nat_alt)
  have "(ucast t0 :: u64) \<le> ucast t" using assms(2) 1 by (simp add: word_le_nat_alt)
  from elapsed_unat [OF s(2) this] 1 assms(2) show ?thesis
    by (simp add: s word_unat_eq_iff unat_sub)
qed

text \<open>
  Nothing waits to be done on a connection: the stack has handed over all data, and the receive
  buffer is empty or holds the beginning of a line of the header.
\<close>

definition nothing_waits :: "REQUEST_CONTEXT \<Rightarrow> bool" where
  "nothing_waits c \<longleftrightarrow> reqBufList c = None \<and> 0 \<le> result c \<and> peer_closing c \<le> 0 \<and>
     (request_length c = 0 \<or>
      state c = HTTP_STATE_HEADER_RECEIVING \<and> 0 < request_length c \<and> request_length c < int MAX_REQ_BUF_SIZE \<and>
      request_length c < max_level c \<and> nat (request_length c) \<le> length (http_request_buffer c) \<and>
      \<not> sublist CRLF (take (nat (request_length c)) (http_request_buffer c)))"

lemma sublist_pair_nth: "Suc i < length xs \<Longrightarrow> sublist [xs ! i, xs ! Suc i] xs"
proof -
  assume i: "Suc i < length xs"
  then have "xs = take i xs @ [xs ! i, xs ! Suc i] @ drop (Suc (Suc i)) xs"
    by (simp add: Cons_nth_drop_Suc)
  then show ?thesis unfolding sublist_def by blast
qed

lemma header_lines_none:
  assumes "n \<le> length (http_request_buffer c)" and "\<not> sublist CRLF (take n (http_request_buffer c))"
  shows "header_lines i pos n c w = Some (False, pos, c, w)"
proof (induction "n - i" arbitrary: i)
  case 0
  then show ?case by (simp add: header_lines.simps [of i])
next
  case (Suc k)
  then have IH: "header_lines (i + 1) pos n c w = Some (False, pos, c, w)" by simp
  show ?case
  proof (cases "i + 1 < n")
    case True
    then have "\<not> (http_request_buffer c ! i = CR \<and> http_request_buffer c ! Suc i = LF)"
      using sublist_pair_nth [of i "take n (http_request_buffer c)"] assms by auto
    then show ?thesis
      using True assms(1) IH by (subst header_lines.simps) (simp add: c_rd_def)
  qed (simp add: header_lines.simps [of i])
qed

lemma nothing_waits_leaves:
  assumes "nothing_waits c" "state c < HTTP_STATE_BODY_DONE"
  shows "HttpRequestProc caller c w = Some (c, w)"
proof -
  have d: "dequeue c w = Some (c, w)" using assms(1) by (simp add: dequeue_def nothing_waits_def)
  have r: "request_round c w = Some (Leave, c, w)"
  proof (cases "request_length c = 0")
    case True
    then show ?thesis by (simp add: request_round_def d)
  next
    case False
    then have n: "state c = HTTP_STATE_HEADER_RECEIVING" "0 < request_length c" "request_length c < int MAX_REQ_BUF_SIZE"
      "request_length c < max_level c" "reqBufList c = None" "0 \<le> result c"
      and h: "header_lines 0 0 (nat (request_length c)) c w = Some (False, 0, c, w)"
      using assms(1) header_lines_none [of "nat (request_length c)" c 0 0 w] by (auto simp: nothing_waits_def)
    have s: "start_request c w = (c, w)" using n(1) by (simp add: start_request_def http_states)
    have p: "parse_header (request_length c) c w = Some (False, request_length c, c, w)"
      using n h by (simp add: parse_header_def)
    show ?thesis
      using n s p False by (simp add: request_round_def d Let_def http_states)
  qed
  then show ?thesis
    using assms by (simp add: HttpRequestProc_def request_loop.simps [of c w] nothing_waits_def)
qed

text \<open>
  C12. A silent connection is closed, and not before: as long as no request has been routed to a
  handler, the next poll after more than the receive timeout since the last data closes the
  connection and empties its context, pending data included; a poll up to then leaves a connection
  on which nothing waits (no data, or the beginning of a header line) exactly as it is, and so does
  not close it.
\<close>

theorem silent_connection_closed:
  assumes c: "handler c = None" "fileHandle c = None" "pcb c = Some p" "state c < HTTP_STATE_BODY_DONE"
    and t: "req_tLastReceived c = stamp t0" "0 < t0" "t0 \<le> w_clock w (w_ticks w)"
  shows "if nReceiveTimeout c < w_clock w (w_ticks w) - t0
    then \<exists>c' w'. poll_event c w = Some (c', w') \<and> pcb c' = None \<and> state c' = HTTP_STATE_IDLE \<and>
           reqBufList c' = None \<and> request_length c' = 0 \<and>
           w_closed w' = w_closed w @ (if w_close_ok w (w_close_n w) then [p] else [])
    else nothing_waits c \<longrightarrow> poll_event c w = Some (c, w\<lparr>w_ticks := w_ticks w + 1\<rparr>)"
proof -
  have u: "(ucast (nReceiveTimeout c) :: u64) < ucast (w_clock w (w_ticks w) - t0) \<longleftrightarrow> nReceiveTimeout c < w_clock w (w_ticks w) - t0"
    by (simp add: word_less_nat_alt unat_up)
  have i: "fst (IsContextTimeout c w) \<longleftrightarrow> nReceiveTimeout c < w_clock w (w_ticks w) - t0"
    using c(4) t elapsed_stamps [OF t(2,3)] u by (simp add: IsContextTimeout_def LWIP_GetTickCount_def Let_def)
  have s: "snd (IsContextTimeout c w) = w\<lparr>w_ticks := w_ticks w + 1\<rparr>"
    by (simp add: IsContextTimeout_def LWIP_GetTickCount_def Let_def)
  show ?thesis
  proof (cases "nReceiveTimeout c < w_clock w (w_ticks w) - t0")
    case True
    with i s c show ?thesis
      by (cases "IsContextTimeout c w")
        (simp add: poll_event_def CGI_Cancel_def CloseHttpContext_def altcp_close_def FreeHttpContext_def CGI_Finish_def
          clear_texts_def close_file_def Let_def)
  next
    case False
    have "poll_event c w = Some (c, w\<lparr>w_ticks := w_ticks w + 1\<rparr>)" if n: "nothing_waits c"
      using False i s nothing_waits_leaves [OF n c(4)] n
      by (cases "IsContextTimeout c w") (simp add: poll_event_def handle_errors_def nothing_waits_def Let_def)
    with False show ?thesis by simp
  qed
qed

definition demo_silent :: REQUEST_CONTEXT where
  "demo_silent = (zeroContext 0)\<lparr>pcb := Some 7, req_tLastReceived := stamp 5, nReceiveTimeout := 900\<rparr>"

text \<open>A connection that stops in the middle of its first line.\<close>

definition demo_waiting :: REQUEST_CONTEXT where
  "demo_waiting = demo_silent\<lparr>nReceiveTimeout := 1000, state := HTTP_STATE_HEADER_RECEIVING, request_length := 5,
     max_level := 800, requestMethod := -1, http_request_buffer := ''GET /'' @ replicate 799 NUL\<rparr>"

theorem silent_connection_closed_witness:
  "(\<exists>c' w'. poll_event demo_silent demo_world = Some (c', w') \<and> pcb c' = None \<and> w_closed w' = [7]) \<and>
   poll_event demo_waiting demo_world = Some (demo_waiting, demo_world\<lparr>w_ticks := 1\<rparr>)"
proof
  have "handler demo_silent = None" "fileHandle demo_silent = None" "pcb demo_silent = Some 7"
    "state demo_silent < HTTP_STATE_BODY_DONE" "req_tLastReceived demo_silent = stamp 5" "(0 :: u32) < 5"
    "(5 :: u32) \<le> w_clock demo_world (w_ticks demo_world)"
    by (simp_all add: demo_silent_def zeroContext_def http_states demo_world_def)
  note r = silent_connection_closed [OF this]
  have 1: "nReceiveTimeout demo_silent < w_clock demo_world (w_ticks demo_world) - 5" "w_closed demo_world = []"
    "w_close_ok demo_world (w_close_n demo_world)"
    by (simp_all add: demo_silent_def demo_world_def)
  from r show "\<exists>c' w'. poll_event demo_silent demo_world = Some (c', w') \<and> pcb c' = None \<and> w_closed w' = [7]"
    unfolding 1(2) using 1(1,3) by (simp, elim exE conjE) auto
next
  have "handler demo_waiting = None" "fileHandle demo_waiting = None" "pcb demo_waiting = Some 7"
    "state demo_waiting < HTTP_STATE_BODY_DONE" "req_tLastReceived demo_waiting = stamp 5" "(0 :: u32) < 5"
    "(5 :: u32) \<le> w_clock demo_world (w_ticks demo_world)"
    by (simp_all add: demo_waiting_def demo_silent_def zeroContext_def http_states demo_world_def)
  note r = silent_connection_closed [OF this]
  have "take 5 (http_request_buffer demo_waiting) = ''GET /''" by (simp add: demo_waiting_def)
  moreover have "\<not> sublist CRLF ''GET /''" by code_simp
  ultimately have "nothing_waits demo_waiting"
    by (simp add: nothing_waits_def demo_waiting_def demo_silent_def zeroContext_def MAX_REQ_BUF_SIZE_def TCP_MSS_def)
  moreover have "\<not> nReceiveTimeout demo_waiting < w_clock demo_world (w_ticks demo_world) - 5" "w_ticks demo_world = 0"
    by (simp_all add: demo_waiting_def demo_world_def)
  ultimately show "poll_event demo_waiting demo_world = Some (demo_waiting, demo_world\<lparr>w_ticks := 1\<rparr>)"
    using r by simp
qed


definition demo_page :: REQUEST_CONTEXT where
  "demo_page = set_ssi (zeroSSI\<lparr>ssi_valid := 1, ssi_fp := Some (Stream 7)\<rparr>)
     ((zeroContext 0)\<lparr>handler := Some g_cgiWebApp, fileHandle := Some (Stream 7)\<rparr>)"


end
