(* ===== verification/Ssdp.thy ===== *)
theory Ssdp
  imports Device
begin

text \<open>
  \<^verbatim>\<open>ssdp/ssdp.c\<close>: the announcement of the device on the local network. The messages that are
  handed to UDP are recorded with their destination; \<open>alloc\<close> is the answer of \<open>pbuf_alloc\<close>.
  The lock is left out: listener, timer and setup run in one thread.
\<close>

section \<open>Data\<close>

definition UPNP_CACHE_SEC :: nat where "UPNP_CACHE_SEC = 1800"
definition UPNP_MULTICAST_ADDRESS :: string where "UPNP_MULTICAST_ADDRESS = ''239.255.255.250''"
definition UPNP_MULTICAST_IP :: u32 where "UPNP_MULTICAST_IP = 0xEFFFFFFA"
definition UPNP_MULTICAST_PORT :: u16 where "UPNP_MULTICAST_PORT = 1900"
definition UPNP_LOCATION_PORT :: nat where "UPNP_LOCATION_PORT = 80"
definition UPNP_LOCATION_XML :: string where "UPNP_LOCATION_XML = ''upnp_device.xml''"

datatype SSDP_TYPES = ADVERTISE_UP | ADVERTISE_DOWN | MSEARCH_REPLY

text \<open>\<open>timers\<close> counts the timeouts of \<open>ssdp_advertise\<close> that are set, \<open>joined\<close> the group memberships.\<close>

record ssdp =
  g_ssdpPcb :: bool
  joined :: nat
  timers :: nat
  sent_msgs :: "(u32 \<times> u16 \<times> string) list"

section \<open>Messages\<close>

definition ssdp_message :: "SSDP_TYPES \<Rightarrow> device \<Rightarrow> string" where
  "ssdp_message type d =
     (case type of
        MSEARCH_REPLY \<Rightarrow>
          ''HTTP/1.1 200 OK'' @ CRLF @
          ''CACHE-CONTROL: max-age='' @ fmt_u UPNP_CACHE_SEC @ CRLF @
          ''EXT: webport='' @ fmt_u UPNP_LOCATION_PORT @ CRLF @
          ''SN: '' @ GetDeviceSN @ CRLF
      | _ \<Rightarrow>
          ''NOTIFY * HTTP/1.1'' @ CRLF @
          ''HOST: '' @ UPNP_MULTICAST_ADDRESS @ '':'' @ fmt_u (unat UPNP_MULTICAST_PORT) @ CRLF @
          ''CACHE-CONTROL: max-age='' @ fmt_u UPNP_CACHE_SEC @ CRLF @
          ''NTS: '' @ (if type = ADVERTISE_UP then ''ssdp:alive'' else ''ssdp:byebye'') @ CRLF) @
     (if type = ADVERTISE_DOWN then []
      else ''LOCATION: http://'' @ dotted (GetMyIP d) @ ''/'' @ UPNP_LOCATION_XML @ CRLF) @
     ''SERVER: '' @ GetDeviceName @ '', UPnP/1.0'' @ CRLF @
     (if type = MSEARCH_REPLY then ''ST'' else ''NT'') @ '': upnp:rootdevice'' @ CRLF @
     ''USN: uuid:'' @ GetDeviceUUID @ ''::upnp:rootdevice'' @ CRLF @ CRLF"

text \<open>The text is built in an array of 768 bytes.\<close>

definition ssdp_send_to ::
  "SSDP_TYPES \<Rightarrow> u32 \<Rightarrow> u16 \<Rightarrow> bool \<Rightarrow> device \<Rightarrow> ssdp \<Rightarrow> ssdp option" where
  "ssdp_send_to type ipDest portDest alloc d s =
     do { b \<leftarrow> c_strcpy (replicate 768 NUL) 0 (ssdp_message type d);
          msg \<leftarrow> c_str b 0;
          let (ip, port) = (if type = MSEARCH_REPLY then (ipDest, portDest)
                            else (UPNP_MULTICAST_IP, UPNP_MULTICAST_PORT));
          Some (if alloc \<and> g_ssdpPcb s then s\<lparr>sent_msgs := sent_msgs s @ [(ip, port, msg)]\<rparr> else s) }"

section \<open>Start, stop and timer\<close>

definition ssdpInit :: "bool \<Rightarrow> ssdp \<Rightarrow> ssdp" where
  "ssdpInit udp_ok s = s\<lparr>g_ssdpPcb := udp_ok, joined := joined s + 1, timers := timers s + 1\<rparr>"

definition ssdpDown :: "bool \<Rightarrow> device \<Rightarrow> ssdp \<Rightarrow> ssdp option" where
  "ssdpDown alloc d s =
     do { s \<leftarrow> ssdp_send_to ADVERTISE_DOWN 0 0 alloc d (s\<lparr>timers := timers s - 1\<rparr>);
          Some (s\<lparr>g_ssdpPcb := False, joined := joined s - 1\<rparr>) }"

text \<open>Called by the timer, which is used up then and set again.\<close>

definition ssdp_advertise :: "bool \<Rightarrow> device \<Rightarrow> ssdp \<Rightarrow> ssdp option" where
  "ssdp_advertise alloc d s =
     do { s \<leftarrow> ssdp_send_to ADVERTISE_UP 0 0 alloc d (s\<lparr>timers := timers s - 1\<rparr>);
          Some (s\<lparr>timers := timers s + 1\<rparr>) }"

section \<open>Searches\<close>

record msearch =
  got_host :: bool
  got_st :: bool
  got_man :: bool
  got_mx :: bool
  ssdp_mx_min :: s32

definition no_fields :: msearch where
  "no_fields = \<lparr>got_host = False, got_st = False, got_man = False, got_mx = False, ssdp_mx_min = 0\<rparr>"

text \<open>One line behind the first; \<open>l\<close> is its text.\<close>

definition search_line :: "string \<Rightarrow> msearch \<Rightarrow> msearch" where
  "search_line l m =
     (if Strnicmp l ''Host:'' 5 = 0 then m\<lparr>got_host := True\<rparr>
      else if Strnicmp l ''ST:'' 3 = 0
      then (if c_strstr (drop 3 l) ''ssdp:all'' \<noteq> None \<or> c_strstr (drop 3 l) ''upnp:rootdevice'' \<noteq> None
            then m\<lparr>got_st := True\<rparr> else m)
      else if Strnicmp l ''Man:'' 4 = 0
      then (if c_strstr (drop 4 l) ''\"ssdp:discover\"'' \<noteq> None then m\<lparr>got_man := True\<rparr> else m)
      else if Strnicmp l ''MX:'' 3 = 0 then m\<lparr>ssdp_mx_min := ston (drop 3 l), got_mx := True\<rparr>
      else m)"

text \<open>
  The loop over the lines, up to \<open>bound\<close>, which is \<open>len - 1\<close> in 32 bits. \<^const>\<open>None\<close> inside is
  the early return of a packet that is no search.
\<close>

function search_loop ::
  "nat \<Rightarrow> nat \<Rightarrow> bool \<Rightarrow> nat \<Rightarrow> msearch \<Rightarrow> cbuf \<Rightarrow> msearch option option" where
  "search_loop bound i first begn m b =
     (if \<not> i < bound then Some (Some m)
      else do {
        x \<leftarrow> c_rd b i;
        y \<leftarrow> (if x = CR then c_rd b (i + 1) else Some NUL);
        if x = CR \<and> y = LF
        then do {
          b \<leftarrow> c_wr b i NUL;
          l \<leftarrow> c_str b begn;
          if first
          then (if Strnicmp l ''M-SEARCH'' 8 \<noteq> 0 then Some None
                else search_loop bound (i + 2) False (i + 2) m b)
          else search_loop bound (i + 2) False (i + 2) (search_line l m) b }
        else search_loop bound (i + 1) first begn m b })"
  by pat_completeness auto
termination
  by (relation "measure (\<lambda>(bound, i, first, begn, m, b). bound - i)") auto

declare search_loop.simps [simp del]

definition ssdp_listener ::
  "char list \<Rightarrow> u32 \<Rightarrow> u16 \<Rightarrow> bool \<Rightarrow> device \<Rightarrow> ssdp \<Rightarrow> ssdp option" where
  "ssdp_listener p addr port alloc d s =
     do { let data = take (256 - 4) p;
          b \<leftarrow> c_cpy (replicate 256 NUL) 0 data;
          t \<leftarrow> c_str b 0;
          if c_strstr t ''NOTIFY '' \<noteq> None then Some s
          else do {
            r \<leftarrow> search_loop (unat (of_nat (length data) - 1 :: u32)) 0 True 0 no_fields b;
            case r of
              None \<Rightarrow> Some s
            | Some m \<Rightarrow>
                if got_host m \<and> got_st m \<and> got_man m \<and> got_mx m \<and> 0 < sint (ssdp_mx_min m)
                then ssdp_send_to MSEARCH_REPLY addr port alloc d s
                else Some s } }"

section \<open>Messages fit\<close>

lemma ssdp_message_fits: "length (ssdp_message type d) < 768 \<and> NUL \<notin> set (ssdp_message type d)"
proof -
  have f: "fmt_u UPNP_CACHE_SEC = ''1800''" "fmt_u UPNP_LOCATION_PORT = ''80''" "fmt_u (unat UPNP_MULTICAST_PORT) = ''1900''"
    by code_simp+
  show ?thesis
    using length_dotted [of "GetMyIP d"] NUL_notin_dotted [of "GetMyIP d"]
    by (cases type) (simp_all add: ssdp_message_def f UPNP_MULTICAST_ADDRESS_def UPNP_LOCATION_XML_def GetDeviceSN_def
        GetDeviceName_def GetDeviceUUID_def)
qed

lemma ssdp_send_to_ok:
  "\<exists>b. c_strcpy (replicate 768 NUL) 0 (ssdp_message type d) = Some b \<and> c_str b 0 = Some (ssdp_message type d)"
proof -
  define msg where "msg = ssdp_message type d"
  have "length msg < 768" "NUL \<notin> set msg" using ssdp_message_fits [of type d] by (auto simp: msg_def)
  then show ?thesis
    using c_strcpy_str [of "replicate 768 NUL" msg] by (auto simp: c_strcpy_def c_cpy_def msg_def [symmetric])
qed

lemma ssdpDown_ok: "\<exists>s'. ssdpDown alloc d s = Some s'"
  using ssdp_send_to_ok [of ADVERTISE_DOWN d] by (auto simp: ssdpDown_def ssdp_send_to_def)

text \<open>
  Messages always fit: for every kind of message and every address of the device, the text that
  \<open>ssdp_send_to\<close> builds in its array of 768 bytes fits, and exactly this text is handed to UDP: replies
  to the searcher, announcements to the multicast group.
\<close>

theorem ssdp_send_to_sends:
  "ssdp_send_to type ip port alloc d s =
     Some (if alloc \<and> g_ssdpPcb s
       then s\<lparr>sent_msgs := sent_msgs s @
         [(if type = MSEARCH_REPLY then ip else UPNP_MULTICAST_IP, if type = MSEARCH_REPLY then port else UPNP_MULTICAST_PORT,
           ssdp_message type d)]\<rparr>
       else s)"
  using ssdp_send_to_ok [of type d] by (auto simp: ssdp_send_to_def)

section \<open>Searches are read line by line\<close>

lemma search_skip:
  assumes "CR \<notin> set l" and "length A + length l \<le> bound"
  shows "search_loop bound (length A) first begn m (A @ l @ R) =
    search_loop bound (length A + length l) first begn m (A @ l @ R)"
  using assms
proof (induction l arbitrary: A)
  case (Cons x l)
  have r: "c_rd (A @ x # l @ R) (length A) = Some x" by (simp add: c_rd_def)
  have "search_loop bound (length A) first begn m (A @ (x # l) @ R) =
      search_loop bound (length A + 1) first begn m (A @ (x # l) @ R)"
    using Cons.prems by (subst search_loop.simps) (auto simp: r)
  with Cons.IH [of "A @ [x]"] Cons.prems show ?case by simp
qed simp

lemma search_line_end:
  assumes "CR \<notin> set l" "NUL \<notin> set l" and "length A + length l < bound"
  shows "search_loop bound (length A) first (length A) m (A @ l @ CRLF @ R) =
    (if first
     then (if Strnicmp l ''M-SEARCH'' 8 \<noteq> 0 then Some None
           else search_loop bound (length (A @ l @ [NUL, LF])) False (length (A @ l @ [NUL, LF])) m ((A @ l @ [NUL, LF]) @ R))
     else search_loop bound (length (A @ l @ [NUL, LF])) False (length (A @ l @ [NUL, LF])) (search_line l m) ((A @ l @ [NUL, LF]) @ R))"
proof -
  define i where "i = length A + length l"
  define b where "b = A @ l @ CRLF @ R"
  have r: "c_rd b i = Some CR" "c_rd b (i + 1) = Some LF" by (simp_all add: c_rd_def i_def b_def nth_append)
  have w: "c_wr b i NUL = Some (A @ l @ NUL # LF # R)" by (simp add: c_wr_def i_def b_def list_update_append)
  have s: "c_str (A @ l @ NUL # LF # R) (length A) = Some l" using c_str_mid [OF assms(2), of A "LF # R"] .
  have "search_loop bound (length A) first (length A) m b = search_loop bound i first (length A) m b"
    using search_skip [OF assms(1), of A bound first "length A" m "CRLF @ R"] assms(3) by (simp add: i_def b_def)
  also have "\<dots> = (if first
     then (if Strnicmp l ''M-SEARCH'' 8 \<noteq> 0 then Some None else search_loop bound (i + 2) False (i + 2) m (A @ l @ NUL # LF # R))
     else search_loop bound (i + 2) False (i + 2) (search_line l m) (A @ l @ NUL # LF # R))"
    unfolding search_loop.simps [of bound i] r Option.bind.bind_lunit
    using assms(3) r by (simp add: w s i_def [symmetric])
  finally show ?thesis by (simp add: b_def i_def)
qed

definition plain_line :: "string \<Rightarrow> bool" where
  "plain_line l \<longleftrightarrow> CR \<notin> set l \<and> NUL \<notin> set l"

definition lines_text :: "string list \<Rightarrow> string" where
  "lines_text ls = concat (map (\<lambda>l. l @ CRLF) ls)"

lemma search_fields:
  assumes "list_all plain_line ls" and "length A + length (lines_text ls) = Suc bound"
  shows "search_loop bound (length A) False (length A) m (A @ lines_text ls @ R) = Some (Some (fold search_line ls m))"
  using assms
proof (induction ls arbitrary: A m)
  case Nil
  then show ?case by (subst search_loop.simps) (simp add: lines_text_def)
next
  case (Cons l ls)
  then have l: "CR \<notin> set l" "NUL \<notin> set l" by (simp_all add: plain_line_def)
  have b: "length A + length l < bound" using Cons.prems(2) by (simp add: lines_text_def)
  have t: "lines_text (l # ls) = l @ CRLF @ lines_text ls" by (simp add: lines_text_def)
  from search_line_end [OF l b, of False m "lines_text ls @ R"] Cons.IH [of "A @ l @ [NUL, LF]" "search_line l m"] Cons.prems
  show ?case by (simp add: t)
qed

definition wanted :: "msearch \<Rightarrow> bool" where
  "wanted m \<longleftrightarrow> got_host m \<and> got_st m \<and> got_man m \<and> got_mx m \<and> 0 < sint (ssdp_mx_min m)"

text \<open>
  What a search says, without the loop of the code: the lines are looked at as a set, and each
  field by its name and its own condition. A line carries a name when it starts with it, in
  capital or small letters.
\<close>

definition names :: "string \<Rightarrow> string \<Rightarrow> bool" where
  "names n l \<longleftrightarrow> take (length n) (map ToUpper l) = map ToUpper n"

definition asks_for_root :: "string list \<Rightarrow> bool" where
  "asks_for_root ls \<longleftrightarrow>
     (\<exists>l \<in> set ls. names ''HOST:'' l) \<and>
     (\<exists>l \<in> set ls. names ''ST:'' l \<and> (sublist ''ssdp:all'' (drop 3 l) \<or> sublist ''upnp:rootdevice'' (drop 3 l))) \<and>
     (\<exists>l \<in> set ls. names ''MAN:'' l \<and> sublist ''\"ssdp:discover\"'' (drop 4 l)) \<and>
     (case rev (filter (names ''MX:'') ls) of [] \<Rightarrow> False | l # _ \<Rightarrow> 0 < sint (ston (drop 3 l)))"

lemma Strnicmp_names: "length n = k \<Longrightarrow> Strnicmp l n k = 0 \<longleftrightarrow> names n l"
  by (auto simp: names_def Strnicmp_zero_iff take_map)

lemma names_letters:
  "map ToUpper ''Host:'' = map ToUpper ''HOST:''" "map ToUpper ''Man:'' = map ToUpper ''MAN:''"
  by code_simp+

lemma search_line_names:
  "search_line l m =
     (if names ''HOST:'' l then m\<lparr>got_host := True\<rparr>
      else if names ''ST:'' l
      then (if sublist ''ssdp:all'' (drop 3 l) \<or> sublist ''upnp:rootdevice'' (drop 3 l) then m\<lparr>got_st := True\<rparr> else m)
      else if names ''MAN:'' l then (if sublist ''\"ssdp:discover\"'' (drop 4 l) then m\<lparr>got_man := True\<rparr> else m)
      else if names ''MX:'' l then m\<lparr>ssdp_mx_min := ston (drop 3 l), got_mx := True\<rparr> else m)"
proof -
  have "names ''Host:'' l = names ''HOST:'' l" "names ''Man:'' l = names ''MAN:'' l"
    unfolding names_def names_letters by simp_all
  then show ?thesis
    unfolding search_line_def c_strstr_iff_sublist by (simp add: Strnicmp_names)
qed

text \<open>No line carries two of the four names: they differ in their first or second letter.\<close>

lemma names_first: "names (x # n) l \<Longrightarrow> l \<noteq> [] \<and> ToUpper (hd l) = ToUpper x"
  by (cases l) (auto simp: names_def)

lemma names_second: "names (x # y # n) l \<Longrightarrow> ToUpper (l ! 1) = ToUpper y"
  by (cases l; cases "tl l") (auto simp: names_def)

lemma names_exclusive:
  "names ''HOST:'' l \<Longrightarrow> \<not> names ''ST:'' l \<and> \<not> names ''MAN:'' l \<and> \<not> names ''MX:'' l"
  "names ''ST:'' l \<Longrightarrow> \<not> names ''MAN:'' l \<and> \<not> names ''MX:'' l"
  "names ''MAN:'' l \<Longrightarrow> \<not> names ''MX:'' l"
proof -
  have u: "distinct (map ToUpper ''HSM'')" "ToUpper (CHR ''A'') \<noteq> ToUpper (CHR ''X'')" by code_simp+
  then show "names ''HOST:'' l \<Longrightarrow> \<not> names ''ST:'' l \<and> \<not> names ''MAN:'' l \<and> \<not> names ''MX:'' l"
    "names ''ST:'' l \<Longrightarrow> \<not> names ''MAN:'' l \<and> \<not> names ''MX:'' l"
    by (auto dest!: names_first)
  show "names ''MAN:'' l \<Longrightarrow> \<not> names ''MX:'' l"
    using u(2) by (auto dest!: names_second)
qed

lemma fold_search_line:
  defines "f ls \<equiv> fold search_line ls no_fields"
  shows "got_host (f ls) \<longleftrightarrow> (\<exists>l \<in> set ls. names ''HOST:'' l)"
    and "got_st (f ls) \<longleftrightarrow> (\<exists>l \<in> set ls. names ''ST:'' l \<and>
      (sublist ''ssdp:all'' (drop 3 l) \<or> sublist ''upnp:rootdevice'' (drop 3 l)))"
    and "got_man (f ls) \<longleftrightarrow> (\<exists>l \<in> set ls. names ''MAN:'' l \<and> sublist ''\"ssdp:discover\"'' (drop 4 l))"
    and "(got_mx (f ls), ssdp_mx_min (f ls)) =
      (case rev (filter (names ''MX:'') ls) of [] \<Rightarrow> (False, 0) | l # _ \<Rightarrow> (True, ston (drop 3 l)))"
proof (induction ls rule: rev_induct)
  case Nil
  { case 1 show ?case by (simp add: f_def no_fields_def)
  next case 2 show ?case by (simp add: f_def no_fields_def)
  next case 3 show ?case by (simp add: f_def no_fields_def)
  next case 4 show ?case by (simp add: f_def no_fields_def) }
next
  case (snoc l ls)
  have s: "f (ls @ [l]) = search_line l (f ls)" by (simp add: f_def)
  { case 1 show ?case unfolding s search_line_names using snoc.IH(1) names_exclusive [of l] by auto
  next case 2 show ?case unfolding s search_line_names using snoc.IH(2) names_exclusive [of l] by auto
  next case 3 show ?case unfolding s search_line_names using snoc.IH(3) names_exclusive [of l] by auto
  next case 4 show ?case unfolding s search_line_names using snoc.IH(4) names_exclusive [of l] by auto }
qed

lemma wanted_iff: "wanted (fold search_line ls no_fields) \<longleftrightarrow> asks_for_root ls"
  using fold_search_line(4) [of ls]
  by (auto simp: wanted_def asks_for_root_def fold_search_line(1-3) split: list.splits)

text \<open>
  C19. Which searches are answered: for a packet of at most 252 bytes that consists of complete lines
  and is no announcement, the listener sends one reply, to the sender, exactly when the first line
  starts with \<^verbatim>\<open>M-SEARCH\<close> and among the lines behind it are a line \<^verbatim>\<open>HOST:\<close>, a line \<^verbatim>\<open>ST:\<close> that
  names \<^verbatim>\<open>ssdp:all\<close> or \<^verbatim>\<open>upnp:rootdevice\<close>, a line \<^verbatim>\<open>MAN:\<close> with \<^verbatim>\<open>"ssdp:discover"\<close>, and a
  line \<^verbatim>\<open>MX:\<close>, the last of which gives a positive number; otherwise nothing happens.
\<close>

theorem search_answered:
  assumes ls: "list_all plain_line (l # ls)" and len: "length (lines_text (l # ls)) \<le> 252"
    and n: "\<not> sublist ''NOTIFY '' (lines_text (l # ls))"
  shows "ssdp_listener (lines_text (l # ls)) addr port alloc d s =
    Some (if names ''M-SEARCH'' l \<and> asks_for_root ls \<and> alloc \<and> g_ssdpPcb s
      then s\<lparr>sent_msgs := sent_msgs s @ [(addr, port, ssdp_message MSEARCH_REPLY d)]\<rparr> else s)"
proof -
  define t where "t = lines_text (l # ls)"
  define R where "R = replicate (256 - length t) NUL"
  have t: "t = l @ CRLF @ lines_text ls" by (simp add: t_def lines_text_def)
  have nz: "NUL \<notin> set t"
    using ls by (auto simp: t_def lines_text_def plain_line_def list_all_iff)
  have k: "unat (of_nat (length t) - 1 :: u32) = length t - 1"
  proof -
    define n where "n = length t"
    have n: "1 \<le> n" "n < 2 ^ 32" using len t by (auto simp: n_def t_def)
    then have u: "unat (of_nat n :: u32) = n" by (simp add: unsigned_of_nat take_bit_nat_eq_self)
    then have "(1 :: u32) \<le> of_nat n" using n by (simp add: word_le_nat_alt)
    then show ?thesis using u by (simp add: unat_sub n_def [symmetric])
  qed
  have c: "c_cpy (replicate 256 NUL) 0 (take (256 - 4) t) = Some (t @ R)"
    using len by (simp add: c_cpy_def R_def t_def)
  have s: "c_str (t @ R) 0 = Some t"
    using c_str_app [OF nz, of "replicate (255 - length t) NUL"] len Suc_diff_le [of "length t" 255]
    by (simp add: R_def t_def flip: replicate_Suc)
  have st: "c_strstr t ''NOTIFY '' = None" using n c_strstr_iff_sublist [of t "''NOTIFY ''"] by (simp add: t_def)
  have l: "CR \<notin> set l" "NUL \<notin> set l" "list_all plain_line ls" using ls by (simp_all add: plain_line_def)
  have loop: "search_loop (length t - 1) 0 True 0 no_fields (t @ R) =
      (if Strnicmp l ''M-SEARCH'' 8 \<noteq> 0 then Some None else Some (Some (fold search_line ls no_fields)))"
    using search_line_end [OF l(1,2), of "[]" "length t - 1" True no_fields "lines_text ls @ R"]
      search_fields [OF l(3), of "l @ [NUL, LF]" "length t - 1" no_fields R] by (simp add: t)
  have tk: "take (256 - 4) t = t" using len by (simp add: t_def)
  show ?thesis
    unfolding ssdp_listener_def t_def [symmetric] tk Let_def c [unfolded tk] Option.bind.bind_lunit s st k loop
    by (simp add: wanted_iff [symmetric] wanted_def Strnicmp_names [of "''M-SEARCH''" 8] ssdp_send_to_sends)
qed

definition demo_search :: "string list" where
  "demo_search = [''HOST: 239.255.255.250:1900'', ''MAN: '' @ [CHR 0x22] @ ''ssdp:discover'' @ [CHR 0x22], ''MX: 3'', ''ST: upnp:rootdevice'', []]"

theorem search_answered_witness:
  "\<forall>d. ssdp_listener (lines_text (''M-SEARCH * HTTP/1.1'' # demo_search)) 9 99 True d
      \<lparr>g_ssdpPcb = True, joined = 1, timers = 1, sent_msgs = []\<rparr> =
    Some \<lparr>g_ssdpPcb = True, joined = 1, timers = 1, sent_msgs = [(9, 99, ssdp_message MSEARCH_REPLY d)]\<rparr>"
proof -
  have 1: "list_all plain_line (''M-SEARCH * HTTP/1.1'' # demo_search)"
    "length (lines_text (''M-SEARCH * HTTP/1.1'' # demo_search)) \<le> 252"
    "\<not> sublist ''NOTIFY '' (lines_text (''M-SEARCH * HTTP/1.1'' # demo_search))"
    "names ''M-SEARCH'' ''M-SEARCH * HTTP/1.1''" "asks_for_root demo_search"
    by code_simp+
  show ?thesis using search_answered [OF 1(1-3), of 9 99 True] 1(4,5) by simp
qed

text \<open>An empty packet.\<close>

lemma search_zeros: "i \<le> 256 \<Longrightarrow> 256 < bound \<Longrightarrow> search_loop bound i first begn m (replicate 256 NUL) = None"
proof (induction "256 - i" arbitrary: i)
  case 0
  then show ?case by (subst search_loop.simps) (simp add: c_rd_def)
next
  case (Suc k)
  then have "i < 256" "search_loop bound (i + 1) first begn m (replicate 256 NUL) = None" by simp_all
  with Suc.prems show ?case by (subst search_loop.simps) (simp add: c_rd_def)
qed

text \<open>
  An empty packet makes the bound \<open>len - 1\<close> of the loop wrap around to \<open>2^32 - 1\<close>: the listener reads
  beyond the end of its array, whatever the state of the device.
\<close>

theorem empty_packet_overreads: "ssdp_listener [] addr port alloc d s = None"
proof -
  have c: "c_cpy (replicate 256 NUL) 0 [] = Some (replicate 256 NUL)" by (simp add: c_cpy_def)
  have t: "c_str (replicate 256 NUL) 0 = Some []" by (simp add: c_str_def)
  have "256 < unat (of_nat (length ([] :: char list)) - 1 :: u32)"
    by (simp add: unsigned_minus_1_eq_mask mask_eq_exp_minus_1)
  from search_zeros [OF _ this, of 0 True 0 no_fields] show ?thesis by (simp add: ssdp_listener_def c t)
qed

end
