(* ===== verification/Fifo.thy ===== *)
theory Fifo
  imports Prelude
begin

text \<open>
  The contract of a bounded first-in first-out queue, shared by the mailboxes of the
  operating system layer and the packet queue between the capture thread and the stack:
  an accepted message is appended, a fetched message is the oldest one, and nothing else
  changes the contents. The extra argument of \<open>put\<close> stands for what the environment
  supplies to the operation (the results of the memory allocator).
\<close>

datatype ('e, 'm) fifo_op = Put 'e 'm | Get

text \<open>
  A run of operations: the messages accepted and the messages fetched, in order. A run in
  which the environment breaks its side of the contract has no outcome.
\<close>

fun fifo_run :: "('e \<Rightarrow> 's \<Rightarrow> bool) \<Rightarrow> ('e \<Rightarrow> 'm \<Rightarrow> 's \<Rightarrow> (bool \<times> 's) option) \<Rightarrow>
    ('s \<Rightarrow> ('m option \<times> 's) option) \<Rightarrow> ('e, 'm) fifo_op list \<Rightarrow> 's \<Rightarrow> ('m list \<times> 'm list \<times> 's) option" where
  "fifo_run env_ok put get [] s = Some ([], [], s)"
| "fifo_run env_ok put get (Put e m # ops) s =
     (if env_ok e s
      then do { (ok, s1) \<leftarrow> put e m s; (ins, outs, s2) \<leftarrow> fifo_run env_ok put get ops s1;
                Some (if ok then m # ins else ins, outs, s2) }
      else None)"
| "fifo_run env_ok put get (Get # ops) s =
     do { (r, s1) \<leftarrow> get s; (ins, outs, s2) \<leftarrow> fifo_run env_ok put get ops s1;
          Some (ins, (case r of None \<Rightarrow> outs | Some m \<Rightarrow> m # outs), s2) }"

text \<open>
  The reference: the same run on a plain list. A message is accepted exactly while there is
  room, behind the others; the oldest message is fetched.
\<close>

fun list_run :: "nat \<Rightarrow> ('e, 'm) fifo_op list \<Rightarrow> 'm list \<Rightarrow> 'm list \<times> 'm list \<times> 'm list" where
  "list_run cap [] q = ([], [], q)"
| "list_run cap (Put e m # ops) q =
     (if length q < cap
      then (case list_run cap ops (q @ [m]) of (ins, outs, q') \<Rightarrow> (m # ins, outs, q'))
      else list_run cap ops q)"
| "list_run cap (Get # ops) [] = list_run cap ops []"
| "list_run cap (Get # ops) (m # q) = (case list_run cap ops q of (ins, outs, q') \<Rightarrow> (ins, m # outs, q'))"

text \<open>
  The environment keeps its side of the contract at every \<open>put\<close> that the run reaches. An
  operation without a result does not end the obligation of the code: nothing more is asked of
  the environment, and the run has no outcome.
\<close>

fun env_follows :: "('e \<Rightarrow> 's \<Rightarrow> bool) \<Rightarrow> ('e \<Rightarrow> 'm \<Rightarrow> 's \<Rightarrow> (bool \<times> 's) option) \<Rightarrow>
    ('s \<Rightarrow> ('m option \<times> 's) option) \<Rightarrow> ('e, 'm) fifo_op list \<Rightarrow> 's \<Rightarrow> bool" where
  "env_follows env_ok put get [] s = True"
| "env_follows env_ok put get (Put e m # ops) s \<longleftrightarrow> env_ok e s \<and>
     (case put e m s of None \<Rightarrow> True | Some (ok, s1) \<Rightarrow> env_follows env_ok put get ops s1)"
| "env_follows env_ok put get (Get # ops) s =
     (case get s of None \<Rightarrow> True | Some (r, s1) \<Rightarrow> env_follows env_ok put get ops s1)"

locale bounded_fifo =
  fixes inv :: "'s \<Rightarrow> bool" and contents :: "'s \<Rightarrow> 'm list" and capacity :: nat
    and env_ok :: "'e \<Rightarrow> 's \<Rightarrow> bool"
    and put :: "'e \<Rightarrow> 'm \<Rightarrow> 's \<Rightarrow> (bool \<times> 's) option"
    and get :: "'s \<Rightarrow> ('m option \<times> 's) option"
  assumes put_room: "inv s \<Longrightarrow> env_ok e s \<Longrightarrow> length (contents s) < capacity \<Longrightarrow>
      \<exists>s'. put e m s = Some (True, s') \<and> inv s' \<and> contents s' = contents s @ [m]"
    and put_full: "inv s \<Longrightarrow> env_ok e s \<Longrightarrow> capacity \<le> length (contents s) \<Longrightarrow>
      \<exists>s'. put e m s = Some (False, s') \<and> inv s' \<and> contents s' = contents s"
    and get_some: "inv s \<Longrightarrow> contents s = m # ms \<Longrightarrow>
      \<exists>s'. get s = Some (Some m, s') \<and> inv s' \<and> contents s' = ms"
    and get_none: "inv s \<Longrightarrow> contents s = [] \<Longrightarrow> get s = Some (None, s)"
    and bounded: "inv s \<Longrightarrow> length (contents s) \<le> capacity"
begin

abbreviation run where "run \<equiv> fifo_run env_ok put get"

text \<open>No message is lost, duplicated or reordered by any sequence of operations.\<close>

lemma run_fifo:
  assumes "inv s" and "run ops s = Some (ins, outs, s')"
  shows "inv s' \<and> contents s @ ins = outs @ contents s' \<and> length (contents s') \<le> capacity"
  using assms
proof (induction ops arbitrary: s ins outs)
  case Nil
  then show ?case using bounded by simp
next
  case (Cons opn ops)
  show ?case
  proof (cases opn)
    case (Put e m)
    with Cons.prems(2) have env: "env_ok e s" by (auto split: if_splits)
    show ?thesis
    proof (cases "length (contents s) < capacity")
      case True
      with put_room [OF Cons.prems(1) env True, of m] obtain s1 where
        s1: "put e m s = Some (True, s1)" "inv s1" "contents s1 = contents s @ [m]" by blast
      with Cons.prems(2) Put env obtain ins' where
        r: "run ops s1 = Some (ins', outs, s')" and "ins = m # ins'"
        by (auto simp: Option.bind_eq_Some_conv)
      with Cons.IH [OF s1(2) r] s1 show ?thesis by simp
    next
      case False
      then have "capacity \<le> length (contents s)" by simp
      with put_full [OF Cons.prems(1) env this, of m] obtain s1 where
        s1: "put e m s = Some (False, s1)" "inv s1" "contents s1 = contents s" by blast
      with Cons.prems(2) Put env have r: "run ops s1 = Some (ins, outs, s')"
        by (auto simp: Option.bind_eq_Some_conv)
      with Cons.IH [OF s1(2) r] s1 show ?thesis by simp
    qed
  next
    case Get
    show ?thesis
    proof (cases "contents s")
      case Nil
      with get_none [OF Cons.prems(1)] Cons.prems(2) Get have "run ops s = Some (ins, outs, s')"
        by (auto simp: Option.bind_eq_Some_conv)
      with Cons.IH [OF Cons.prems(1)] show ?thesis by blast
    next
      case (Cons m ms)
      with get_some [OF \<open>inv s\<close>] obtain s1 where
        s1: "get s = Some (Some m, s1)" "inv s1" "contents s1 = ms" by blast
      with \<open>run (opn # ops) s = Some (ins, outs, s')\<close> Get obtain outs' where
        r: "run ops s1 = Some (ins, outs', s')" and "outs = m # outs'"
        by (auto simp: Option.bind_eq_Some_conv)
      with Cons.IH [OF s1(2) r] s1 \<open>contents s = m # ms\<close> show ?thesis by simp
    qed
  qed
qed

lemma run_total:
  assumes "inv s" and "\<And>e s. inv s \<Longrightarrow> env_ok e s"
  shows "\<exists>r. run ops s = Some r"
  using assms(1)
proof (induction ops arbitrary: s)
  case Nil
  then show ?case by simp
next
  case (Cons opn ops)
  show ?case
  proof (cases opn)
    case (Put e m)
    have "\<exists>ok s1. put e m s = Some (ok, s1) \<and> inv s1"
      using put_room [OF Cons.prems assms(2) [OF Cons.prems], where m = m]
        put_full [OF Cons.prems assms(2) [OF Cons.prems], where m = m] not_le by blast
    with Cons.IH assms(2) [OF Cons.prems] Put show ?thesis by fastforce
  next
    case Get
    have "\<exists>r s1. get s = Some (r, s1) \<and> inv s1"
      using get_some [OF Cons.prems] get_none [OF Cons.prems] Cons.prems by (cases "contents s") blast+
    with Cons.IH Get show ?thesis by fastforce
  qed
qed

text \<open>
  Every run that the environment plays by the rules has an outcome, and it is the outcome of
  the same operations on the list of the contents.
\<close>

lemma run_refines:
  assumes "inv s" and "env_follows env_ok put get ops s"
  shows "\<exists>ins outs s'. run ops s = Some (ins, outs, s') \<and> inv s' \<and>
    list_run capacity ops (contents s) = (ins, outs, contents s')"
  using assms
proof (induction ops arbitrary: s)
  case Nil
  then show ?case by simp
next
  case (Cons opn ops)
  show ?case
  proof (cases opn)
    case (Put e m)
    with Cons.prems(2) have env: "env_ok e s" by simp
    show ?thesis
    proof (cases "length (contents s) < capacity")
      case True
      with put_room [OF Cons.prems(1) env True, of m] obtain s1 where
        s1: "put e m s = Some (True, s1)" "inv s1" "contents s1 = contents s @ [m]" by blast
      with Cons.prems(2) Put have "env_follows env_ok put get ops s1" by simp
      from Cons.IH [OF s1(2) this] s1 Put env True show ?thesis by fastforce
    next
      case False
      then have "capacity \<le> length (contents s)" by simp
      with put_full [OF Cons.prems(1) env this, of m] obtain s1 where
        s1: "put e m s = Some (False, s1)" "inv s1" "contents s1 = contents s" by blast
      with Cons.prems(2) Put have "env_follows env_ok put get ops s1" by simp
      from Cons.IH [OF s1(2) this] s1 Put env False show ?thesis by fastforce
    qed
  next
    case Get
    show ?thesis
    proof (cases "contents s")
      case Nil
      with get_none [OF Cons.prems(1)] Cons.prems Get Cons.IH [of s] show ?thesis by fastforce
    next
      case (Cons m ms)
      with get_some [OF \<open>inv s\<close>] obtain s1 where
        s1: "get s = Some (Some m, s1)" "inv s1" "contents s1 = ms" by blast
      with Cons.prems(2) Get have "env_follows env_ok put get ops s1" by simp
      from Cons.IH [OF s1(2) this] s1 \<open>contents s = m # ms\<close> Get show ?thesis by fastforce
    qed
  qed
qed

lemma put_get_alone:
  assumes "inv s" "contents s = []" "env_ok e s" "0 < capacity"
  shows "\<exists>s1 s2. put e m s = Some (True, s1) \<and> get s1 = Some (Some m, s2) \<and> contents s2 = []"
  using put_room [OF assms(1,3), of m] get_some assms(2,4) by fastforce

end

end
