(* ===== verification/SysArch.thy ===== *)
theory SysArch
  imports Utils Fifo
begin

text \<open>
  \<^verbatim>\<open>lwip-port/win32/arch/sys_arch.c\<close>: the operating system layer under the TCP/IP stack.
  Modelled are the mailboxes (a ring of messages guarded by a counting semaphore), the semaphores,
  the mutexes and the critical section, and the elapsed-time computation. A semaphore is its count;
  creating one can fail, which is an argument of the operation. A wait that can never be satisfied
  in the sequential model is \<^const>\<open>None\<close>.
\<close>

section \<open>Elapsed time\<close>

text \<open>
  \<^verbatim>\<open>unsigned long msDiff(long long now, long long last)\<close>: signed 64-bit comparison, unsigned
  64-bit arithmetic, the result cut to 32 bits.
\<close>

definition msDiff :: "u64 \<Rightarrow> u64 \<Rightarrow> u32" where
  "msDiff now since =
     (if sint now \<ge> sint since then ucast (now - since)
      else ucast (0xFFFFFFFFFFFFFFFF - since + now))"

section \<open>Mailboxes\<close>

definition MAX_QUEUE_ENTRIES :: nat where "MAX_QUEUE_ENTRIES = 512"

datatype err_t = ERR_OK | ERR_MEM

text \<open>\<open>Inl\<close> stands for the special results \<^verbatim>\<open>SYS_ARCH_TIMEOUT\<close> and \<^verbatim>\<open>SYS_MBOX_EMPTY\<close>.\<close>

datatype fetch_error = SYS_ARCH_TIMEOUT | SYS_MBOX_EMPTY

record 'm sys_mbox_t =
  mbox_sem :: "nat option"
  q_mem :: "'m option list"
  mbox_head :: nat
  mbox_tail :: nat

text \<open>\<^verbatim>\<open>ReleaseSemaphore(sem, 1, 0)\<close> fails, without an effect, at the maximum count.\<close>

definition ReleaseSemaphore :: "nat option \<Rightarrow> nat option" where
  "ReleaseSemaphore sem = map_option (\<lambda>n. if n < MAX_QUEUE_ENTRIES then Suc n else n) sem"

definition ring_next :: "nat \<Rightarrow> nat" where
  "ring_next i = (if i + 1 \<ge> MAX_QUEUE_ENTRIES then 0 else i + 1)"

definition sys_mbox_new :: "bool \<Rightarrow> 'm sys_mbox_t \<Rightarrow> err_t \<times> 'm sys_mbox_t" where
  "sys_mbox_new sem_created mbox =
     (if \<not> sem_created then (ERR_MEM, mbox\<lparr>mbox_sem := None\<rparr>)
      else (ERR_OK, mbox\<lparr>mbox_sem := Some 0, q_mem := replicate MAX_QUEUE_ENTRIES None,
                          mbox_head := 0, mbox_tail := 0\<rparr>))"

definition sys_mbox_free :: "'m sys_mbox_t \<Rightarrow> 'm sys_mbox_t" where
  "sys_mbox_free mbox = mbox\<lparr>mbox_sem := None\<rparr>"

definition sys_mbox_post :: "'m \<Rightarrow> 'm sys_mbox_t \<Rightarrow> 'm sys_mbox_t" where
  "sys_mbox_post msg q =
     q\<lparr>q_mem := (q_mem q)[mbox_head q := Some msg], mbox_head := ring_next (mbox_head q),
       mbox_sem := ReleaseSemaphore (mbox_sem q)\<rparr>"

definition sys_mbox_trypost :: "'m \<Rightarrow> 'm sys_mbox_t \<Rightarrow> err_t \<times> 'm sys_mbox_t" where
  "sys_mbox_trypost msg q =
     (let new_head = ring_next (mbox_head q)
      in if new_head = mbox_tail q then (ERR_MEM, q)
         else (ERR_OK, q\<lparr>q_mem := (q_mem q)[mbox_head q := Some msg], mbox_head := new_head,
                         mbox_sem := ReleaseSemaphore (mbox_sem q)\<rparr>))"

definition sys_mbox_trypost_fromisr :: "'m \<Rightarrow> 'm sys_mbox_t \<Rightarrow> err_t \<times> 'm sys_mbox_t" where
  "sys_mbox_trypost_fromisr msg q = sys_mbox_trypost msg q"

text \<open>Taking the message at the tail, common to the two fetch operations.\<close>

definition mbox_take :: "nat \<Rightarrow> 'm sys_mbox_t \<Rightarrow> 'm option \<times> 'm sys_mbox_t" where
  "mbox_take n q =
     (q_mem q ! mbox_tail q, q\<lparr>mbox_sem := Some n, mbox_tail := ring_next (mbox_tail q)\<rparr>)"

definition sys_arch_mbox_fetch ::
  "u32 \<Rightarrow> u32 \<Rightarrow> u32 \<Rightarrow> 'm sys_mbox_t \<Rightarrow> ((fetch_error + u32) \<times> 'm option \<times> 'm sys_mbox_t) option" where
  "sys_arch_mbox_fetch timeout starttime endtime q = (case mbox_sem q of
       Some (Suc n) \<Rightarrow>
         let (msg, q) = mbox_take n q
         in Some (Inr (msDiff (ucast endtime) (ucast starttime)), msg, q)
     | _ \<Rightarrow> if timeout = 0 then None else Some (Inl SYS_ARCH_TIMEOUT, None, q))"

definition sys_arch_mbox_tryfetch ::
  "'m sys_mbox_t \<Rightarrow> (fetch_error + u32) \<times> 'm option \<times> 'm sys_mbox_t" where
  "sys_arch_mbox_tryfetch q = (case mbox_sem q of
       Some (Suc n) \<Rightarrow> let (msg, q) = mbox_take n q in (Inr 0, msg, q)
     | _ \<Rightarrow> (Inl SYS_MBOX_EMPTY, None, q))"

section \<open>Semaphores, mutexes and the critical section\<close>

text \<open>
  A semaphore is its count, none when the handle is \<^verbatim>\<open>NULL\<close>; whether the system creates one is an argument.
  A wait returns the elapsed time, or \<open>SYS_ARCH_TIMEOUT\<close>; an endless wait on an empty semaphore is \<^const>\<open>None\<close>.
\<close>

definition MAX_SEM_COUNT :: nat where "MAX_SEM_COUNT = 100000"

type_synonym sys_sem_t = "nat option"

definition sys_sem_new :: "bool \<Rightarrow> u8 \<Rightarrow> err_t \<times> sys_sem_t" where
  "sys_sem_new created cnt = (if created then (ERR_OK, Some (unat cnt)) else (ERR_MEM, None))"

definition sys_sem_free :: "sys_sem_t \<Rightarrow> sys_sem_t" where
  "sys_sem_free sem = None"

text \<open>A wait on a \<^verbatim>\<open>NULL\<close> handle fails at once, which the wait without a limit does not look at.\<close>

definition sys_arch_sem_wait ::
  "u32 \<Rightarrow> u32 \<Rightarrow> u32 \<Rightarrow> sys_sem_t \<Rightarrow> ((fetch_error + u32) \<times> sys_sem_t) option" where
  "sys_arch_sem_wait timeout starttime endtime sem =
     (let elapsed = Inr (msDiff (ucast endtime) (ucast starttime))
      in case sem of
           Some (Suc n) \<Rightarrow> Some (elapsed, Some n)
         | Some 0 \<Rightarrow> if timeout = 0 then None else Some (Inl SYS_ARCH_TIMEOUT, sem)
         | None \<Rightarrow> Some (if timeout = 0 then elapsed else Inl SYS_ARCH_TIMEOUT, sem))"

definition sys_sem_signal :: "sys_sem_t \<Rightarrow> sys_sem_t" where
  "sys_sem_signal sem = map_option (\<lambda>n. if n < MAX_SEM_COUNT then Suc n else n) sem"

text \<open>
  A mutex or the critical section is held by a thread, as many times as this thread entered it. Entering it
  while another thread holds it blocks, which is \<^const>\<open>None\<close>; only the holder can leave it.
\<close>

type_synonym lock = "(nat \<times> nat) option"

definition lock_enter :: "nat \<Rightarrow> lock \<Rightarrow> lock option" where
  "lock_enter t l = (case l of
       None \<Rightarrow> Some (Some (t, 1))
     | Some (t', n) \<Rightarrow> if t = t' then Some (Some (t, n + 1)) else None)"

definition lock_leave :: "nat \<Rightarrow> lock \<Rightarrow> lock" where
  "lock_leave t l = (case l of
       Some (t', n) \<Rightarrow> if t = t' then (if n \<le> 1 then None else Some (t, n - 1)) else l
     | None \<Rightarrow> None)"

definition sys_arch_init :: lock where "sys_arch_init = None"
definition sys_init :: lock where "sys_init = sys_arch_init"
definition sys_arch_protect :: "nat \<Rightarrow> lock \<Rightarrow> lock option" where "sys_arch_protect = lock_enter"
definition sys_arch_unprotect :: "nat \<Rightarrow> lock \<Rightarrow> lock" where "sys_arch_unprotect = lock_leave"

text \<open>A mutex object that may be missing.\<close>

type_synonym sys_mutex_t = "lock option"

definition sys_mutex_new :: "bool \<Rightarrow> err_t \<times> sys_mutex_t" where
  "sys_mutex_new created = (if created then (ERR_OK, Some None) else (ERR_MEM, None))"

definition sys_mutex_free :: "sys_mutex_t \<Rightarrow> sys_mutex_t" where
  "sys_mutex_free mutex = None"

definition sys_mutex_lock :: "nat \<Rightarrow> sys_mutex_t \<Rightarrow> sys_mutex_t option" where
  "sys_mutex_lock t mutex = (case mutex of None \<Rightarrow> Some None | Some l \<Rightarrow> map_option Some (lock_enter t l))"

definition sys_mutex_unlock :: "nat \<Rightarrow> sys_mutex_t \<Rightarrow> sys_mutex_t" where
  "sys_mutex_unlock t mutex = map_option (lock_leave t) mutex"

section \<open>The ring as a queue\<close>

definition ring :: "nat \<Rightarrow> nat \<Rightarrow> nat" where
  "ring t k = (t + k) mod MAX_QUEUE_ENTRIES"

lemma ring_eq: "t < MAX_QUEUE_ENTRIES \<Longrightarrow> k < MAX_QUEUE_ENTRIES \<Longrightarrow>
   ring t k = (if t + k < MAX_QUEUE_ENTRIES then t + k else t + k - MAX_QUEUE_ENTRIES)"
  by (simp add: ring_def mod_if)

lemma ring_lt [simp]: "ring t k < MAX_QUEUE_ENTRIES"
  by (simp add: ring_def MAX_QUEUE_ENTRIES_def)

lemma ring_inj: "t < MAX_QUEUE_ENTRIES \<Longrightarrow> j < MAX_QUEUE_ENTRIES \<Longrightarrow> k < MAX_QUEUE_ENTRIES \<Longrightarrow>
   ring t j = ring t k \<longleftrightarrow> j = k"
  by (auto simp: ring_eq split: if_splits)

lemma ring_0 [simp]: "t < MAX_QUEUE_ENTRIES \<Longrightarrow> ring t 0 = t"
  by (simp add: ring_def)

lemma ring_next_ring: "t < MAX_QUEUE_ENTRIES \<Longrightarrow> ring_next (ring t k) = ring t (Suc k)"
  using mod_Suc [of "t + k" MAX_QUEUE_ENTRIES]
  by (auto simp: ring_def ring_next_def MAX_QUEUE_ENTRIES_def)

lemma ring_Suc: "t < MAX_QUEUE_ENTRIES \<Longrightarrow> ring (ring_next t) k = ring t (Suc k)"
proof -
  assume t: "t < MAX_QUEUE_ENTRIES"
  then have "ring_next t = Suc t mod MAX_QUEUE_ENTRIES" using ring_next_ring [OF t, of 0] by (simp add: ring_def)
  then show ?thesis by (simp add: ring_def mod_add_left_eq)
qed

text \<open>The messages in the order of arrival.\<close>

definition mbox_contents :: "'m sys_mbox_t \<Rightarrow> 'm list" where
  "mbox_contents q = map (\<lambda>k. the (q_mem q ! ring (mbox_tail q) k)) [0..<the (mbox_sem q)]"

definition mbox_inv :: "'m sys_mbox_t \<Rightarrow> bool" where
  "mbox_inv q \<longleftrightarrow> length (q_mem q) = MAX_QUEUE_ENTRIES \<and> mbox_tail q < MAX_QUEUE_ENTRIES \<and>
     (\<exists>n < MAX_QUEUE_ENTRIES. mbox_sem q = Some n \<and> mbox_head q = ring (mbox_tail q) n \<and>
        (\<forall>k < n. q_mem q ! ring (mbox_tail q) k \<noteq> None))"

lemma mbox_inv_new:
  assumes "sys_mbox_new True q0 = (ERR_OK, q)"
  shows "mbox_inv q \<and> mbox_contents q = []"
proof -
  from assms have q: "q = q0\<lparr>mbox_sem := Some 0, q_mem := replicate MAX_QUEUE_ENTRIES None,
      mbox_head := 0, mbox_tail := 0\<rparr>" by (simp add: sys_mbox_new_def)
  have "0 < MAX_QUEUE_ENTRIES" by (simp add: MAX_QUEUE_ENTRIES_def)
  then show ?thesis by (simp add: q mbox_inv_def mbox_contents_def)
qed

text \<open>Storing a message behind the newest one, as both post operations do.\<close>

lemma mbox_store:
  fixes msg :: 'm and q :: "'m sys_mbox_t"
  assumes "mbox_inv q" "mbox_sem q = Some n" "Suc n < MAX_QUEUE_ENTRIES"
  defines "q' \<equiv> q\<lparr>q_mem := (q_mem q)[mbox_head q := Some msg], mbox_head := ring_next (mbox_head q),
       mbox_sem := ReleaseSemaphore (mbox_sem q)\<rparr>"
  shows "mbox_inv q' \<and> mbox_contents q' = mbox_contents q @ [msg]"
proof -
  let ?t = "mbox_tail q"
  have t: "?t < MAX_QUEUE_ENTRIES" and h: "mbox_head q = ring ?t n"
    and l: "length (q_mem q) = MAX_QUEUE_ENTRIES" and f: "\<forall>k < n. q_mem q ! ring ?t k \<noteq> None"
    using assms(1,2) by (auto simp: mbox_inv_def)
  have old: "k < n \<Longrightarrow> (q_mem q)[ring ?t n := Some msg] ! ring ?t k = q_mem q ! ring ?t k" for k
    using ring_inj [OF t, of n k] assms(3) by simp
  have new: "(q_mem q)[ring ?t n := Some msg] ! ring ?t n = Some msg" using l by simp
  have "mbox_sem q' = Some (Suc n)" using assms(2,3) by (simp add: q'_def ReleaseSemaphore_def)
  then show ?thesis using t l f old new assms(2,3) h ring_next_ring [OF t]
    by (auto simp: mbox_inv_def mbox_contents_def q'_def less_Suc_eq)
qed

lemma mbox_full:
  assumes "mbox_inv q"
  shows "ring_next (mbox_head q) = mbox_tail q \<longleftrightarrow> Suc (length (mbox_contents q)) = MAX_QUEUE_ENTRIES"
proof -
  let ?t = "mbox_tail q"
  obtain n where n: "n < MAX_QUEUE_ENTRIES" "mbox_sem q = Some n" "mbox_head q = ring ?t n"
    and t: "?t < MAX_QUEUE_ENTRIES" using assms by (auto simp: mbox_inv_def)
  have "ring_next (mbox_head q) = ring ?t (Suc n)" using n t by (simp add: ring_next_ring)
  moreover have "ring ?t (Suc n) = ?t \<longleftrightarrow> Suc n = MAX_QUEUE_ENTRIES"
  proof (cases "Suc n = MAX_QUEUE_ENTRIES")
    case True
    have "ring ?t MAX_QUEUE_ENTRIES = ?t" using t by (simp add: ring_def)
    with True show ?thesis by simp
  next
    case False
    with n(1) ring_inj [OF t, of "Suc n" 0] t show ?thesis by simp
  qed
  ultimately show ?thesis using n(2) by (simp add: mbox_contents_def)
qed

lemma sys_mbox_trypost_spec:
  assumes "mbox_inv q"
  shows "sys_mbox_trypost msg q =
     (if Suc (length (mbox_contents q)) = MAX_QUEUE_ENTRIES then (ERR_MEM, q)
      else (ERR_OK, sys_mbox_post msg q))"
  using mbox_full [OF assms] by (simp add: sys_mbox_trypost_def sys_mbox_post_def Let_def)

lemma sys_mbox_post_room:
  assumes "mbox_inv q" "Suc (length (mbox_contents q)) < MAX_QUEUE_ENTRIES"
  shows "mbox_inv (sys_mbox_post msg q) \<and> mbox_contents (sys_mbox_post msg q) = mbox_contents q @ [msg]"
proof -
  obtain n where "mbox_sem q = Some n" using assms(1) by (auto simp: mbox_inv_def)
  with mbox_store [OF assms(1) this] assms(2) show ?thesis
    by (simp add: sys_mbox_post_def mbox_contents_def)
qed

lemma mbox_take_spec:
  assumes "mbox_inv q" "mbox_sem q = Some (Suc n)"
  shows "\<exists>m q'. mbox_take n q = (Some m, q') \<and> mbox_inv q' \<and> mbox_contents q = m # mbox_contents q'"
proof -
  let ?t = "mbox_tail q"
  have t: "?t < MAX_QUEUE_ENTRIES" and f: "\<forall>k < Suc n. q_mem q ! ring ?t k \<noteq> None"
    using assms by (auto simp: mbox_inv_def)
  from f [rule_format, of 0] t obtain m where m: "q_mem q ! ?t = Some m" by auto
  have nx: "ring_next ?t < MAX_QUEUE_ENTRIES" by (simp add: ring_next_def MAX_QUEUE_ENTRIES_def)
  have c: "mbox_contents q = m # map (\<lambda>k. the (q_mem q ! ring ?t (Suc k))) [0..<n]"
    using assms(2) m t by (simp add: mbox_contents_def map_upt_Suc del: upt_Suc)
  show ?thesis using assms f nx ring_Suc [OF t] m c
    by (auto simp: mbox_take_def mbox_inv_def mbox_contents_def)
qed

definition mbox_put :: "unit \<Rightarrow> 'm \<Rightarrow> 'm sys_mbox_t \<Rightarrow> (bool \<times> 'm sys_mbox_t) option" where
  "mbox_put u msg q = (case sys_mbox_trypost msg q of (e, q') \<Rightarrow> Some (e = ERR_OK, q'))"

definition mbox_get :: "'m sys_mbox_t \<Rightarrow> ('m option \<times> 'm sys_mbox_t) option" where
  "mbox_get q = (case sys_arch_mbox_tryfetch q of (r, msg, q') \<Rightarrow> Some (msg, q'))"

lemma length_mbox_contents: "mbox_inv q \<Longrightarrow> length (mbox_contents q) < MAX_QUEUE_ENTRIES"
  by (auto simp: mbox_inv_def mbox_contents_def)

lemma tryfetch_empty: "mbox_inv q \<Longrightarrow> mbox_contents q = [] \<Longrightarrow>
   sys_arch_mbox_tryfetch q = (Inl SYS_MBOX_EMPTY, None, q)"
  by (auto simp: sys_arch_mbox_tryfetch_def mbox_contents_def mbox_inv_def)

lemma tryfetch_message: "mbox_inv q \<Longrightarrow> mbox_contents q = m # ms \<Longrightarrow>
   \<exists>q'. sys_arch_mbox_tryfetch q = (Inr 0, Some m, q') \<and> mbox_inv q' \<and> mbox_contents q' = ms"
proof -
  assume a: "mbox_inv q" "mbox_contents q = m # ms"
  then obtain n where n: "mbox_sem q = Some (Suc n)"
    by (cases "the (mbox_sem q)") (auto simp: mbox_contents_def mbox_inv_def)
  from mbox_take_spec [OF a(1) n] a(2) show ?thesis by (auto simp: sys_arch_mbox_tryfetch_def n)
qed

interpretation mailbox: bounded_fifo mbox_inv mbox_contents "MAX_QUEUE_ENTRIES - 1"
  "\<lambda>u q. True" mbox_put mbox_get
proof unfold_locales
  fix s :: "'a sys_mbox_t" and e m
  assume "mbox_inv s" "length (mbox_contents s) < MAX_QUEUE_ENTRIES - 1"
  then show "\<exists>s'. mbox_put e m s = Some (True, s') \<and> mbox_inv s' \<and> mbox_contents s' = mbox_contents s @ [m]"
    using sys_mbox_trypost_spec [of s m] sys_mbox_post_room [of s m] by (simp add: mbox_put_def)
next
  fix s :: "'a sys_mbox_t" and e m
  assume i: "mbox_inv s" and "MAX_QUEUE_ENTRIES - 1 \<le> length (mbox_contents s)"
  with length_mbox_contents [OF i] show "\<exists>s'. mbox_put e m s = Some (False, s') \<and> mbox_inv s' \<and> mbox_contents s' = mbox_contents s"
    using sys_mbox_trypost_spec [of s m] by (simp add: mbox_put_def)
next
  fix s :: "'a sys_mbox_t" and m ms
  assume "mbox_inv s" "mbox_contents s = m # ms"
  from tryfetch_message [OF this]
  show "\<exists>s'. mbox_get s = Some (Some m, s') \<and> mbox_inv s' \<and> mbox_contents s' = ms"
    by (auto simp: mbox_get_def)
next
  fix s :: "'a sys_mbox_t"
  assume "mbox_inv s" "mbox_contents s = []"
  then show "mbox_get s = Some (None, s)" by (simp add: mbox_get_def tryfetch_empty)
next
  fix s :: "'a sys_mbox_t"
  assume "mbox_inv s"
  from length_mbox_contents [OF this] show "length (mbox_contents s) \<le> MAX_QUEUE_ENTRIES - 1" by simp
qed

section \<open>Properties\<close>


definition empty_box :: "nat sys_mbox_t" where
  "empty_box = snd (sys_mbox_new True \<lparr>mbox_sem = None, q_mem = [], mbox_head = 7, mbox_tail = 9\<rparr>)"

lemma empty_box_inv: "mbox_inv empty_box" "mbox_contents empty_box = []"
proof -
  have "sys_mbox_new True \<lparr>mbox_sem = None, q_mem = [], mbox_head = 7, mbox_tail = 9\<rparr> = (ERR_OK, empty_box)"
    by (simp add: empty_box_def sys_mbox_new_def)
  from mbox_inv_new [OF this] show "mbox_inv empty_box" "mbox_contents empty_box = []" by auto
qed


lemma ring_full: "t < MAX_QUEUE_ENTRIES \<Longrightarrow> ring t MAX_QUEUE_ENTRIES = t"
  by (simp add: ring_def)

text \<open>
  \<open>sys_mbox_post\<close> does not wait for room: with 511 messages waiting, a second unchecked
  post overwrites the oldest message, and the newest message is fetched first.
\<close>

theorem mailbox_post_overwrites:
  assumes "mbox_inv q" and "length (mbox_contents q) = 511"
  shows "fst (snd (sys_arch_mbox_tryfetch (sys_mbox_post b (sys_mbox_post a q)))) = Some b"
proof -
  let ?t = "mbox_tail q"
  have n: "mbox_sem q = Some 511" "mbox_head q = ring ?t 511" and t: "?t < MAX_QUEUE_ENTRIES"
    and l: "length (q_mem q) = MAX_QUEUE_ENTRIES"
    using assms by (auto simp: mbox_inv_def mbox_contents_def)
  have m: "Suc 511 = MAX_QUEUE_ENTRIES" by (simp add: MAX_QUEUE_ENTRIES_def)
  let ?q = "sys_mbox_post a q"
  have h1: "mbox_head ?q = ?t" "mbox_tail ?q = ?t" "length (q_mem ?q) = MAX_QUEUE_ENTRIES"
    using n l ring_next_ring [OF t, of 511] ring_full [OF t]
    by (simp_all add: sys_mbox_post_def MAX_QUEUE_ENTRIES_def)
  have s1: "mbox_sem ?q = Some MAX_QUEUE_ENTRIES"
    using n m by (simp add: sys_mbox_post_def ReleaseSemaphore_def)
  have "mbox_sem (sys_mbox_post b ?q) = Some (Suc 511)"
    using s1 m by (simp add: sys_mbox_post_def [of b] ReleaseSemaphore_def)
  moreover have "q_mem (sys_mbox_post b ?q) ! mbox_tail (sys_mbox_post b ?q) = Some b"
    using h1 t by (simp add: sys_mbox_post_def [of b])
  ultimately show ?thesis by (simp add: sys_arch_mbox_tryfetch_def mbox_take_def)
qed

definition full_box :: "nat sys_mbox_t" where
  "full_box = \<lparr>mbox_sem = Some 511, q_mem = replicate 512 (Some 0), mbox_head = 511, mbox_tail = 0\<rparr>"

theorem mailbox_post_overwrites_witness:
  "fst (snd (sys_arch_mbox_tryfetch (sys_mbox_post 2 (sys_mbox_post 1 full_box)))) = Some 2"
proof -
  have "mbox_inv full_box" by (simp add: full_box_def mbox_inv_def MAX_QUEUE_ENTRIES_def ring_def)
  moreover have "length (mbox_contents full_box) = 511" by (simp add: full_box_def mbox_contents_def)
  ultimately show ?thesis by (rule mailbox_post_overwrites)
qed

lemma ucast_down:
  "(ucast (x + y :: u64) :: u32) = ucast x + ucast y" "(ucast (x - y :: u64) :: u32) = ucast x - ucast y"
proof -
  have d: "(ucast (word_of_int k :: u64) :: u32) = word_of_int k" for k :: int
    by (rule ucast_down_wi) (simp add: is_down)
  have u: "word_of_int (uint z) = z" for z :: u64 by simp
  show "(ucast (x + y) :: u32) = ucast x + ucast y"
    using d [of "uint x + uint y"] d [of "uint x"] d [of "uint y"]
    by (simp only: wi_hom_add [symmetric] u)
  show "(ucast (x - y) :: u32) = ucast x - ucast y"
    using d [of "uint x - uint y"] d [of "uint x"] d [of "uint y"]
    by (simp only: wi_hom_sub [symmetric] u)
qed

lemma ucast_back: "(ucast (ucast (x :: u32) :: u64) :: u32) = x"
  by (rule ucast_up_ucast_id) (simp add: is_up)

lemma sint_ucast_u64: "sint (ucast (x :: u32) :: u64) = int (unat x)"
proof -
  have "uint (ucast x :: u64) = uint x"
    using uint_lt2p [of x] by (simp add: unsigned_ucast_eq take_bit_int_eq_self)
  moreover have "signed_take_bit 63 (uint x) = uint x"
  proof (rule signed_take_bit_int_eq_self)
    have "0 \<le> uint x" by (rule unsigned_greater_eq)
    moreover have "- (2 ^ 63) \<le> (0 :: int)" by simp
    ultimately show "- (2 ^ 63) \<le> uint x" by (rule order_trans [rotated])
    show "uint x < 2 ^ 63" using uint_lt2p [of x] by simp
  qed
  ultimately show ?thesis by (simp add: sint_uint)
qed

text \<open>
  Elapsed time between two readings of the 32-bit clock: exact while the clock has not
  wrapped, one millisecond short of the true difference (modulo $2^{32}$) when it has.
\<close>

theorem msDiff_ticks:
  "msDiff (ucast (t :: u32)) (ucast s) = (if s \<le> t then t - s else t - s - 1)"
proof -
  have "(sint (ucast t :: u64) \<ge> sint (ucast s :: u64)) = (s \<le> t)"
    by (simp add: sint_ucast_u64 word_le_def)
  moreover have "(ucast (0xFFFFFFFFFFFFFFFF :: u64) :: u32) = - 1" by simp
  ultimately show ?thesis by (simp add: msDiff_def ucast_down ucast_back)
qed

section \<open>Counting and excluding\<close>

text \<open>Signals are counted: a wait succeeds as often as the semaphore was signalled.\<close>

fun sem_waits :: "nat \<Rightarrow> sys_sem_t \<Rightarrow> sys_sem_t option" where
  "sem_waits 0 sem = Some sem"
| "sem_waits (Suc k) sem = do { (r, sem) \<leftarrow> sys_arch_sem_wait 0 0 0 sem; sem_waits k sem }"

lemma sem_signal_wait:
  assumes "n + k \<le> MAX_SEM_COUNT"
  shows "sem_waits k ((sys_sem_signal ^^ k) (Some n)) = Some (Some n)"
    and "sem_waits (Suc (n + k)) ((sys_sem_signal ^^ k) (Some n)) = None"
proof -
  have s: "(sys_sem_signal ^^ k) (Some n) = Some (n + k)"
    using assms by (induction k) (simp_all add: sys_sem_signal_def)
  have w: "sem_waits j (Some (m + j)) = Some (Some m)" for j m
    by (induction j) (simp_all add: sys_arch_sem_wait_def Let_def)
  have "sem_waits (Suc m) (Some m) = None" for m
    by (induction m) (simp_all add: sys_arch_sem_wait_def Let_def)
  with w show "sem_waits k ((sys_sem_signal ^^ k) (Some n)) = Some (Some n)"
    "sem_waits (Suc (n + k)) ((sys_sem_signal ^^ k) (Some n)) = None" by (simp_all add: s)
qed

text \<open>
  Only the holder runs: while \<open>t\<close> is inside, another thread cannot enter, and it can as soon as \<open>t\<close> has left as
  often as it has entered.
\<close>

fun enter_times :: "nat \<Rightarrow> nat \<Rightarrow> lock \<Rightarrow> lock option" where
  "enter_times 0 t l = Some l"
| "enter_times (Suc k) t l = do { l \<leftarrow> lock_enter t l; enter_times k t l }"

lemma lock_excludes:
  assumes "enter_times (Suc k) t sys_init = Some l" and "u \<noteq> t"
  shows "j \<le> k \<Longrightarrow> sys_arch_protect u ((sys_arch_unprotect t ^^ j) l) = None"
    and "sys_arch_protect u ((sys_arch_unprotect t ^^ Suc k) l) = Some (Some (u, 1))"
proof -
  have "enter_times j t (Some (t, n)) = Some (Some (t, n + j))" for j n
    by (induction j arbitrary: n) (simp_all add: lock_enter_def)
  with assms(1) have l: "l = Some (t, Suc k)" by (simp add: sys_init_def sys_arch_init_def lock_enter_def)
  have d: "j \<le> k \<Longrightarrow> (lock_leave t ^^ j) l = Some (t, Suc k - j)" for j
    by (induction j) (auto simp: l lock_leave_def)
  show "j \<le> k \<Longrightarrow> sys_arch_protect u ((sys_arch_unprotect t ^^ j) l) = None"
    using d assms(2) by (simp add: sys_arch_protect_def sys_arch_unprotect_def lock_enter_def)
  show "sys_arch_protect u ((sys_arch_unprotect t ^^ Suc k) l) = Some (Some (u, 1))"
    using d [of k] by (simp add: sys_arch_protect_def sys_arch_unprotect_def lock_enter_def lock_leave_def)
qed

end
