(* ===== verification/LwipApi.thy ===== *)
theory LwipApi
  imports Device SysArch
begin

text \<open>
  \<^verbatim>\<open>lwip_api.c\<close>: the link of the network interface and one round of the stack. The
  interface holds addresses in network byte order. The timers and the messages of the stack are
  lwIP's; what a round needs of them are arguments.
\<close>

unbundle bit_operations_syntax

section \<open>The link\<close>

definition PP_HTONL :: "u32 \<Rightarrow> u32" where
  "PP_HTONL x = push_bit 24 (x AND 0x000000FF) OR push_bit 8 (x AND 0x0000FF00) OR
     drop_bit 8 (x AND 0x00FF0000) OR drop_bit 24 (x AND 0xFF000000)"

record netif =
  ip_addr :: u32
  netmask :: u32
  gw :: u32
  link_up :: bool
  if_up :: bool
  dhcp_on :: bool
  igmp :: bool

record link =
  main_netif :: netif
  lk_dev :: device

definition OnDhcpFinished :: "link \<Rightarrow> link" where
  "OnDhcpFinished s =
     (let n = main_netif s;
          d = SetSubnetLong (PP_HTONL (netmask n)) (SetGatewayLong (PP_HTONL (gw n))
                (SetMyIPLong (PP_HTONL (ip_addr n)) (lk_dev s)))
      in s\<lparr>lk_dev := d\<lparr>g_ipIsReady := 1\<rparr>, main_netif := n\<lparr>igmp := True\<rparr>\<rparr>)"

text \<open>\<open>dhcp_ok\<close> is the answer of \<open>dhcp_start\<close>; with it, the addresses come later.\<close>

definition LwipLinkUp :: "bool \<Rightarrow> link \<Rightarrow> link" where
  "LwipLinkUp dhcp_ok s =
     (let d = lk_dev s;
          n = (main_netif s)\<lparr>link_up := True, if_up := True, ip_addr := PP_HTONL (GetMyIP d),
                netmask := PP_HTONL (GetSubnet d), gw := PP_HTONL (GetGateway d)\<rparr>
      in if IsDhcpEnabled d \<noteq> 0 \<and> dhcp_ok then s\<lparr>main_netif := n\<lparr>dhcp_on := True\<rparr>\<rparr>
         else OnDhcpFinished (s\<lparr>main_netif := n\<rparr>))"

definition LwipLinkDown :: "link \<Rightarrow> link" where
  "LwipLinkDown s =
     s\<lparr>lk_dev := (lk_dev s)\<lparr>g_ipIsReady := 0\<rparr>, main_netif := (main_netif s)\<lparr>dhcp_on := False, if_up := False, link_up := False\<rparr>\<rparr>"

text \<open>The lease of an address, as lwIP's DHCP client stores it before it calls \<open>OnDhcpFinished\<close>.\<close>

definition dhcp_bind :: "u32 \<Rightarrow> u32 \<Rightarrow> u32 \<Rightarrow> link \<Rightarrow> link" where
  "dhcp_bind a m g s = OnDhcpFinished (s\<lparr>main_netif := (main_netif s)\<lparr>ip_addr := a, netmask := m, gw := g\<rparr>\<rparr>)"

section \<open>One round of the stack\<close>

definition SYS_TIMEOUTS_SLEEPTIME_INFINITE :: u32 where
  "SYS_TIMEOUTS_SLEEPTIME_INFINITE = 0xFFFFFFFF"

record counters =
  urgentCount :: nat
  nonUrgent :: nat
  noTimerCount :: nat
  timer0Count :: nat
  timer1Count :: nat
  eventCount :: nat

text \<open>
  \<open>sleep1\<close> and \<open>sleep2\<close> answer the calls of \<open>sys_timeouts_sleeptime\<close> before and after the due
  timers have run, \<open>now1\<close> and \<open>now2\<close> the clock around the wait. The results are the message to
  handle, the returned value and whether the due timers were run.
\<close>

definition tcpip_inloop ::
  "u32 \<Rightarrow> u32 \<Rightarrow> u32 \<Rightarrow> u32 \<Rightarrow> 'm sys_mbox_t \<Rightarrow> counters \<Rightarrow>
     (int \<times> bool \<times> 'm option \<times> 'm sys_mbox_t \<times> counters) option" where
  "tcpip_inloop sleep1 sleep2 now1 now2 q k =
     (let due = (sleep1 = 0);
          sleeptime = (if due then sleep2 else sleep1);
          k = (if sleep1 = SYS_TIMEOUTS_SLEEPTIME_INFINITE then k\<lparr>noTimerCount := noTimerCount k + 1\<rparr>
               else if due then k\<lparr>timer0Count := timer0Count k + 1\<rparr>
               else k\<lparr>timer1Count := timer1Count k + 1\<rparr>);
          waitMS = (if sleeptime \<noteq> SYS_TIMEOUTS_SLEEPTIME_INFINITE then sleeptime else 100);
          waitMS = (if waitMS = 0 then 10 else waitMS)
      in if sleeptime = 0 then Some (1, due, None, q, k)
         else do {
           (ret, msg, q) \<leftarrow> sys_arch_mbox_fetch waitMS now1 now2 q;
           let got = (case ret of Inl e \<Rightarrow> False | Inr ms \<Rightarrow> ms \<noteq> 0xFFFFFFFF);
           Some (if got \<and> msg \<noteq> None
             then (1, due, msg, q, k\<lparr>eventCount := eventCount k + 1, urgentCount := urgentCount k + 1\<rparr>)
             else (0, due, None, q, k\<lparr>nonUrgent := nonUrgent k + 1\<rparr>)) })"

section \<open>The link gets its addresses\<close>

lemma byte_masks:
  "(0x000000FF :: u32) = mask 8" "(0x0000FF00 :: u32) = push_bit 8 (mask 8)"
  "(0x00FF0000 :: u32) = push_bit 16 (mask 8)" "(0xFF000000 :: u32) = push_bit 24 (mask 8)"
  by (simp_all add: mask_eq_exp_minus_1 push_bit_eq_mult)

lemma PP_HTONL_bit:
  assumes "n < 32"
  shows "bit (PP_HTONL x) n \<longleftrightarrow>
    (if n < 8 then bit x (n + 24) else if n < 16 then bit x (n + 8) else if n < 24 then bit x (n - 8) else bit x (n - 24))"
  unfolding PP_HTONL_def byte_masks
  using assms by (auto simp: bit_simps add.commute)

lemma PP_HTONL_twice: "PP_HTONL (PP_HTONL x) = x"
proof (rule bit_word_eqI)
  fix n assume "n < LENGTH(32)"
  then have "n < 32" by simp
  then consider "n < 8" | "8 \<le> n" "n < 16" | "16 \<le> n" "n < 24" | "24 \<le> n" "n < 32" by linarith
  then show "bit (PP_HTONL (PP_HTONL x)) n = bit x n" by cases (auto simp: PP_HTONL_bit)
qed

lemmas link_defs = LwipLinkUp_def OnDhcpFinished_def dhcp_bind_def Let_def SetMyIPLong_def SetGatewayLong_def
  SetSubnetLong_def GetMyIP_def GetGateway_def GetSubnet_def PP_HTONL_twice

text \<open>The addresses of the interface are those of the working configuration, in network byte order.\<close>

definition addresses_agree :: "link \<Rightarrow> bool" where
  "addresses_agree s \<longleftrightarrow> ip_addr (main_netif s) = PP_HTONL (GetMyIP (lk_dev s)) \<and>
     netmask (main_netif s) = PP_HTONL (GetSubnet (lk_dev s)) \<and> gw (main_netif s) = PP_HTONL (GetGateway (lk_dev s))"

text \<open>
  C21. Bringing the link up: without DHCP, or when it cannot be started, the interface takes the
  addresses of the working configuration, which stay as they are, and the services may start. With
  DHCP the address is not ready; the lease then becomes the working configuration. In all cases the
  interface and the configuration agree.
\<close>

theorem link_up_addresses:
  "addresses_agree (LwipLinkUp ok s) \<and> link_up (main_netif (LwipLinkUp ok s)) \<and>
   addresses_agree (dhcp_bind a m g (LwipLinkUp ok s)) \<and>
   GetMyIP (lk_dev (LwipLinkUp ok s)) = GetMyIP (lk_dev s) \<and>
   GetMyIP (lk_dev (dhcp_bind a m g (LwipLinkUp ok s))) = PP_HTONL a \<and>
   g_ipIsReady (lk_dev (dhcp_bind a m g (LwipLinkUp ok s))) = 1 \<and>
   g_ipIsReady (lk_dev (LwipLinkUp ok s)) =
     (if IsDhcpEnabled (lk_dev s) \<noteq> 0 \<and> ok then g_ipIsReady (lk_dev s) else 1)"
  by (simp add: addresses_agree_def link_defs)

end
