(* ===== verification/App.thy ===== *)
theory App
  imports Server Ssdp LwipApi
begin

text \<open>
  \<^verbatim>\<open>straight-httpd.c\<close>, \<open>AppThread\<close>: the thread that runs the stack and the services. The
  thread is a step relation over its program points. While it waits for an address and while
  it serves, each step is one call of \<open>tcpip_inloop\<close>; the stack may then run callbacks of the
  server, bring the link up or down, and run the timer of the announcements.
\<close>

datatype stack_event =
    EvAccept "nat option" bool u32 u16 u16 bool
  | EvReceive "nat option" "pbuf_chain option"
  | EvPoll "nat option" nat
  | EvSent "nat option" nat nat
  | EvError "nat option"
  | EvDhcp u32 u32 u32
  | EvLinkDown
  | EvAdvertise bool
  | EvSearch "char list" u32 u16 bool

datatype app_pc = Boot | Loop | WaitIp | Serve | Stopped | Ended

record app =
  pc :: app_pc
  g_nKeepRunning :: int
  ap_server :: server
  ap_ssdp :: ssdp
  ap_netif :: netif
  g_pcbListen80 :: "nat option"
  g_pcbListen443 :: "nat option"

text \<open>The configuration of the device is shared by the server and the link.\<close>

definition ap_dev :: "app \<Rightarrow> device" where "ap_dev a = w_dev (sv_world (ap_server a))"

definition ap_ready :: "app \<Rightarrow> s32" where "ap_ready a = g_ipIsReady (ap_dev a)"

definition on_link :: "(link \<Rightarrow> link) \<Rightarrow> app \<Rightarrow> app" where
  "on_link f a =
     (let l = f \<lparr>main_netif = ap_netif a, lk_dev = ap_dev a\<rparr>
      in a\<lparr>ap_netif := main_netif l,
           ap_server := (ap_server a)\<lparr>sv_world := (sv_world (ap_server a))\<lparr>w_dev := lk_dev l\<rparr>\<rparr>\<rparr>)"

definition set_server :: "app \<Rightarrow> server \<Rightarrow> app" where "set_server a s = a\<lparr>ap_server := s\<rparr>"

fun run_event :: "stack_event \<Rightarrow> app \<Rightarrow> app option" where
  "run_event (EvAccept p ok ip rport lport tls) a =
     map_option (set_server a \<circ> snd) (OnHttpAccept p ok ip rport lport tls (ap_server a))"
| "run_event (EvReceive arg p) a = map_option (set_server a) (OnHttpReceive arg p (ap_server a))"
| "run_event (EvPoll arg p) a = map_option (set_server a \<circ> snd) (OnHttpPoll arg p (ap_server a))"
| "run_event (EvSent arg p len) a = map_option (set_server a \<circ> snd) (OnHttpSent arg p len (ap_server a))"
| "run_event (EvError arg) a = map_option (set_server a) (OnHttpError arg (ap_server a))"
| "run_event (EvDhcp ip m g) a = Some (on_link (dhcp_bind ip m g) a)"
| "run_event EvLinkDown a = Some (on_link LwipLinkDown a)"
| "run_event (EvAdvertise alloc) a =
     map_option (\<lambda>s. a\<lparr>ap_ssdp := s\<rparr>) (ssdp_advertise alloc (ap_dev a) (ap_ssdp a))"
| "run_event (EvSearch p addr port alloc) a =
     map_option (\<lambda>s. a\<lparr>ap_ssdp := s\<rparr>) (ssdp_listener p addr port alloc (ap_dev a) (ap_ssdp a))"

fun run_events :: "stack_event list \<Rightarrow> app \<Rightarrow> app option" where
  "run_events [] a = Some a"
| "run_events (e # es) a = do { a \<leftarrow> run_event e a; run_events es a }"

definition upd_sessions :: "(sessions \<Rightarrow> sessions) \<Rightarrow> app \<Rightarrow> app" where
  "upd_sessions f a = a\<lparr>ap_server := (ap_server a)\<lparr>sv_world :=
     (sv_world (ap_server a))\<lparr>w_sessions := f (w_sessions (sv_world (ap_server a)))\<rparr>\<rparr>\<rparr>"

text \<open>One round of the stack: the events it runs, and the session check when it was not busy.\<close>

definition app_round :: "bool \<Rightarrow> u64 \<Rightarrow> stack_event list \<Rightarrow> app \<Rightarrow> app option" where
  "app_round busy tick es a =
     do { a \<leftarrow> run_events es a;
          Some (if busy then a else upd_sessions (SessionCheck (ap_dev a) tick) a) }"

definition app_boot :: "bool \<Rightarrow> app \<Rightarrow> app option" where
  "app_boot dhcp_ok a =
     do { let w = sv_world (ap_server a);
          s \<leftarrow> SetupHttpContext (w\<lparr>w_dev := InitDevInfo (w_dev w), w_fs := snd (WEB_fs_init (w_fs w))\<rparr>);
          Some (on_link (LwipLinkUp dhcp_ok) (a\<lparr>ap_server := s\<rparr>)) }"

definition start_services ::
  "bool \<Rightarrow> (nat option \<times> nat option) \<Rightarrow> (nat option \<times> nat option) \<Rightarrow> app \<Rightarrow> app" where
  "start_services udp_ok l80 l443 a =
     (let (p80, w) = HttpdInit 0 (fst l80) (snd l80) (sv_world (ap_server a));
          (p443, w) = HttpdInit 1 (fst l443) (snd l443) w
      in a\<lparr>ap_ssdp := ssdpInit udp_ok (ap_ssdp a), g_pcbListen80 := p80, g_pcbListen443 := p443,
           ap_server := (ap_server a)\<lparr>sv_world := w\<rparr>\<rparr>)"

definition stop_listener :: "nat option \<Rightarrow> server \<Rightarrow> server option" where
  "stop_listener p s = (case p of None \<Rightarrow> Some s | Some p \<Rightarrow> HttpdStop p s)"

definition stop_services :: "bool \<Rightarrow> app \<Rightarrow> app option" where
  "stop_services alloc a =
     do { s \<leftarrow> stop_listener (g_pcbListen80 a) (ap_server a);
          s \<leftarrow> stop_listener (g_pcbListen443 a) s;
          d \<leftarrow> ssdpDown alloc (ap_dev a) (ap_ssdp a);
          Some (a\<lparr>ap_server := s, ap_ssdp := d\<rparr>) }"

inductive app_step :: "app \<Rightarrow> app \<Rightarrow> bool" where
  boot: "pc a = Boot \<Longrightarrow> app_boot dhcp_ok a = Some b \<Longrightarrow> app_step a (b\<lparr>pc := Loop\<rparr>)"
| loop: "pc a = Loop \<Longrightarrow> g_nKeepRunning a \<noteq> 0 \<Longrightarrow>
     app_step a ((upd_sessions SessionClearAll a)\<lparr>pc := WaitIp\<rparr>)"
| leave: "pc a = Loop \<Longrightarrow> g_nKeepRunning a = 0 \<Longrightarrow> app_step a (on_link LwipLinkDown (a\<lparr>pc := Ended\<rparr>))"
| wait: "pc a = WaitIp \<Longrightarrow> ap_ready a = 0 \<Longrightarrow> app_round busy tick es a = Some b \<Longrightarrow> app_step a b"
| start: "pc a = WaitIp \<Longrightarrow> ap_ready a \<noteq> 0 \<Longrightarrow>
     app_step a ((start_services udp_ok l80 l443 a)\<lparr>pc := Serve\<rparr>)"
| serve: "pc a = Serve \<Longrightarrow> ap_ready a \<noteq> 0 \<Longrightarrow> app_round busy tick es a = Some b \<Longrightarrow> app_step a b"
| stop: "pc a = Serve \<Longrightarrow> ap_ready a = 0 \<Longrightarrow> stop_services alloc a = Some b \<Longrightarrow>
     app_step a (b\<lparr>pc := Stopped\<rparr>)"
| quit: "pc a = Stopped \<Longrightarrow> ap_ready a = 0 \<Longrightarrow> app_step a (on_link LwipLinkDown (a\<lparr>pc := Ended\<rparr>))"
| again: "pc a = Stopped \<Longrightarrow> ap_ready a \<noteq> 0 \<Longrightarrow> app_step a (a\<lparr>pc := Loop\<rparr>)"
| running: "app_step a (a\<lparr>g_nKeepRunning := n\<rparr>)"

inductive_simps app_step_simps: "app_step a b"

section \<open>The life of the thread\<close>

lemma run_event_pc: "returns (run_event e a) (\<lambda>b. pc b = pc a)"
  by (cases e) (simp_all add: returns_simps on_link_def set_server_def Let_def)

lemma run_events_pc: "returns (run_events es a) (\<lambda>b. pc b = pc a)"
proof (induction es arbitrary: a)
  case (Cons e es)
  show ?case
    unfolding run_events.simps
  proof (rule returns_bindI [OF run_event_pc])
    fix b :: app assume "pc b = pc a"
    with Cons.IH [of b] show "returns (run_events es b) (\<lambda>b. pc b = pc a)" by simp
  qed
qed (simp add: returns_simps)

lemma app_round_pc: "returns (app_round busy tick es a) (\<lambda>b. pc b = pc a)"
  unfolding app_round_def returns_simps
  by (auto simp: returns_def upd_sessions_def dest: returnsD [OF run_events_pc])

text \<open>Freeing contexts leaves the settings alone.\<close>

lemma close_page_dev: "returns (close_page c w) (\<lambda>r. w_dev (snd r) = w_dev w)"
  by (simp add: close_page_def returns_simps)

lemma CGI_Finish_dev: "returns (CGI_Finish c w) (\<lambda>r. w_dev (snd r) = w_dev w)"
proof (cases "handler c")
  case (Some h)
  then show ?thesis
    using close_page_dev [of c w] by (cases h) (simp_all add: CGI_Finish_def OnFinished_def WEB_Finished_def returns_simps)
qed (simp add: CGI_Finish_def returns_simps)

lemma close_file_dev: "returns (close_file c w) (\<lambda>r. w_dev (snd r) = w_dev w)"
  by (simp add: close_file_def returns_simps)

lemma FreeHttpContext_dev: "returns (FreeHttpContext c w) (\<lambda>r. w_dev (snd r) = w_dev w)"
  unfolding FreeHttpContext_def Let_def returns_simps
  by (auto simp: returns_def dest!: returnsD [OF CGI_Finish_dev] returnsD [OF close_file_dev])

lemma free_all_dev: "returns (free_all cs w) (\<lambda>r. w_dev (snd r) = w_dev w)"
proof (induction cs arbitrary: w)
  case (Cons c cs)
  show ?case
    unfolding free_all.simps
  proof (rule returns_bindI [OF FreeHttpContext_dev])
    fix r :: "REQUEST_CONTEXT \<times> world" assume "w_dev (snd r) = w_dev w"
    with Cons.IH [of "snd r"]
    show "returns (case r of (c, w) \<Rightarrow> Option.bind (free_all cs w) (\<lambda>(cs, w). Some (c # cs, w))) (\<lambda>r. w_dev (snd r) = w_dev w)"
      by (simp add: returns_simps)
  qed
qed (simp add: returns_simps)

lemma HttpdStop_dev: "returns (HttpdStop p s) (\<lambda>t. w_dev (sv_world t) = w_dev (sv_world s))"
  unfolding HttpdStop_def Let_def returns_simps
  by (auto simp: returns_def altcp_close_def Let_def dest!: returnsD [OF free_all_dev] split: if_splits)

lemma stop_listener_dev: "returns (stop_listener p s) (\<lambda>t. w_dev (sv_world t) = w_dev (sv_world s))"
  using HttpdStop_dev by (simp add: stop_listener_def returns_simps)

lemma stop_services_ready: "returns (stop_services alloc a) (\<lambda>b. ap_ready b = ap_ready a \<and> pc b = pc a)"
  unfolding stop_services_def returns_simps
  by (auto simp: returns_def ap_ready_def ap_dev_def dest!: returnsD [OF stop_listener_dev])

inductive app_run :: "app \<Rightarrow> app \<Rightarrow> bool" where
  here: "app_run a a"
| onward: "app_run a b \<Longrightarrow> app_step b c \<Longrightarrow> app_run a c"

lemma stopped_not_ready:
  "app_run a b \<Longrightarrow> pc a = Boot \<Longrightarrow> pc b = Stopped \<longrightarrow> ap_ready b = 0"
proof (induction rule: app_run.induct)
  case (onward a b c)
  from onward.hyps(2) onward.IH [OF onward.prems] show ?case
    by (cases rule: app_step.cases)
      (auto dest!: returnsD [OF app_round_pc] returnsD [OF stop_services_ready]
        simp: ap_ready_def ap_dev_def on_link_def Let_def LwipLinkDown_def)
qed simp

text \<open>
  C20. The thread ends after the address is lost: in every run, once the services have been stopped the
  address is not ready, so the only way on is the end of the thread. It never returns to the outer loop
  that would wait for a new address and start the services again.
\<close>

theorem thread_ends_after_stop:
  assumes "app_run a b" and "pc a = Boot" and "pc b = Stopped"
  shows "ap_ready b = 0 \<and> (\<exists>c. app_step b c \<and> pc c = Ended) \<and> (\<forall>c. app_step b c \<longrightarrow> pc c \<in> {Ended, Stopped})"
proof -
  have r: "ap_ready b = 0" using stopped_not_ready [OF assms(1,2)] assms(3) by simp
  moreover have "app_step b (on_link LwipLinkDown (b\<lparr>pc := Ended\<rparr>))" using assms(3) r by (rule app_step.quit)
  moreover have "pc (on_link LwipLinkDown (b\<lparr>pc := Ended\<rparr>)) = Ended" by (simp add: on_link_def Let_def)
  moreover have "pc c \<in> {Ended, Stopped}" if "app_step b c" for c
    using that assms(3) r by (cases rule: app_step.cases) (auto simp: on_link_def Let_def)
  ultimately show ?thesis by blast
qed

definition demo_app :: app where
  "demo_app = \<lparr>pc = Boot, g_nKeepRunning = 1,
     ap_server = \<lparr>g_httpContext = [], sv_world = demo_world\<rparr>, ap_ssdp = \<lparr>g_ssdpPcb = False, joined = 0, timers = 0, sent_msgs = []\<rparr>,
     ap_netif = \<lparr>ip_addr = 0, netmask = 0, gw = 0, link_up = False, if_up = False, dhcp_on = False, igmp = False\<rparr>,
     g_pcbListen80 = None, g_pcbListen443 = None\<rparr>"

text \<open>A run: the link comes up with its static address, goes down again, and the services stop.\<close>

lemma demo_run: "\<exists>b. app_run demo_app b \<and> pc b = Stopped"
proof -
  obtain a1 where 1: "app_boot False demo_app = Some a1" "ap_ready a1 = 1" "g_nKeepRunning a1 = 1" "g_pcbListen80 a1 = None"
    by (auto simp: app_boot_def demo_app_def SetupHttpContext_def CGI_SetupMapping_routes on_link_def Let_def ap_ready_def
        ap_dev_def LwipLinkUp_def OnDhcpFinished_def)
  define a2 where "a2 = (upd_sessions SessionClearAll (a1\<lparr>pc := Loop\<rparr>))\<lparr>pc := WaitIp\<rparr>"
  define a3 where "a3 = (start_services False (None, None) (None, None) a2)\<lparr>pc := Serve\<rparr>"
  define a4 where "a4 = on_link LwipLinkDown a3"
  have r2: "ap_ready a2 \<noteq> 0" using 1(2) by (simp add: a2_def upd_sessions_def ap_ready_def ap_dev_def)
  have r3: "ap_ready a3 \<noteq> 0" using r2 by (simp add: a3_def start_services_def HttpdInit_def Let_def ap_ready_def ap_dev_def)
  have r4: "ap_ready a4 = 0" by (simp add: a4_def on_link_def Let_def LwipLinkDown_def ap_ready_def ap_dev_def)
  have p4: "pc a4 = Serve" "g_pcbListen80 a4 = None" "g_pcbListen443 a4 = None"
    by (simp_all add: a4_def on_link_def Let_def a3_def start_services_def HttpdInit_def)
  obtain d where d: "ssdpDown False (ap_dev a4) (ap_ssdp a4) = Some d" using ssdpDown_ok by blast
  have 5: "stop_services False a4 = Some (a4\<lparr>ap_server := ap_server a4, ap_ssdp := d\<rparr>)"
    by (simp add: stop_services_def stop_listener_def p4 d)
  have "app_run demo_app (a1\<lparr>pc := Loop\<rparr>)"
    by (rule app_run.onward [OF app_run.here app_step.boot [OF _ 1(1)]]) (simp add: demo_app_def)
  then have "app_run demo_app a2"
    unfolding a2_def by (rule app_run.onward) (rule app_step.loop, simp_all add: 1)
  then have "app_run demo_app a3"
    unfolding a3_def by (rule app_run.onward) (rule app_step.start, simp_all add: r2, simp add: a2_def)
  then have "app_run demo_app a4"
  proof (rule app_run.onward)
    show "app_step a3 a4"
      by (rule app_step.serve [of _ True 0 "[EvLinkDown]"]) (use r3 in \<open>simp_all add: app_round_def a4_def\<close>, simp add: a3_def)
  qed
  then have "app_run demo_app ((a4\<lparr>ap_server := ap_server a4, ap_ssdp := d\<rparr>)\<lparr>pc := Stopped\<rparr>)"
    by (rule app_run.onward) (rule app_step.stop [OF p4(1) r4 5])
  moreover have "pc ((a4\<lparr>ap_server := ap_server a4, ap_ssdp := d\<rparr>)\<lparr>pc := Stopped\<rparr>) = Stopped" by simp
  ultimately show ?thesis by blast
qed

theorem thread_ends_after_stop_witness:
  "\<exists>b. app_run demo_app b \<and> pc b = Stopped \<and> (\<exists>c. app_step b c \<and> pc c = Ended)"
proof -
  obtain b where b: "app_run demo_app b" "pc b = Stopped" using demo_run by blast
  have "pc demo_app = Boot" by (simp add: demo_app_def)
  from thread_ends_after_stop [OF b(1) this b(2)] b show ?thesis by blast
qed

end
