(* ===== verification/Wellformed.thy ===== *)
theory Wellformed
  imports App
begin

text \<open>
  The shapes of the state: what a well-formed connection context, page context and world are, and that the file
  access, the pages, the forms, the login, the upload and every entry of the handler tables keep them. Each
  proof takes the body of one operation apart by the rules \<open>vcg\<close> and looks the operations it calls up in the
  collection \<open>good_rules\<close>.
\<close>

section \<open>Well-formed contexts\<close>

named_theorems wf_simps \<open>evaluation of well-formedness\<close>

text \<open>
  Every array of a context has its declared size, and the session of a context is a slot of the
  session table.
\<close>

definition wf_index :: "nat option \<Rightarrow> bool" where
  "wf_index s \<longleftrightarrow> (\<forall>k. s = Some k \<longrightarrow> k < MAX_SESSIONS)"

definition wf_core :: "REQUEST_CONTEXT \<Rightarrow> bool" where
  "wf_core c \<longleftrightarrow> length (ver c) = 4 \<and> length (extension c) = 8 \<and> length (requestPath c) = 128 \<and>
     length (responsePath c) = 128 \<and> length (http_request_buffer c) = 804 \<and> wf_index (session c)"

definition wf_ssi :: "SSI_Context \<Rightarrow> bool" where
  "wf_ssi s \<longleftrightarrow> length (lastModified s) = 64 \<and> length (tagName s) = 64 \<and> length (cache s) = 64"

definition wf_app :: "app_context \<Rightarrow> bool" where
  "wf_app a = (case a of AppBytes b \<Rightarrow> length b = 256 | AppSSI s \<Rightarrow> wf_ssi s)"

definition wf_rsp :: "RESPONSE_CONTEXT \<Rightarrow> bool" where
  "wf_rsp r \<longleftrightarrow> length (rsp_token r) = 128 \<and> length (sendBuffer r) = 1600 \<and> wf_app (appContext r)"

definition wf_world :: "world \<Rightarrow> bool" where
  "wf_world w \<longleftrightarrow> wf_sessions (w_sessions w) \<and> wf_device (w_dev w)"

definition good :: "REQUEST_CONTEXT \<Rightarrow> world \<Rightarrow> bool" where
  "good c w \<longleftrightarrow> wf_core c \<and> wf_rsp (ctxResponse c) \<and> wf_world w"

lemma wf_core_scalar [wf_simps]:
  "wf_core (c\<lparr>sid := x_sid\<rparr>) = wf_core c"
  "wf_core (c\<lparr>state := x_state\<rparr>) = wf_core c"
  "wf_core (c\<lparr>peer_closing := x_peer_closing\<rparr>) = wf_core c"
  "wf_core (c\<lparr>tRequestStart := x_tRequestStart\<rparr>) = wf_core c"
  "wf_core (c\<lparr>req_tLastReceived := x_req_tLastReceived\<rparr>) = wf_core c"
  "wf_core (c\<lparr>nReceiveTimeout := x_nReceiveTimeout\<rparr>) = wf_core c"
  "wf_core (c\<lparr>https := x_https\<rparr>) = wf_core c"
  "wf_core (c\<lparr>ipRemote := x_ipRemote\<rparr>) = wf_core c"
  "wf_core (c\<lparr>portRemote := x_portRemote\<rparr>) = wf_core c"
  "wf_core (c\<lparr>portLocal := x_portLocal\<rparr>) = wf_core c"
  "wf_core (c\<lparr>checkAlive := x_checkAlive\<rparr>) = wf_core c"
  "wf_core (c\<lparr>killing := x_killing\<rparr>) = wf_core c"
  "wf_core (c\<lparr>bufOffset := x_bufOffset\<rparr>) = wf_core c"
  "wf_core (c\<lparr>reqBufList := x_reqBufList\<rparr>) = wf_core c"
  "wf_core (c\<lparr>pcb := x_pcb\<rparr>) = wf_core c"
  "wf_core (c\<lparr>requestMethod := x_requestMethod\<rparr>) = wf_core c"
  "wf_core (c\<lparr>contentLength := x_contentLength\<rparr>) = wf_core c"
  "wf_core (c\<lparr>keepalive := x_keepalive\<rparr>) = wf_core c"
  "wf_core (c\<lparr>chunked := x_chunked\<rparr>) = wf_core c"
  "wf_core (c\<lparr>expect00 := x_expect00\<rparr>) = wf_core c"
  "wf_core (c\<lparr>ifModified := x_ifModified\<rparr>) = wf_core c"
  "wf_core (c\<lparr>rangeFrom := x_rangeFrom\<rparr>) = wf_core c"
  "wf_core (c\<lparr>rangeTo := x_rangeTo\<rparr>) = wf_core c"
  "wf_core (c\<lparr>contentReceived := x_contentReceived\<rparr>) = wf_core c"
  "wf_core (c\<lparr>result := x_result\<rparr>) = wf_core c"
  "wf_core (c\<lparr>handler := x_handler\<rparr>) = wf_core c"
  "wf_core (c\<lparr>options := x_options\<rparr>) = wf_core c"
  "wf_core (c\<lparr>posQuestion := x_posQuestion\<rparr>) = wf_core c"
  "wf_core (c\<lparr>fileHandle := x_fileHandle\<rparr>) = wf_core c"
  "wf_core (c\<lparr>request_length := x_request_length\<rparr>) = wf_core c"
  "wf_core (c\<lparr>max_level := x_max_level\<rparr>) = wf_core c"
  by (simp_all add: wf_core_def)

lemma wf_core_array [wf_simps]:
  "wf_core c \<Longrightarrow> wf_core (c\<lparr>ver := b\<rparr>) \<longleftrightarrow> length b = 4"
  "wf_core c \<Longrightarrow> wf_core (c\<lparr>extension := b\<rparr>) \<longleftrightarrow> length b = 8"
  "wf_core c \<Longrightarrow> wf_core (c\<lparr>requestPath := b\<rparr>) \<longleftrightarrow> length b = 128"
  "wf_core c \<Longrightarrow> wf_core (c\<lparr>responsePath := b\<rparr>) \<longleftrightarrow> length b = 128"
  "wf_core c \<Longrightarrow> wf_core (c\<lparr>http_request_buffer := b\<rparr>) \<longleftrightarrow> length b = 804"
  "wf_core c \<Longrightarrow> wf_core (c\<lparr>session := s\<rparr>) \<longleftrightarrow> wf_index s"
  by (simp_all add: wf_core_def)

lemma wf_core_rsp [wf_simps]: "wf_core (c\<lparr>ctxResponse := r\<rparr>) = wf_core c" "wf_core (upd_rsp f c) = wf_core c" "wf_core (set_ssi s c) = wf_core c"
  by (simp_all add: wf_core_def upd_rsp_def set_ssi_def)

lemma wf_core_length [wf_simps]:
  "wf_core c \<Longrightarrow> length (ver c) = 4"
  "wf_core c \<Longrightarrow> length (extension c) = 8"
  "wf_core c \<Longrightarrow> length (requestPath c) = 128"
  "wf_core c \<Longrightarrow> length (responsePath c) = 128"
  "wf_core c \<Longrightarrow> length (http_request_buffer c) = 804"
  "wf_core c \<Longrightarrow> wf_index (session c)"
  by (simp_all add: wf_core_def)

lemma wf_rsp_scalar [wf_simps]:
  "wf_rsp (r\<lparr>authorized := x_authorized\<rparr>) = wf_rsp r"
  "wf_rsp (r\<lparr>dwOperStage := x_dwOperStage\<rparr>) = wf_rsp r"
  "wf_rsp (r\<lparr>dwOperIndex := x_dwOperIndex\<rparr>) = wf_rsp r"
  "wf_rsp (r\<lparr>dwTotal := x_dwTotal\<rparr>) = wf_rsp r"
  "wf_rsp (r\<lparr>sendMaxBlock := x_sendMaxBlock\<rparr>) = wf_rsp r"
  "wf_rsp (r\<lparr>sending := x_sending\<rparr>) = wf_rsp r"
  "wf_rsp (r\<lparr>total2Send := x_total2Send\<rparr>) = wf_rsp r"
  "wf_rsp (r\<lparr>totalSent := x_totalSent\<rparr>) = wf_rsp r"
  "wf_rsp (r\<lparr>rsp_tLastSent := x_rsp_tLastSent\<rparr>) = wf_rsp r"
  "wf_rsp (r\<lparr>nSendTimeout := x_nSendTimeout\<rparr>) = wf_rsp r"
  "wf_rsp (r\<lparr>bytesLeft := x_bytesLeft\<rparr>) = wf_rsp r"
  by (simp_all add: wf_rsp_def)

lemma wf_rsp_array [wf_simps]:
  "wf_rsp r \<Longrightarrow> wf_rsp (r\<lparr>rsp_token := b\<rparr>) \<longleftrightarrow> length b = 128"
  "wf_rsp r \<Longrightarrow> wf_rsp (r\<lparr>sendBuffer := b\<rparr>) \<longleftrightarrow> length b = 1600"
  "wf_rsp r \<Longrightarrow> wf_rsp (r\<lparr>appContext := a\<rparr>) \<longleftrightarrow> wf_app a"
  by (simp_all add: wf_rsp_def)

lemma wf_rsp_length [wf_simps]:
  "wf_rsp r \<Longrightarrow> length (rsp_token r) = 128" "wf_rsp r \<Longrightarrow> length (sendBuffer r) = 1600" "wf_rsp r \<Longrightarrow> wf_app (appContext r)"
  by (simp_all add: wf_rsp_def)

lemma ctxResponse_sel [wf_simps]:
  "ctxResponse (upd_rsp f c) = f (ctxResponse c)"
  "ctxResponse (set_ssi s c) = (ctxResponse c)\<lparr>appContext := AppSSI s\<rparr>"
  by (simp_all add: upd_rsp_def set_ssi_def)

lemma wf_world_scalar [wf_simps]:
  "wf_world (w\<lparr>w_fs := x_w_fs\<rparr>) = wf_world w"
  "wf_world (w\<lparr>w_folders_made := x_w_folders_made\<rparr>) = wf_world w"
  "wf_world (w\<lparr>w_mapping := x_w_mapping\<rparr>) = wf_world w"
  "wf_world (w\<lparr>httpsListening := x_httpsListening\<rparr>) = wf_world w"
  "wf_world (w\<lparr>w_clock := x_w_clock\<rparr>) = wf_world w"
  "wf_world (w\<lparr>w_ticks := x_w_ticks\<rparr>) = wf_world w"
  "wf_world (w\<lparr>w_time := x_w_time\<rparr>) = wf_world w"
  "wf_world (w\<lparr>w_sndbuf := x_w_sndbuf\<rparr>) = wf_world w"
  "wf_world (w\<lparr>w_sndbuf_n := x_w_sndbuf_n\<rparr>) = wf_world w"
  "wf_world (w\<lparr>w_write_ok := x_w_write_ok\<rparr>) = wf_world w"
  "wf_world (w\<lparr>w_write_n := x_w_write_n\<rparr>) = wf_world w"
  "wf_world (w\<lparr>w_close_ok := x_w_close_ok\<rparr>) = wf_world w"
  "wf_world (w\<lparr>w_close_n := x_w_close_n\<rparr>) = wf_world w"
  "wf_world (w\<lparr>w_wire := x_w_wire\<rparr>) = wf_world w"
  "wf_world (w\<lparr>w_closed := x_w_closed\<rparr>) = wf_world w"
  "wf_world (w\<lparr>w_aborted := x_w_aborted\<rparr>) = wf_world w"
  "wf_world (w\<lparr>w_recved := x_w_recved\<rparr>) = wf_world w"
  by (simp_all add: wf_world_def)

lemma wf_world_table [wf_simps]:
  "wf_world w \<Longrightarrow> wf_world (w\<lparr>w_sessions := ss\<rparr>) \<longleftrightarrow> wf_sessions ss"
  "wf_world w \<Longrightarrow> wf_world (w\<lparr>w_dev := d\<rparr>) \<longleftrightarrow> wf_device d"
  "wf_world w \<Longrightarrow> wf_sessions (w_sessions w)" "wf_world w \<Longrightarrow> wf_device (w_dev w)"
  by (simp_all add: wf_world_def)

lemma wf_ssi_upd [wf_simps]:
  "wf_ssi (s\<lparr>ssi_valid := a\<rparr>) = wf_ssi s" "wf_ssi (s\<lparr>ssi_fp := b\<rparr>) = wf_ssi s" "wf_ssi (s\<lparr>ssi := e\<rparr>) = wf_ssi s"
  "wf_ssi (s\<lparr>ssiState := f\<rparr>) = wf_ssi s" "wf_ssi (s\<lparr>tagLength := g\<rparr>) = wf_ssi s" "wf_ssi (s\<lparr>cacheOffset := h\<rparr>) = wf_ssi s"
  "wf_ssi s \<Longrightarrow> wf_ssi (s\<lparr>lastModified := x\<rparr>) \<longleftrightarrow> length x = 64"
  "wf_ssi s \<Longrightarrow> wf_ssi (s\<lparr>tagName := x\<rparr>) \<longleftrightarrow> length x = 64"
  "wf_ssi s \<Longrightarrow> wf_ssi (s\<lparr>cache := x\<rparr>) \<longleftrightarrow> length x = 64"
  "wf_ssi s \<Longrightarrow> length (lastModified s) = 64" "wf_ssi s \<Longrightarrow> length (tagName s) = 64" "wf_ssi s \<Longrightarrow> length (cache s) = 64"
  by (simp_all add: wf_ssi_def)

lemma wf_zero [wf_simps]: "wf_ssi zeroSSI" "wf_app zeroApp" "wf_rsp zeroResponse" "wf_core (zeroContext i)"
  by (simp_all add: wf_ssi_def zeroSSI_def wf_app_def zeroApp_def MAX_APP_CONTEXT_SIZE_def wf_rsp_def zeroResponse_def
      MAX_SEND_BUF_SIZE_def TCP_MSS_def wf_core_def zeroContext_def MAX_REQ_BUF_SIZE_def wf_index_def)

lemma wf_app_cases [wf_simps]: "wf_app (AppBytes b) \<longleftrightarrow> length b = 256" "wf_app (AppSSI s) \<longleftrightarrow> wf_ssi s"
  by (simp_all add: wf_app_def)

lemma as_ssi_wf: "as_ssi a = Some s \<Longrightarrow> wf_app a \<Longrightarrow> wf_ssi s"
  by (auto simp: as_ssi_def wf_simps split: app_context.splits if_splits)

lemma as_bytes_wf: "as_bytes a = Some b \<Longrightarrow> wf_app a \<Longrightarrow> length b = 256"
  by (auto simp: as_bytes_def wf_simps split: app_context.splits)

lemma tick_stamp_wf [wf_simps]: "wf_world (snd (tick_stamp w)) = wf_world w"
  by (simp add: tick_stamp_def LWIP_GetTickCount_def split_def Let_def wf_simps)

lemma returns_bind_str: "(\<And>s. returns (f s) P) \<Longrightarrow> returns (Option.bind (c_str b i) f) P"
  by (rule returns_bind_any)

lemma returns_bind_ssi:
  "wf_app a \<Longrightarrow> (\<And>s. wf_ssi s \<Longrightarrow> returns (f s) P) \<Longrightarrow> returns (Option.bind (as_ssi a) f) P"
  using as_ssi_wf by (auto simp: returns_def bind_eq_Some_conv)

lemma returns_bind_bytes:
  "wf_app a \<Longrightarrow> (\<And>b. length b = 256 \<Longrightarrow> returns (f b) P) \<Longrightarrow> returns (Option.bind (as_bytes a) f) P"
  using as_bytes_wf by (auto simp: returns_def bind_eq_Some_conv)

lemma returns_bind_bytes_of: "(\<And>s. returns (f s) P) \<Longrightarrow> returns (Option.bind (c_bytes b i n) f) P"
  by (rule returns_bind_any)

abbreviation wf_con :: "REQUEST_CONTEXT \<Rightarrow> bool" where "wf_con c \<equiv> wf_core c \<and> wf_rsp (ctxResponse c)"

text \<open>What is kept of the result of a step, by its type.\<close>

lemmas returns_bind_typed =
  returns_bindI [where Q = "\<lambda>r :: string \<times> REQUEST_CONTEXT. wf_con (snd r)"]
  returns_bindI [where Q = "\<lambda>r :: REQUEST_CONTEXT \<times> file_system. wf_con (fst r)"]
  returns_bindI [where Q = "\<lambda>r :: SSI_Context \<times> bool. wf_ssi (fst r)"]
  returns_bindI [where Q = "\<lambda>r :: cbuf \<times> REQUEST_CONTEXT \<times> world. length (fst r) = 1600 \<and> good (fst (snd r)) (snd (snd r))"]
  returns_bindI [where Q = "\<lambda>r :: REQUEST_CONTEXT \<times> world. good (fst r) (snd r)"]
  returns_bindI [where Q = "\<lambda>r :: int \<times> REQUEST_CONTEXT \<times> world. good (fst (snd r)) (snd (snd r))"]
  returns_bindI [where Q = "\<lambda>r :: bool \<times> REQUEST_CONTEXT \<times> world. good (fst (snd r)) (snd (snd r))"]
  returns_bindI [where Q = "\<lambda>r :: int \<times> world. wf_world (snd r)"]
  returns_bindI [where Q = wf_con]
  returns_bindI [where Q = wf_device]

named_theorems good_rules \<open>operations that keep contexts and world well-formed\<close>

lemmas vcg = TrueI returns_NoneI returns_SomeI returns_length returns_ifI returns_optionI returns_prodI
  returns_bind_str returns_bind_bytes_of returns_bind_bytes returns_bind_ssi returns_bind_array returns_bind_typed returns_bind_any

lemmas clock_defs = tick_stamp_def LWIP_GetTickCount_def Let_def case_prod_conv

section \<open>Pages and forms\<close>

abbreviation good1 :: "REQUEST_CONTEXT \<times> world \<Rightarrow> bool" where "good1 r \<equiv> good (fst r) (snd r)"
abbreviation good2 :: "'a \<times> REQUEST_CONTEXT \<times> world \<Rightarrow> bool" where "good2 r \<equiv> good (fst (snd r)) (snd (snd r))"

lemma WEB_RequestReceived_good [good_rules]: "good c w \<Longrightarrow> returns (WEB_RequestReceived c w) good1"
  unfolding WEB_RequestReceived_def Let_def
  by (rule vcg | (simp add: good_def wf_simps; fail))+

lemma WEB_AppendHeaders_good [good_rules]: "good c w \<Longrightarrow> returns (WEB_AppendHeaders info c w) good1"
  unfolding WEB_AppendHeaders_def Let_def
  by (rule vcg | (simp add: good_def wf_simps; fail))+

lemma close_page_good [good_rules]: "good c w \<Longrightarrow> returns (close_page c w) good1"
  unfolding close_page_def
  by (rule vcg | (simp add: good_def wf_simps; fail))+

lemma URLDecode_length: "returns (URLDecode b) (\<lambda>r. length (snd r) = length b)"
proof -
  have "returns (URLDecode_loop b n i) (\<lambda>r. length (snd r) = length b)" for n i
  proof (induction "n - i" arbitrary: b n i rule: less_induct)
    case less
    have IH: "length (snd r) = length b'" if "URLDecode_loop b' n' (Suc i) = Some r" "n' \<le> n" "i < n" for b' n' r
      using returnsD [OF less [of n' "Suc i" b'] that(1)] that(2,3) by simp
    show ?case
      unfolding URLDecode_loop.simps [of b n i] returns_simps Let_def
      by (auto simp: returns_def dest!: IH cbuf_len)
  qed
  then show ?thesis by (simp add: URLDecode_def returns_simps)
qed

lemma DecodeB64_length: "returns (DecodeB64 b) (\<lambda>r. length (snd r) = length b)"
proof -
  have "returns (DecodeB64_loop b i k v x) (\<lambda>r. length (snd r) = length b)" for i k v x
  proof (induction "length b - i" arbitrary: b i k v x rule: less_induct)
    case less
    have IH: "length (snd r) = length b'" if "DecodeB64_loop b' (Suc i) k' v' x' = Some r" "length b' = length b" "i < length b" for b' k' v' x' r
      using returnsD [OF less [of b' "Suc i" k' v' x'] that(1)] that(2,3) by simp
    show ?case
      unfolding DecodeB64_loop.simps [of b i k v x] returns_simps Let_def
      by (auto simp: returns_def dest!: IH cbuf_len)
  qed
  then show ?thesis by (simp add: DecodeB64_def)
qed

lemma ReplaceTag_length: "returns (ReplaceTag d name b i m) (\<lambda>r. length (snd r) = length b)"
  unfolding ReplaceTag_def returns_simps Let_def
  by (auto simp: returns_def dest!: cbuf_len)

lemmas setters_wf = location.setter_wf color.setter_wf date.setter_wf font.setter_wf ip.setter_wf gateway.setter_wf
  subnet.setter_wf dhcp.setter_wf log.setter_wf session_timeout.setter_wf

lemma TAG_Setter_wf:
  assumes "wf_device d" and "NUL \<notin> set v"
  shows "returns (TAG_Setter n v d) wf_device"
proof -
  have "TAG_Setter_loop l n v d = Some d' \<Longrightarrow> set l \<subseteq> set g_Setters \<Longrightarrow> wf_device d'" for l d'
  proof (induction l)
    case (Cons x l)
    obtain k h where x: "x = (k, h)" by (cases x)
    show ?case
    proof (cases "k = n")
      case True
      with Cons.prems x have "(n, h) \<in> set g_Setters" "(case h of TAG_SETTER f \<Rightarrow> f v d | _ \<Rightarrow> Some d) = Some d'" by auto
      then show ?thesis
        using setters_wf [OF assms] assms(1) by (auto simp: g_Setters_def)
    qed (use Cons x in auto)
  qed (use assms(1) in simp)
  then show ?thesis by (auto simp: returns_def TAG_Setter_def)
qed

lemma url_decode_at_length: "i \<le> length b \<Longrightarrow> returns (url_decode_at i b) (\<lambda>r. length r = length b)"
  unfolding url_decode_at_def returns_simps
  by (auto simp: returns_def dest!: returnsD [OF URLDecode_length])

lemma set_field_wf:
  assumes "wf_device d"
  shows "returns (set_field i j b d) (\<lambda>r. length (fst r) = length b \<and> wf_device (snd r))"
proof (rule returnsI)
  fix r assume "set_field i j b d = Some r"
  then obtain b1 b2 x v d' where h: "url_decode_at i b = Some b1" "url_decode_at j b1 = Some b2"
    "c_str b2 j = Some v" "TAG_Setter x v d = Some d'" "r = (b2, d')"
    by (auto simp: set_field_def bind_eq_Some_conv)
  have le: "k \<le> length a" if "url_decode_at k a = Some a'" for k a a'
  proof -
    from that obtain s where "c_str (drop k a) 0 = Some s" by (auto simp: url_decode_at_def URLDecode_def bind_eq_Some_conv)
    from c_str_Some_bound [OF this] show ?thesis by simp
  qed
  have "length b2 = length b"
    using returnsD [OF url_decode_at_length [OF le [OF h(1)]] h(1)] returnsD [OF url_decode_at_length [OF le [OF h(2)]] h(2)] by simp
  moreover have "wf_device d'" using returnsD [OF TAG_Setter_wf [OF assms c_str_Some_no_NUL [OF h(3)]] h(4)] .
  ultimately show "length (fst r) = length b \<and> wf_device (snd r)" using h(5) by simp
qed

lemma set_field_step:
  "wf_device d \<Longrightarrow> length b = m \<Longrightarrow> (\<And>r. length (fst r) = m \<Longrightarrow> wf_device (snd r) \<Longrightarrow> returns (f r) P) \<Longrightarrow>
   returns (Option.bind (set_field i j b d) f) P"
  by (rule returns_bindI [OF set_field_wf]) auto

lemma extract_loop_wf:
  "wf_device d \<Longrightarrow> length b = m \<Longrightarrow>
   returns (extract_loop b n p ne d) (\<lambda>r. length (fst (snd (snd r))) = m \<and> wf_device (snd (snd (snd r))))"
proof (induction "n - p" arbitrary: b p ne d rule: less_induct)
  case less
  have IH: "returns (extract_loop b' n (p + k + 1) ne' d') (\<lambda>r. length (fst (snd (snd r))) = m \<and> wf_device (snd (snd (snd r))))"
    if "p < n" "wf_device d'" "length b' = m" for b' k ne' d'
    using less(1) [of "p + k + 1" d' b' ne'] that by simp
  show ?case
    unfolding extract_loop.simps [of b n p ne d] Let_def
    by (rule returns_SomeI returns_ifI returns_prodI returns_optionI returns_bind_str set_field_step IH
          returns_bind_array returns_length returns_bind_any | (use less.prems in \<open>simp; fail\<close>))+
qed

lemma extract_wf:
  assumes "wf_device d" and "length b = m"
  shows "returns (ExtractFormData b n k d) (\<lambda>r. length (fst (snd r)) = m \<and> wf_device (snd (snd r)))"
  unfolding ExtractFormData_def
  by (rule returns_bindI [OF extract_loop_wf [OF assms]] returns_SomeI returns_ifI returns_prodI returns_optionI set_field_step
        returns_bind_array returns_length | (simp; fail))+

lemma WEB_AllSent_good [good_rules]: "good c w \<Longrightarrow> returns (WEB_AllSent c w) good1"
  unfolding WEB_AllSent_def
  by (rule good_rules vcg | (simp add: good_def wf_simps; fail))+

lemma WEB_Finished_good [good_rules]: "good c w \<Longrightarrow> returns (WEB_Finished c w) good1"
  unfolding WEB_Finished_def
  by (rule good_rules vcg | (simp add: good_def wf_simps; fail))+

lemma WEB_OnFormHeaders_good: "good c w \<Longrightarrow> good (WEB_OnFormHeaders c) w"
  by (simp add: WEB_OnFormHeaders_def good_def wf_simps)

lemma Form_OnRequestReceived_good [good_rules]: "good c w \<Longrightarrow> returns (Form_OnRequestReceived c w) good1"
  unfolding Form_OnRequestReceived_def Let_def
  by (rule good_rules vcg | (simp add: good_def wf_simps wf_device_AppyConfig; fail))+

lemma Form_SetResponseHeaders_good [good_rules]: "good c w \<Longrightarrow> returns (Form_SetResponseHeaders info c w) good1"
  unfolding Form_SetResponseHeaders_def
  by (rule good_rules vcg | (simp add: good_def wf_simps; fail))+

lemma Form_AllSent_good [good_rules]: "good c w \<Longrightarrow> returns (Form_AllSent c w) good1"
  unfolding Form_AllSent_def
  by (rule good_rules vcg | (simp add: good_def wf_simps; fail))+

lemma SSDP_SendHeader_good [good_rules]: "good c w \<Longrightarrow> returns (SSDP_SendHeader info c w) good1"
  unfolding SSDP_SendHeader_def
  by (rule good_rules vcg | (simp add: good_def wf_simps; fail))+

lemma Files_OnRequestReceived_good [good_rules]: "good c w \<Longrightarrow> returns (Files_OnRequestReceived c w) good1"
  unfolding Files_OnRequestReceived_def Let_def
  by (rule good_rules vcg | (simp add: good_def wf_simps; fail))+

lemma Files_SetResponseHeader_good [good_rules]: "good c w \<Longrightarrow> returns (Files_SetResponseHeader info c w) good1"
  unfolding Files_SetResponseHeader_def
  by (rule good_rules vcg | (simp add: good_def wf_simps; fail))+

lemma Upload_Start_good [good_rules]: "good c w \<Longrightarrow> returns (Upload_Start c w) good2"
  unfolding Upload_Start_def
  by (rule good_rules vcg | (simp add: good_def wf_simps; fail))+

lemma Upload_OnHeadersReceived_good [good_rules]: "good c w \<Longrightarrow> returns (Upload_OnHeadersReceived c w) good1"
  unfolding Upload_OnHeadersReceived_def
  by (rule good_rules vcg | (simp add: good_def wf_simps; fail))+

lemma Upload_AllReceived_good [good_rules]: "good c w \<Longrightarrow> returns (Upload_AllReceived c w) good1"
  unfolding Upload_AllReceived_def
  by (rule good_rules vcg | (simp add: good_def wf_simps; fail))+

lemma Upload_Received_wf [good_rules]: "wf_world w \<Longrightarrow> returns (Upload_Received c d w) (\<lambda>r. wf_world (snd r))"
  unfolding Upload_Received_def
  by (rule good_rules vcg | (simp add: good_def wf_simps; fail))+

lemma Upload_OnContentReceived_good [good_rules]: "good c w \<Longrightarrow> returns (Upload_OnContentReceived b n c w) good2"
  unfolding Upload_OnContentReceived_def IsKilling_def clock_defs
  by (rule good_rules vcg | (simp add: good_def wf_simps; fail))+

lemma redirect_to_wf [good_rules]: "wf_con c \<Longrightarrow> returns (redirect_to p a c) wf_con"
  unfolding redirect_to_def
  by (rule good_rules vcg | (simp add: good_def wf_simps; fail))+

lemma no_handler_good [good_rules]: "good c w \<Longrightarrow> returns (no_handler c w) good1"
  unfolding no_handler_def
  by (rule good_rules vcg | (simp add: good_def wf_simps; fail))+

lemma Auth_OnPostData_wf [good_rules]: "wf_con c \<Longrightarrow> returns (Auth_OnPostData b n c) (\<lambda>r. wf_con (snd r))"
  unfolding Auth_OnPostData_def Let_def
  by (rule good_rules vcg | (simp add: good_def wf_simps; fail))+

lemma Auth_SetResponseHeaders_good [good_rules]: "good c w \<Longrightarrow> returns (Auth_SetResponseHeaders info c w) good1"
  unfolding Auth_SetResponseHeaders_def
  by (rule good_rules vcg | (simp add: good_def wf_simps; fail))+

section \<open>Blocks of pages, lists and descriptions\<close>

lemma add_tag_char_wf:
  "wf_ssi s \<Longrightarrow> returns (add_tag_char x s) (\<lambda>s'. wf_ssi s' \<and> cacheOffset s' = cacheOffset s)"
  unfolding add_tag_char_def by (rule vcg | (simp add: wf_simps; fail))+

lemma ssi_scan_wf:
  "wf_ssi s \<Longrightarrow> length sb = m \<Longrightarrow>
   returns (ssi_scan d off k s sb n c) (\<lambda>r. wf_ssi (fst r) \<and> length (fst (snd r)) = m)"
proof (induction "cacheOffset s - c" arbitrary: s sb n c rule: less_induct)
  case less
  have IH: "returns (ssi_scan d off k s' sb' n' c') (\<lambda>r. wf_ssi (fst r) \<and> length (fst (snd r)) = m)"
    if "wf_ssi s'" "length sb' = m" "cacheOffset s' = cacheOffset s" "c < cacheOffset s" "c < c'" for s' sb' n' c'
    using less(1) [of s' c' sb' n'] that by simp
  show ?case
    unfolding ssi_scan.simps [of d off k s] Let_def
    by (rule returns_bindI [OF add_tag_char_wf] returns_bindI [OF ReplaceTag_length] IH vcg
        | (use less.prems in \<open>simp add: wf_simps; fail\<close>) | (use less.prems in \<open>auto simp add: wf_simps; fail\<close>))+
qed

lemma ssi_loop_wf:
  assumes "wf_ssi s" and "length sb = m"
  shows "returns (ssi_loop d off k s sb n i tot fs) (\<lambda>r. wf_ssi (fst (snd r)) \<and> length (fst (snd (snd r))) = m)"
proof (rule returnsI)
  fix r assume h: "ssi_loop d off k s sb n i tot fs = Some r"
  have "wf_ssi s \<longrightarrow> length sb = m \<longrightarrow> wf_ssi (fst (snd r)) \<and> length (fst (snd (snd r))) = m"
    using h
  proof (rule ssi_loop.raw_induct [where P = "\<lambda>d off k s sb n i tot fs r. wf_ssi s \<longrightarrow> length sb = m \<longrightarrow>
        wf_ssi (fst (snd r)) \<and> length (fst (snd (snd r))) = m", rotated], intro impI, goal_cases)
    case (1 f d off k s sb n i tot fs r)
    have IH: "returns (f d off k s' sb' n' i' tot fs') (\<lambda>r. wf_ssi (fst (snd r)) \<and> length (fst (snd (snd r))) = m)"
      if "wf_ssi s'" "length sb' = m" for s' sb' n' i' fs'
      using 1(1) that by (intro returnsI) blast
    have pre: "wf_ssi s" "length sb = m" using 1(4,5) by simp_all
    show ?case
      by (rule returnsD [OF _ 1(2)], unfold Let_def,
          (rule returns_bindI [OF ssi_scan_wf [where m = m]] IH vcg | (use pre in \<open>simp add: wf_simps; fail\<close>))+)
  qed
  with assms show "wf_ssi (fst (snd r)) \<and> length (fst (snd (snd r))) = m" by simp
qed

lemma WEB_ReadContent_good [good_rules]: "good c w \<Longrightarrow> returns (WEB_ReadContent off k c w) good2"
  unfolding WEB_ReadContent_def Let_def
  by (rule returns_bindI [OF ssi_loop_wf [where m = 1600]] vcg | (simp add: good_def wf_simps; fail))+

lemma ssdp_stages_wf:
  "length sb = m \<Longrightarrow> returns (ssdp_stages base k xs sb off st) (\<lambda>r. length (fst (snd r)) = m)"
proof (induction xs arbitrary: sb off st)
  case (Cons x xs)
  show ?case
    unfolding ssdp_stages.simps by (rule Cons.IH vcg | (use Cons.prems in \<open>simp; fail\<close>))+
qed (simp add: returns_simps)

lemma SSDP_Sending_good [good_rules]: "good c w \<Longrightarrow> returns (SSDP_Sending base k c w) good2"
  unfolding SSDP_Sending_def Let_def
  by (rule returns_bindI [OF ssdp_stages_wf [where m = 1600]] vcg | (simp add: good_def wf_simps; fail))+

lemma put_text_wf: "length sb = m \<Longrightarrow> returns (put_text off sb n s) (\<lambda>r. length (fst r) = m)"
  unfolding put_text_def by (rule vcg | (simp; fail))+

lemma put_all_wf: "length sb = m \<Longrightarrow> returns (put_all off sb n ss) (\<lambda>r. length (fst r) = m)"
proof (induction ss arbitrary: sb n)
  case (Cons x xs)
  show ?case
    unfolding put_all.simps
    by (rule returns_bindI [OF put_text_wf [where m = m]] Cons.IH vcg | (use Cons.prems in \<open>simp; fail\<close>))+
qed (simp add: returns_simps)

lemma returns_bind_text:
  "returns m (\<lambda>r :: cbuf \<times> nat. length (fst r) = n) \<Longrightarrow> (\<And>r. length (fst r) = n \<Longrightarrow> returns (f r) P) \<Longrightarrow> returns (Option.bind m f) P"
  by (rule returns_bindI)

lemma files_loop_wf:
  assumes "length sb = m"
  shows "returns (files_loop off k path stage fp e sb n fs) (\<lambda>r. length (fst (snd (snd (snd (snd r))))) = m)"
proof (rule returnsI)
  fix r assume h: "files_loop off k path stage fp e sb n fs = Some r"
  have "length sb = m \<longrightarrow> length (fst (snd (snd (snd (snd r))))) = m"
    using h
  proof (rule files_loop.raw_induct [where P = "\<lambda>off k path stage fp e sb n fs r. length sb = m \<longrightarrow>
        length (fst (snd (snd (snd (snd r))))) = m", rotated], intro impI, goal_cases)
    case (1 f off k path stage fp e sb n fs r)
    have IH: "returns (f off k path st' fp' e' sb' n' fs') (\<lambda>r. length (fst (snd (snd (snd (snd r))))) = m)"
      if "length sb' = m" for st' fp' e' sb' n' fs'
      using 1(1) that by (intro returnsI) blast
    have pre: "length sb = m" using 1(4) by simp
    show ?case
      by (rule returnsD [OF _ 1(2)],
          (rule put_text_wf put_all_wf IH returns_bind_text [where n = m] vcg | (use pre in \<open>simp; fail\<close>))+)
  qed
  with assms show "length (fst (snd (snd (snd (snd r))))) = m" by simp
qed

lemma Files_ReadOneFileInfo_good [good_rules]: "good c w \<Longrightarrow> returns (Files_ReadOneFileInfo off k c w) good2"
  unfolding Files_ReadOneFileInfo_def Let_def
  by (rule returns_bindI [OF files_loop_wf [where m = 1600]] vcg | (simp add: good_def wf_simps; fail))+

lemma WEB_OnFormReceived_good [good_rules]: "good c w \<Longrightarrow> returns (WEB_OnFormReceived b n c w) good2"
  unfolding WEB_OnFormReceived_def IsKilling_def clock_defs
  by (rule returns_bindI [OF extract_wf [where m = 1600]] vcg | (simp add: good_def wf_simps; fail))+

section \<open>Login and upload\<close>

lemma SessionCreate_wf:
  assumes "wf_sessions ss"
  shows "returns (SessionCreate (replicate 32 NUL) ip t1 t2 ss) (\<lambda>r. wf_index (fst r) \<and> wf_sessions (snd (snd r)))"
proof (rule returnsI)
  fix r assume h: "SessionCreate (replicate 32 NUL) ip t1 t2 ss = Some r"
  obtain i b ss' where r: "r = (i, b, ss')" by (cases r)
  have "wf_sessions ss'" using wf_SessionCreate [OF _ h [unfolded r] assms] by simp
  moreover have "wf_index i"
    using h assms SessionCreate_eq [of "replicate 32 NUL"] first_free_Some [of 0 ss]
    by (auto simp: r wf_index_def wf_sessions_def split: option.splits)
  ultimately show "wf_index (fst r) \<and> wf_sessions (snd (snd r))" by (simp add: r)
qed

lemma GetSession_wf:
  assumes "wf_sessions ss"
  shows "returns (GetSession t ss) wf_index"
proof -
  have "GetSession_loop x i l = Some (Some k) \<Longrightarrow> k < i + length l" for x i l k
    by (induction l arbitrary: i) (fastforce simp: bind_eq_Some_conv split: if_splits)+
  from this [of _ 0 ss] show ?thesis
    using assms by (auto simp: returns_def GetSession_def wf_index_def wf_sessions_def split: option.splits list.splits)
qed

lemma cut_amp_wf: "length b = m \<Longrightarrow> returns (cut_amp b i) (\<lambda>b'. length b' = m)"
  unfolding cut_amp_def by (rule vcg | (simp; fail))+

lemma new_login_good [good_rules]: "good c w \<Longrightarrow> returns (new_login c w) good2"
  unfolding new_login_def Let_def
  by (rule returns_bindI [OF SessionCreate_wf] good_rules vcg | (simp add: good_def wf_simps; fail))+

lemma AuthCheck_good [good_rules]: "good c w \<Longrightarrow> returns (AuthCheck c w) good2"
  unfolding AuthCheck_def Let_def
  by (rule cut_amp_wf good_rules vcg | (simp add: good_def wf_simps; fail))+

lemma Auth_OnRequestReceived_good [good_rules]: "good c w \<Longrightarrow> returns (Auth_OnRequestReceived c w) good1"
  unfolding Auth_OnRequestReceived_def Let_def
  by (rule good_rules vcg | (simp add: good_def wf_simps wf_SessionKill; fail))+

lemma Upload_OnHeaderReceived_good [good_rules]:
  "good c w \<Longrightarrow> length line = m \<Longrightarrow>
   returns (Upload_OnHeaderReceived line c w) (\<lambda>r. length (fst (snd r)) = m \<and> good2 (snd r))"
  unfolding Upload_OnHeaderReceived_def Let_def
  by (rule returns_bindI [OF DecodeB64_length] vcg | (simp add: good_def wf_simps; fail) | (auto simp add: good_def wf_simps; fail))+

section \<open>The calls of the handlers\<close>

lemma Auth_OnHeaders_good: "good c w \<Longrightarrow> good (Auth_OnHeaders c) w"
  by (simp add: Auth_OnHeaders_def good_def wf_simps)

lemma Form_OnHeadersReceived_good: "good c w \<Longrightarrow> good1 (Form_OnHeadersReceived c w)"
  by (simp add: Form_OnHeadersReceived_def WEB_OnFormHeaders_def good_def wf_simps wf_device_LoadConfig4Edit)

lemma Auth_OnPostData_good: "good c w \<Longrightarrow> returns (map_option (\<lambda>(k, c). (k, c, w)) (Auth_OnPostData b n c)) good2"
  using Auth_OnPostData_wf [of c b n] by (auto simp: returns_def good_def)

lemma OnFinished_good:
  "Option.bind h OnFinished = Some f \<Longrightarrow> good c w \<Longrightarrow> returns (f c w) good1"
  by (cases h) (auto simp: OnFinished_def intro!: good_rules split: cgi_id.splits)

lemma OnHeaderReceived_good:
  "Option.bind h OnHeaderReceived = Some f \<Longrightarrow> good c w \<Longrightarrow> length line = m \<Longrightarrow>
   returns (f line c w) (\<lambda>r. length (fst (snd r)) = m \<and> good2 (snd r))"
  by (cases h) (auto simp: OnHeaderReceived_def intro!: Upload_OnHeaderReceived_good split: cgi_id.splits)

lemma OnHeadersReceived_good:
  "OnHeadersReceived h = Some f \<Longrightarrow> good c w \<Longrightarrow> returns (f c w) good1"
  by (auto simp: OnHeadersReceived_def returns_Some Auth_OnHeaders_good Form_OnHeadersReceived_good
      intro!: Upload_OnHeadersReceived_good split: cgi_id.splits)

lemma OnContentReceived_good:
  "Option.bind h OnContentReceived = Some f \<Longrightarrow> good c w \<Longrightarrow> returns (f b n c w) good2"
  by (cases h) (auto simp: OnContentReceived_def
      intro!: Auth_OnPostData_good WEB_OnFormReceived_good Upload_OnContentReceived_good split: cgi_id.splits)

lemma OnRequestReceived_good:
  "Option.bind h OnRequestReceived = Some f \<Longrightarrow> good c w \<Longrightarrow> returns (f c w) good1"
  by (cases h) (auto simp: OnRequestReceived_def intro!: good_rules split: cgi_id.splits)

lemma SetResponseHeaders_good:
  "Option.bind h SetResponseHeaders = Some f \<Longrightarrow> good c w \<Longrightarrow> returns (f info c w) good1"
  by (cases h) (auto simp: SetResponseHeaders_def intro!: good_rules split: cgi_id.splits)

lemma ReadContent_good:
  "Option.bind h ReadContent = Some f \<Longrightarrow> good c w \<Longrightarrow> returns (f off k c w) good2"
  by (cases h) (auto simp: ReadContent_def intro!: good_rules split: cgi_id.splits)

lemma OnAllSent_good:
  "OnAllSent h = Some f \<Longrightarrow> good c w \<Longrightarrow> returns (f c w) good1"
  by (auto simp: OnAllSent_def intro!: good_rules split: cgi_id.splits)

lemma CGI_Cancel_same [simp]: "CGI_Cancel c = c"
  by (cases "handler c") (auto simp: CGI_Cancel_def OnCancel_def Upload_OnCancel_def split: cgi_id.splits)

lemma CGI_Finish_good [good_rules]: "good c w \<Longrightarrow> returns (CGI_Finish c w) good1"
  unfolding CGI_Finish_def
  by ((rule OnFinished_good, assumption) | rule good_rules vcg | (simp add: good_def wf_simps; fail))+

lemma CGI_HeaderReceived_good [good_rules]:
  "good c w \<Longrightarrow> length line = m \<Longrightarrow>
   returns (CGI_HeaderReceived line c w) (\<lambda>r. length (fst (snd r)) = m \<and> good2 (snd r))"
  unfolding CGI_HeaderReceived_def
  by ((rule OnHeaderReceived_good, assumption) | rule good_rules vcg | (simp add: good_def wf_simps; fail))+

lemma CGI_HeadersReceived_good [good_rules]: "good c w \<Longrightarrow> returns (CGI_HeadersReceived c w) good1"
  unfolding CGI_HeadersReceived_def
  by ((rule OnHeadersReceived_good, assumption) | rule good_rules vcg | (simp add: good_def wf_simps; fail))+

lemma CGI_ContentReceived_good [good_rules]: "good c w \<Longrightarrow> returns (CGI_ContentReceived b n c w) good2"
  unfolding CGI_ContentReceived_def
  by ((rule OnContentReceived_good, assumption) | rule good_rules vcg | (simp add: good_def wf_simps; fail))+

lemma CGI_RequestReceived_good [good_rules]: "good c w \<Longrightarrow> returns (CGI_RequestReceived c w) good1"
  unfolding CGI_RequestReceived_def
  by ((rule OnRequestReceived_good, assumption) | rule good_rules vcg | (simp add: good_def wf_simps; fail))+

lemma returns_bind_clock: "(\<And>s. returns (f s) P) \<Longrightarrow> returns (Option.bind (getClock w n) f) P"
  by (rule returns_bind_any)

lemma set_headers_good [good_rules]:
  "good c w \<Longrightarrow> returns (case Option.bind (handler c) SetResponseHeaders of None \<Rightarrow> Some (c, w) | Some f \<Rightarrow> f info c w) good1"
  using SetResponseHeaders_good [of "handler c"] by (auto simp: returns_Some split: option.split)

lemma CGI_SetResponseHeaders_good [good_rules]: "good c w \<Longrightarrow> returns (CGI_SetResponseHeaders info c w) good1"
  unfolding CGI_SetResponseHeaders_def Let_def
  apply (rule returns_bind_clock set_headers_good vcg | (simp add: good_def wf_simps; fail))+
  done

lemma returns_bind_count:
  "returns m (\<lambda>r :: nat \<times> cbuf. length (snd r) = n) \<Longrightarrow> (\<And>r. length (snd r) = n \<Longrightarrow> returns (f r) P) \<Longrightarrow> returns (Option.bind m f) P"
  by (rule returns_bindI)

lemma frame_chunk_length: "length sb = m \<Longrightarrow> returns (frame_chunk off first final n sb) (\<lambda>r. length (snd r) = m)"
  unfolding frame_chunk_def Let_def by (rule returns_bind_count [where n = m] vcg | (simp; fail))+

lemma all_sent_good [good_rules]:
  "good c w \<Longrightarrow> returns (case OnAllSent h of None \<Rightarrow> Some (-1 :: int, c, w) | Some f \<Rightarrow> Option.bind (f c w) (\<lambda>(c, w). Some (-1, c, w))) good2"
  using OnAllSent_good [of h] by (fastforce simp: returns_def bind_eq_Some_conv split: option.splits)

lemma CGI_LoadContentToSend_good [good_rules]:
  assumes "good c w"
  shows "returns (CGI_LoadContentToSend caller c w) good2"
proof (cases "Option.bind (handler c) ReadContent")
  case None
  show ?thesis
    unfolding CGI_LoadContentToSend_def Let_def None option.case
    by (rule all_sent_good vcg assms | (use assms in \<open>simp; fail\<close>))+
next
  case (Some read)
  have R: "good c' w' \<Longrightarrow> returns (read off k c' w') good2" for off k c' w'
    using ReadContent_good [OF Some] .
  show ?thesis
    unfolding CGI_LoadContentToSend_def Let_def Some option.case
    apply (rule all_sent_good R frame_chunk_length [where m = 1600] returns_bind_count [where n = 1600] vcg assms
        | (use assms in \<open>simp add: good_def wf_simps; fail\<close>))+
    done
qed

end
