(* ===== verification/Invariants.thy ===== *)
theory Invariants
  imports Wellformed
begin

text \<open>
  The same for the response engine, the request engine, the callbacks of the server and the steps of the
  application: no sequence of events leaves the well-formed states.
\<close>

section \<open>Sending\<close>

lemma sendBuffered_good [good_rules]: "good c w \<Longrightarrow> returns (sendBuffered c w) good2"
proof (induction "nat (bytesLeft (ctxResponse c))" arbitrary: c w rule: less_induct)
  case less
  have IH: "returns (sendBuffered c' w') good2"
    if "good c' w'" "bytesLeft (ctxResponse c') < bytesLeft (ctxResponse c)" "0 < bytesLeft (ctxResponse c)" for c' w'
    using less(1) [of c' w'] that by simp
  show ?case
    unfolding sendBuffered.simps [of c w] altcp_sndbuf_def altcp_write_def clock_defs
    by (rule IH vcg | (use less.prems in \<open>auto simp: good_def wf_simps split: if_splits dest!: cbuf_len; fail\<close>))+
qed

lemma send_header_good [good_rules]: "good c w \<Longrightarrow> returns (send_header c w) good2"
  unfolding send_header_def clock_defs
  by (rule good_rules vcg | (simp add: good_def wf_simps; fail))+

lemma send_body_good [good_rules]: "good c w \<Longrightarrow> returns (send_body caller c w) good1"
  unfolding send_body_def
  by (rule good_rules vcg | (simp add: good_def wf_simps; fail))+

lemma HttpResponseProc_good [good_rules]: "good c w \<Longrightarrow> returns (HttpResponseProc caller c w) good1"
  unfolding HttpResponseProc_def altcp_sndbuf_def Let_def
  by (rule good_rules vcg | (simp add: good_def wf_simps; fail) | (auto simp: good_def wf_simps split: if_splits; fail))+

section \<open>Connections\<close>

lemma clear_texts_wf [wf_simps]: "wf_core (clear_texts c) = wf_core c" "ctxResponse (clear_texts c) = ctxResponse c"
  by (simp_all add: clear_texts_def wf_core_def)

lemma close_file_good [good_rules]: "good c w \<Longrightarrow> returns (close_file c w) good1"
  unfolding close_file_def
  by (rule good_rules vcg | (simp add: good_def wf_simps; fail))+

lemma ResetHttpContext_good [good_rules]: "good c w \<Longrightarrow> returns (ResetHttpContext c w) good1"
  unfolding ResetHttpContext_def clock_defs
  by (rule good_rules vcg | (simp add: good_def wf_simps; fail))+

lemma FreeHttpContext_good [good_rules]: "good c w \<Longrightarrow> returns (FreeHttpContext c w) good1"
  unfolding FreeHttpContext_def Let_def
  by (rule good_rules vcg | (simp add: good_def wf_simps; fail))+

lemma CloseHttpContext_good [good_rules]: "good c w \<Longrightarrow> returns (CloseHttpContext c w) good1"
  unfolding CloseHttpContext_def altcp_close_def Let_def
  by (rule good_rules vcg | (simp add: good_def wf_simps; fail))+

section \<open>Receiving\<close>

lemma put_received_wf [good_rules]: "wf_con c \<Longrightarrow> returns (put_received d c) wf_con"
  unfolding put_received_def Let_def
  by (rule good_rules vcg | (simp add: good_def wf_simps; fail))+

lemma shift_out_wf [good_rules]: "wf_con c \<Longrightarrow> returns (shift_out n c) wf_con"
  unfolding shift_out_def Let_def
  by (rule good_rules vcg | (simp add: good_def wf_simps; fail))+

lemma dequeue_good [good_rules]: "good c w \<Longrightarrow> returns (dequeue c w) good1"
  unfolding dequeue_def Let_def
  by (rule good_rules vcg | (simp add: good_def wf_simps; fail))+

lemma query_loop_wf: "length e = m \<Longrightarrow> returns (query_loop p i dot q n e) (\<lambda>r. length (snd r) = m)"
proof (induction p arbitrary: i dot q n e)
  case (Cons x p)
  show ?case
    unfolding query_loop.simps by (rule Cons.IH vcg | (use Cons.prems in \<open>simp; fail\<close>))+
qed (simp add: returns_simps)

lemma ParseQueryString_wf [good_rules]: "wf_con c \<Longrightarrow> returns (ParseQueryString c) wf_con"
  unfolding ParseQueryString_def Let_def
  by (rule returns_bindI [OF query_loop_wf [where m = 8]] good_rules vcg | (simp add: good_def wf_simps; fail))+

lemma CGI_SetCgiHandler_wf [good_rules]: "wf_con c \<Longrightarrow> returns (CGI_SetCgiHandler l c) wf_con"
  by (auto simp: CGI_SetCgiHandler_def returns_def bind_eq_Some_conv wf_simps split: option.splits)

lemma request_line_wf [good_rules]: "wf_con c \<Longrightarrow> returns (request_line pos i c w) (\<lambda>r. wf_con (snd r))"
  unfolding request_line_def Let_def
  by (rule returns_bindI [OF URLDecode_length] good_rules vcg | (simp add: wf_simps; fail))+

lemma returns_bind_str_bound:
  "(\<And>s. i + length s < length b \<Longrightarrow> returns (f s) P) \<Longrightarrow> returns (Option.bind (c_str b i) f) P"
  using c_str_Some_bound by (auto simp: returns_def bind_eq_Some_conv)

lemma header_line_good [good_rules]: "good c w \<Longrightarrow> returns (header_line pos i c w) good1"
  unfolding header_line_def Let_def
  by (rule returns_bind_str_bound returns_bindI [OF CGI_HeaderReceived_good [where m = "804 - pos"]] vcg
      | (simp add: good_def wf_simps; fail))+

lemma empty_line_wf [good_rules]: "wf_con c \<Longrightarrow> returns (empty_line c) wf_con"
  unfolding empty_line_def
  by (rule good_rules vcg | (simp add: good_def wf_simps; fail))+

lemma header_lines_good [good_rules]:
  "good c w \<Longrightarrow> returns (header_lines i pos n c w) (\<lambda>r. good2 (snd r))"
proof (induction "n - i" arbitrary: i pos c w rule: less_induct)
  case less
  have IH: "returns (header_lines (i + 1) p n c' w') (\<lambda>r. good2 (snd r))" if "good c' w'" "i + 1 < n" for p c' w'
    using less(1) [of "i + 1" c' w' p] that by simp
  show ?case
    unfolding header_lines.simps [of i pos n c w] Let_def
    by (rule IH returns_bindI [OF request_line_wf] good_rules vcg | (use less.prems in \<open>simp add: good_def wf_simps; fail\<close>)
        | assumption)+
qed

lemma parse_header_good [good_rules]: "good c w \<Longrightarrow> returns (parse_header sz c w) (\<lambda>r. good2 (snd r))"
  unfolding parse_header_def
  by (rule returns_bindI [OF header_lines_good] good_rules vcg | (simp add: good_def wf_simps; fail))+

lemma body_done_good: "good c w \<Longrightarrow> good1 (body_done c w)"
  by (simp add: body_done_def clock_defs good_def wf_simps)

lemma start_request_good: "good c w \<Longrightarrow> good1 (start_request c w)"
  by (simp add: start_request_def clock_defs good_def wf_simps)

lemma content_done_good: "good c w \<Longrightarrow> good1 (content_done c w)"
  using body_done_good [of c w] by (auto simp: content_done_def Let_def split_def good_def wf_simps)

lemma returns_bind_session:
  "wf_sessions ss \<Longrightarrow> (\<And>s. wf_index s \<Longrightarrow> returns (f s) P) \<Longrightarrow> returns (Option.bind (GetSession t ss) f) P"
  by (rule returns_bindI [OF GetSession_wf])

lemma returns_pair_good:
  "good1 x \<Longrightarrow> (\<And>c w. x = (c, w) \<Longrightarrow> good c w \<Longrightarrow> returns (f c w) P) \<Longrightarrow> returns (case x of (c, w) \<Rightarrow> f c w) P"
  by (cases x) simp

lemma after_header_good [good_rules]: "good c w \<Longrightarrow> returns (after_header c w) good1"
  unfolding after_header_def Let_def
  by (rule returns_bind_session returns_pair_good good_rules vcg
      | (simp add: good_def wf_simps; fail) | (simp add: body_done_def clock_defs good_def wf_simps; fail))+

lemma chunk_length_wf [good_rules]: "wf_con c \<Longrightarrow> returns (chunk_length sz c) wf_con"
  unfolding chunk_length_def
  by (rule good_rules vcg | (simp add: good_def wf_simps; fail))+

lemma finish_request_good [good_rules]: "good c w \<Longrightarrow> returns (finish_request c w) good2"
  unfolding finish_request_def
  by (rule good_rules vcg | (simp add: good_def wf_simps; fail))+

lemma receive_body_good [good_rules]: "good c w \<Longrightarrow> returns (receive_body sz c w) good2"
  unfolding receive_body_def Let_def
  by (rule returns_pair_good content_done_good good_rules vcg | assumption
      | (simp add: good_def wf_simps; fail))+

lemma request_round_good [good_rules]: "good c w \<Longrightarrow> returns (request_round c w) good2"
  unfolding request_round_def Let_def
  by (rule returns_bindI [OF parse_header_good] returns_pair_good start_request_good good_rules vcg | assumption
      | (simp add: good_def wf_simps; fail))+

lemma returns_bind_flow:
  "returns m (\<lambda>r :: flow \<times> REQUEST_CONTEXT \<times> world. good2 r) \<Longrightarrow> (\<And>r. good2 r \<Longrightarrow> returns (f r) P) \<Longrightarrow>
   returns (Option.bind m f) P"
  by (rule returns_bindI)

lemma request_loop_good [good_rules]:
  assumes "good c w"
  shows "returns (request_loop c w) good2"
proof (rule returnsI)
  fix r assume h: "request_loop c w = Some r"
  have "good c w \<longrightarrow> good2 r"
    using h
  proof (rule request_loop.raw_induct [where P = "\<lambda>c w r. good c w \<longrightarrow> good2 r", rotated], intro impI, goal_cases)
    case (1 f c w r)
    have IH: "returns (f c' w') good2" if "good c' w'" for c' w'
      using 1(1) that by (intro returnsI) blast
    have pre: "good c w" using 1(4) .
    show ?case
      by (rule returnsD [OF _ 1(2)],
          (rule returns_bind_flow request_round_good IH vcg | assumption | (use pre in \<open>simp; fail\<close>))+)
  qed
  with assms show "good2 r" by simp
qed

lemma HttpRequestProc_good [good_rules]: "good c w \<Longrightarrow> returns (HttpRequestProc caller c w) good1"
  unfolding HttpRequestProc_def
  by (rule returns_bind_flow good_rules vcg | assumption | (simp add: good_def wf_simps; fail))+

section \<open>Events\<close>

lemma handle_errors_good [good_rules]: "good c w \<Longrightarrow> returns (handle_errors limit c w) good2"
  unfolding handle_errors_def Let_def
  by (rule good_rules vcg | (simp add: good_def wf_simps; fail))+

lemma accept_data_good [good_rules]: "good c w \<Longrightarrow> returns (accept_data p c w) good1"
  unfolding accept_data_def Let_def
  by (rule good_rules vcg | (simp add: good_def wf_simps; fail))+

lemma session_stamp_good:
  assumes "good c w" and "f = SessionReceived \<or> f = SessionSent"
  shows "good c (session_stamp f c w)"
proof -
  have "wf_sessions (f (Some k) t (w_sessions w))" if "session c = Some k" for k t
    using assms that wf_SessionReceived [of "w_sessions w" "Some k" t] wf_SessionSent [of "w_sessions w" "Some k" t]
    by (auto simp: good_def wf_core_def wf_index_def wf_world_def)
  then show ?thesis
    using assms(1)
    by (auto simp: session_stamp_def good_def LWIP_GetTickCount_def wf_simps split: option.split)
qed

lemma receive_event_good [good_rules]: "good c w \<Longrightarrow> returns (receive_event p c w) good1"
  unfolding receive_event_def clock_defs
  by (rule good_rules vcg | (simp add: good_def wf_simps; fail) | (simp add: session_stamp_good; fail))+

lemma poll_event_good [good_rules]: "good c w \<Longrightarrow> returns (poll_event c w) good1"
  unfolding poll_event_def IsContextTimeout_def clock_defs
  by (rule good_rules vcg | (simp add: good_def wf_simps; fail))+

lemma sent_event_good [good_rules]: "good c w \<Longrightarrow> returns (sent_event n c w) good1"
  unfolding sent_event_def Let_def
  by (rule good_rules vcg | (simp add: good_def wf_simps; fail)
      | (use session_stamp_good [of c w SessionSent] in \<open>simp add: good_def wf_simps; fail\<close>))+

text \<open>The server: the declared number of contexts, each of them well-formed.\<close>

definition wf_contexts :: "REQUEST_CONTEXT list \<Rightarrow> world \<Rightarrow> bool" where
  "wf_contexts cs w \<longleftrightarrow> length cs = MAX_CONNECTIONS \<and> (\<forall>c \<in> set cs. wf_con c) \<and> wf_world w"

definition wf_server :: "server \<Rightarrow> bool" where
  "wf_server s \<longleftrightarrow> wf_contexts (g_httpContext s) (sv_world s)"

lemma wf_contexts_update: "wf_contexts cs w \<Longrightarrow> good c w' \<Longrightarrow> wf_contexts (cs[i := c]) w'"
  using set_update_subset_insert [of cs i c] by (auto simp: wf_contexts_def good_def)

lemma wf_contexts_nth: "wf_contexts cs w \<Longrightarrow> i < length cs \<Longrightarrow> good (cs ! i) w"
  by (simp add: wf_contexts_def good_def)

lemma wf_server_world: "wf_server s \<Longrightarrow> wf_world w \<Longrightarrow> wf_server (s\<lparr>sv_world := w\<rparr>)"
  by (simp add: wf_server_def wf_contexts_def)

lemma wf_server_sv: "wf_server s \<Longrightarrow> wf_world (sv_world s)"
  by (simp add: wf_server_def wf_contexts_def)

lemma on_context_wf:
  assumes "wf_server s" and "\<And>c w. good c w \<Longrightarrow> returns (f c w) good1"
  shows "returns (on_context i f s) wf_server"
proof (rule returnsI)
  fix s' assume h: "on_context i f s = Some s'"
  then obtain c w where i: "i < length (g_httpContext s)" and f: "f (g_httpContext s ! i) (sv_world s) = Some (c, w)"
    and s': "s' = s\<lparr>g_httpContext := (g_httpContext s)[i := c], sv_world := w\<rparr>"
    by (auto simp: on_context_def bind_eq_Some_conv split: if_splits)
  have s: "wf_contexts (g_httpContext s) (sv_world s)" using assms(1) by (simp add: wf_server_def)
  from returnsD [OF assms(2) [OF wf_contexts_nth [OF s i]] f] have "good c w" by simp
  from wf_contexts_update [OF s this] show "wf_server s'" by (simp add: s' wf_server_def)
qed

lemma close_or_abort_wf: "wf_world w \<Longrightarrow> wf_world (snd (close_or_abort p w))"
  by (simp add: close_or_abort_def altcp_close_def Let_def wf_simps)

lemma find_context_less: "find_context 0 cs = Some i \<Longrightarrow> i < length cs"
  using find_context_Some [of 0 cs i] by simp

lemma OnHttpAccept_wf:
  assumes "wf_server s"
  shows "returns (OnHttpAccept p ok ip rp lp tls s) (\<lambda>r. wf_server (snd r))"
proof (rule returnsI)
  fix r assume h: "OnHttpAccept p ok ip rp lp tls s = Some r"
  have s: "wf_contexts (g_httpContext s) (sv_world s)" using assms by (simp add: wf_server_def)
  show "wf_server (snd r)"
  proof (cases "find_context 0 (g_httpContext s)")
    case None
    then show ?thesis
      using h s close_or_abort_wf [OF wf_server_sv [OF assms], of "the p"]
      by (auto simp: OnHttpAccept_def GetHttpContext_def split_def Let_def wf_server_def wf_contexts_def split: option.splits if_splits)
  next
    case (Some i)
    define c where "c = (g_httpContext s ! i)\<lparr>reqBufList := None, bufOffset := 0, peer_closing := 0\<rparr>"
    have i: "i < length (g_httpContext s)" using find_context_less [OF Some] .
    have g: "good c (sv_world s)" using wf_contexts_nth [OF s i] by (simp add: c_def good_def wf_simps)
    show ?thesis
    proof (cases "p \<noteq> None \<and> ok")
      case True
      with h Some obtain c' w' where r: "ResetHttpContext c (sv_world s) = Some (c', w')"
        and s': "snd r = s\<lparr>g_httpContext := (g_httpContext s)[i := c'\<lparr>pcb := p, https := (if tls then 1 else 0),
                        ipRemote := ip, portRemote := rp, portLocal := lp\<rparr>], sv_world := w'\<rparr>"
        using i by (auto simp: OnHttpAccept_def GetHttpContext_def bind_eq_Some_conv c_def)
      from returnsD [OF ResetHttpContext_good [OF g] r] have "good c' w'" by simp
      then have "good (c'\<lparr>pcb := p, https := (if tls then 1 else 0), ipRemote := ip, portRemote := rp, portLocal := lp\<rparr>) w'"
        by (simp add: good_def wf_simps)
      from wf_contexts_update [OF s this] show ?thesis by (simp add: s' wf_server_def)
    qed (use h assms in \<open>auto simp: OnHttpAccept_def split: option.splits\<close>)
  qed
qed

lemma OnHttpReceive_wf: "wf_server s \<Longrightarrow> returns (OnHttpReceive arg p s) wf_server"
  by (cases arg) (auto simp: OnHttpReceive_def returns_Some wf_simps split: option.split
      intro!: on_context_wf receive_event_good wf_server_world wf_server_sv)

lemma OnHttpPoll_wf: "wf_server s \<Longrightarrow> returns (OnHttpPoll arg p s) (\<lambda>r. wf_server (snd r))"
  by (cases arg) (auto simp: OnHttpPoll_def returns_simps orphan_event_def split_def Let_def
      intro!: on_context_wf poll_event_good wf_server_world close_or_abort_wf wf_server_sv)

lemma OnHttpSent_wf: "wf_server s \<Longrightarrow> returns (OnHttpSent arg p n s) (\<lambda>r. wf_server (snd r))"
  by (cases arg) (auto simp: OnHttpSent_def returns_simps orphan_event_def split_def Let_def
      intro!: on_context_wf sent_event_good wf_server_world close_or_abort_wf wf_server_sv)

lemma OnHttpError_wf: "wf_server s \<Longrightarrow> returns (OnHttpError arg s) wf_server"
  by (cases arg) (auto simp: OnHttpError_def returns_simps intro!: on_context_wf FreeHttpContext_good)

lemma free_all_wf:
  "\<forall>c \<in> set cs. wf_con c \<Longrightarrow> wf_world w \<Longrightarrow>
   returns (free_all cs w) (\<lambda>r. length (fst r) = length cs \<and> (\<forall>c \<in> set (fst r). wf_con c) \<and> wf_world (snd r))"
proof (induction cs arbitrary: w)
  case (Cons c cs)
  have g: "good c w" using Cons.prems by (simp add: good_def)
  show ?case
    unfolding free_all.simps
  proof (rule returns_bindI [OF FreeHttpContext_good [OF g]], rule returns_prodI)
    fix r c' w' assume "good1 r" "r = (c', w')"
    then have g': "wf_con c'" "wf_world w'" by (simp_all add: good_def)
    show "returns (Option.bind (free_all cs w') (\<lambda>(cs, w). Some (c' # cs, w)))
       (\<lambda>r. length (fst r) = length (c # cs) \<and> (\<forall>c \<in> set (fst r). wf_con c) \<and> wf_world (snd r))"
      by (rule returns_bindI [OF Cons.IH [OF _ g'(2)]]) (use Cons.prems g' in \<open>auto simp: returns_simps\<close>)
  qed
qed (simp add: returns_simps)

lemma HttpdStop_wf: "wf_server s \<Longrightarrow> returns (HttpdStop p s) wf_server"
  unfolding HttpdStop_def Let_def
  by (rule returns_bindI [OF free_all_wf])
    (auto simp: wf_server_def wf_contexts_def returns_simps altcp_close_def Let_def wf_simps)

section \<open>The application\<close>

lemma link_device_wf:
  assumes "wf_device (lk_dev l)"
  shows "wf_device (lk_dev (LwipLinkUp ok l))" "wf_device (lk_dev (LwipLinkDown l))" "wf_device (lk_dev (dhcp_bind a m g l))"
  using assms by (simp_all add: LwipLinkUp_def LwipLinkDown_def dhcp_bind_def OnDhcpFinished_def Let_def wf_device_defs
      SetMyIPLong_def SetGatewayLong_def SetSubnetLong_def)

lemma on_link_wf:
  assumes "wf_server (ap_server a)" and "\<And>l. wf_device (lk_dev l) \<Longrightarrow> wf_device (lk_dev (f l))"
  shows "wf_server (ap_server (on_link f a))"
  using assms(1) assms(2) [of "\<lparr>main_netif = ap_netif a, lk_dev = ap_dev a\<rparr>"]
  by (auto simp: on_link_def Let_def ap_dev_def wf_server_def wf_contexts_def wf_simps)

lemma run_event_wf: "wf_server (ap_server a) \<Longrightarrow> returns (run_event e a) (\<lambda>b. wf_server (ap_server b))"
  by (cases e) (auto simp: returns_simps set_server_def intro!: OnHttpAccept_wf OnHttpReceive_wf OnHttpPoll_wf OnHttpSent_wf
      OnHttpError_wf on_link_wf link_device_wf)

lemma run_events_wf: "wf_server (ap_server a) \<Longrightarrow> returns (run_events es a) (\<lambda>b. wf_server (ap_server b))"
proof (induction es arbitrary: a)
  case (Cons e es)
  show ?case
    unfolding run_events.simps by (rule returns_bindI [OF run_event_wf [OF Cons.prems]]) (rule Cons.IH)
qed (simp add: returns_simps)

lemma upd_sessions_wf:
  "wf_server (ap_server a) \<Longrightarrow> (\<And>ss. wf_sessions ss \<Longrightarrow> wf_sessions (f ss)) \<Longrightarrow> wf_server (ap_server (upd_sessions f a))"
  by (simp add: upd_sessions_def wf_server_def wf_contexts_def wf_simps)

lemma wf_SessionClearAll: "wf_sessions (SessionClearAll ss)"
  by (simp add: SessionClearAll_def wf_sessions_def)

lemma app_round_wf: "wf_server (ap_server a) \<Longrightarrow> returns (app_round busy t es a) (\<lambda>b. wf_server (ap_server b))"
  unfolding app_round_def
  by (rule returns_bindI [OF run_events_wf]) (auto simp: returns_simps intro!: upd_sessions_wf wf_SessionCheck)

lemma zeroContext_response: "ctxResponse (zeroContext i) = zeroResponse"
  by (simp add: zeroContext_def)

lemma SetupHttpContext_wf: "wf_device (w_dev w) \<Longrightarrow> returns (SetupHttpContext w) wf_server"
  by (auto simp: SetupHttpContext_def CGI_SetupMapping_routes returns_simps wf_server_def wf_contexts_def wf_world_def
      wf_SetupSession wf_zero zeroContext_response)

lemma app_boot_wf: "returns (app_boot ok a) (\<lambda>b. wf_server (ap_server b))"
  unfolding app_boot_def Let_def
  by (rule returns_bindI [OF SetupHttpContext_wf])
    (auto simp: returns_simps wf_device_InitDevInfo intro!: on_link_wf link_device_wf)

lemma start_services_wf: "wf_server (ap_server a) \<Longrightarrow> wf_server (ap_server (start_services u l m a))"
  by (auto simp: start_services_def HttpdInit_def Let_def wf_server_def wf_contexts_def wf_simps)

lemma stop_services_wf: "wf_server (ap_server a) \<Longrightarrow> returns (stop_services alloc a) (\<lambda>b. wf_server (ap_server b))"
  unfolding stop_services_def
  by (rule returns_bindI [where Q = wf_server]
      | (simp add: stop_listener_def returns_Some HttpdStop_wf split: option.split; fail)
      | rule returns_bind_any | (simp add: returns_Some; fail))+

lemma app_run_wf: "app_run a b \<Longrightarrow> pc a = Boot \<Longrightarrow> pc b = Boot \<or> wf_server (ap_server b)"
proof (induction rule: app_run.induct)
  case (onward a b c)
  note ih = onward.IH [OF onward.prems]
  from onward.hyps(2) show ?case
  proof (cases rule: app_step.cases)
    case (boot dhcp_ok b')
    then show ?thesis using returnsD [OF app_boot_wf] by simp
  next
    case (wait busy tick es)
    then show ?thesis using ih returnsD [OF app_round_wf] by auto
  next
    case (serve busy tick es)
    then show ?thesis using ih returnsD [OF app_round_wf] by auto
  next
    case (stop alloc b')
    then show ?thesis using ih returnsD [OF stop_services_wf] by auto
  qed (use ih in \<open>auto intro!: upd_sessions_wf on_link_wf link_device_wf start_services_wf wf_SessionClearAll\<close>)
qed simp

text \<open>
  C10. Everything keeps its shape: whatever events the stack delivers, in whatever order, every reachable state of
  the application has its four connection contexts, every array of every context has its declared size, the
  session of a context is a slot of the session table, the session table is well-formed and so are the settings
  of the device.
\<close>

theorem app_well_formed:
  assumes "app_run a b" and "pc a = Boot" and "pc b \<noteq> Boot"
  shows "wf_server (ap_server b)"
  using app_run_wf [OF assms(1,2)] assms(3) by simp

theorem app_well_formed_witness: "\<exists>b. app_run demo_app b \<and> pc b = Stopped \<and> wf_server (ap_server b)"
proof -
  obtain b where b: "app_run demo_app b" "pc b = Stopped" using demo_run by blast
  have "pc demo_app = Boot" "pc b \<noteq> Boot" using b by (simp_all add: demo_app_def)
  from app_well_formed [OF b(1) this] b show ?thesis by blast
qed

end
