(* ===== verification/Image.thy ===== *)
theory Image
  imports FileSystem "HOL-Library.Multiset"
begin

text \<open>
  \<^verbatim>\<open>straight-buildfs.cpp\<close>, the tool that packs a web root into one array, and the loops of
  \<^verbatim>\<open>httpd/http_fs.c\<close> that read this array, both on the level of bytes: headers of 32 bytes, paths and
  contents padded to multiples of four, chained by offsets. The theory of the file access keeps the image as a
  list of files; here it is shown that the bytes the tool writes are read as such a list.
\<close>

unbundle bit_operations_syntax

section \<open>Words in bytes\<close>

text \<open>The memory of the target is little-endian.\<close>

fun le_encode :: "nat \<Rightarrow> nat \<Rightarrow> char list" where
  "le_encode 0 x = []"
| "le_encode (Suc n) x = char_of (x mod 256) # le_encode n (x div 256)"

fun le_decode :: "char list \<Rightarrow> nat" where
  "le_decode [] = 0"
| "le_decode (c # cs) = of_char c + 256 * le_decode cs"

definition put_u32 :: "u32 \<Rightarrow> char list" where "put_u32 x = le_encode 4 (unat x)"
definition put_u64 :: "u64 \<Rightarrow> char list" where "put_u64 x = le_encode 8 (unat x)"
definition get_u32 :: "char list \<Rightarrow> u32" where "get_u32 b = of_nat (le_decode (take 4 b))"
definition get_u64 :: "char list \<Rightarrow> u64" where "get_u64 b = of_nat (le_decode (take 8 b))"

text \<open>The header of a file in the image, 32 bytes.\<close>

record http_file_info =
  nIndex :: u32
  nSize :: u32
  tLastModified :: u64
  nAttributes :: u32
  nReserved :: u32
  nOffsetFileData :: u32
  nOffsetNextFile :: u32

definition zeroInfo :: http_file_info where
  "zeroInfo = \<lparr>nIndex = 0, nSize = 0, tLastModified = 0, nAttributes = 0, nReserved = 0,
     nOffsetFileData = 0, nOffsetNextFile = 0\<rparr>"

definition info_bytes :: "http_file_info \<Rightarrow> char list" where
  "info_bytes i = put_u32 (nIndex i) @ put_u32 (nSize i) @ put_u64 (tLastModified i) @ put_u32 (nAttributes i) @
     put_u32 (nReserved i) @ put_u32 (nOffsetFileData i) @ put_u32 (nOffsetNextFile i)"

definition info_at :: "char list \<Rightarrow> nat \<Rightarrow> http_file_info option" where
  "info_at img off =
     do { b \<leftarrow> c_bytes img off 32;
          Some \<lparr>nIndex = get_u32 b, nSize = get_u32 (drop 4 b), tLastModified = get_u64 (drop 8 b),
            nAttributes = get_u32 (drop 16 b), nReserved = get_u32 (drop 20 b),
            nOffsetFileData = get_u32 (drop 24 b), nOffsetNextFile = get_u32 (drop 28 b)\<rparr> }"

section \<open>Reading the image\<close>

text \<open>
  The loops of \<open>WEB_fs_init\<close>, \<open>WEB_fopen\<close> and \<open>WEB_ftime\<close> over the array \<open>g_szWebRoot\<close>, from the header at
  \<open>off\<close> on: the number of files, and the position of the header of a file.
\<close>

partial_function (option) count_files :: "char list \<Rightarrow> nat \<Rightarrow> nat \<Rightarrow> nat option" where
  "count_files img off nCount =
     do { i \<leftarrow> info_at img off;
          if tLastModified i = 0 then Some nCount
          else do { s \<leftarrow> c_str img (off + 32);
                    count_files img (unat (nOffsetNextFile i)) (nCount + 1) } }"

partial_function (option) find_file :: "char list \<Rightarrow> string \<Rightarrow> nat \<Rightarrow> nat option option" where
  "find_file img szFile off =
     do { i \<leftarrow> info_at img off;
          if tLastModified i = 0 then Some None
          else do { s \<leftarrow> c_str img (off + 32);
                    if szFile = s then Some (Some off)
                    else find_file img szFile (unat (nOffsetNextFile i)) } }"

text \<open>
  The copy of \<open>WEB_fread\<close> for the header at \<open>off\<close> and the read position \<open>lReadPos\<close>: the difference is
  32 bits wide and read as a signed number. A header without an offset stands for a generated test file.
\<close>

definition read_file :: "char list \<Rightarrow> nat \<Rightarrow> u32 \<Rightarrow> nat \<Rightarrow> char list option" where
  "read_file img off lReadPos cnt =
     do { i \<leftarrow> info_at img off;
          let nCount = sint (nSize i - lReadPos);
          let nCount = (if nCount > int cnt then int cnt else nCount);
          if nCount < 0 then None
          else if nOffsetFileData i = 0 then Some (replicate (nat nCount) CHR ''A'')
          else c_bytes img (unat (nOffsetFileData i) + unat lReadPos) (nat nCount) }"

section \<open>Building the image\<close>

text \<open>\<open>CString::Trim\<close> and \<open>Replace\<close>, and the final slash.\<close>

definition trim_folder :: "string \<Rightarrow> string" where
  "trim_folder arg =
     (let s = map (\<lambda>c. if c = CHR 0x5C then CHR ''/'' else c) (rev (dropWhile is_space (rev (dropWhile is_space arg))))
      in if s \<noteq> [] \<and> last s = CHR ''/'' then s else s @ ''/'')"

definition MAX_PATH :: nat where "MAX_PATH = 260"

definition str_right :: "nat \<Rightarrow> string \<Rightarrow> string" where
  "str_right n s = drop (length s - n) s"

definition stricmp_eq :: "string \<Rightarrow> string \<Rightarrow> bool" where
  "stricmp_eq s t \<longleftrightarrow> map ToUpper s = map ToUpper t"

text \<open>The map from the lengths of the names to the names, in the order of the lengths.\<close>

type_synonym by_length = "(nat \<times> string list) list"

fun add_file :: "string \<Rightarrow> by_length \<Rightarrow> by_length" where
  "add_file p [] = [(length p, [p])]"
| "add_file p ((n, ps) # m) =
     (if length p = n then (n, ps @ [p]) # m
      else if length p < n then (length p, [p]) # (n, ps) # m
      else (n, ps) # add_file p m)"

text \<open>One entry of a folder: a sub-folder is queued, a file recorded by its path below the root.\<close>

definition scan_entry :: "nat \<Rightarrow> string \<Rightarrow> dir_entry \<Rightarrow> string list \<times> by_length \<Rightarrow> string list \<times> by_length" where
  "scan_entry rootLen folder e st = (case st of (folderList, files) \<Rightarrow>
     let name = take (MAX_PATH - 1) (de_name e)
     in if name = ''.'' \<or> name = ''..'' then st
        else if de_folder e then
          (let sub = folder @ name @ ''/''
           in if str_right 11 sub \<noteq> ''/app/cache/'' then (folderList @ [sub], files) else st)
        else (let filePath = drop rootLen folder @ name
              in if \<not> stricmp_eq (str_right 4 filePath) ''.bak'' then (folderList, add_file filePath files) else st))"

text \<open>
  The loop over the queued folders. \<open>list\<close> gives the entries that a filter matches, as the host finds them;
  a tree of folders without end makes the loop endless.
\<close>

partial_function (option) scan_folders ::
  "(string \<Rightarrow> dir_entry list) \<Rightarrow> nat \<Rightarrow> string list \<Rightarrow> by_length \<Rightarrow> by_length option" where
  "scan_folders list rootLen folderList files = (case folderList of
       [] \<Rightarrow> Some files
     | folder # rest \<Rightarrow>
         (case fold (scan_entry rootLen folder) (list (folder @ ''*.*'')) (rest, files) of
            (folderList, files) \<Rightarrow> scan_folders list rootLen folderList files))"

text \<open>What is written so far: the file \<open>fs.bin\<close>, \<open>nFileIndex\<close> and \<open>nOffsetWrite\<close>.\<close>

record builder =
  fBin :: "char list"
  nFileIndex :: nat
  nOffsetWrite :: u32

function copy_file :: "char list \<Rightarrow> char list \<Rightarrow> char list" where
  "copy_file d out = (let b = take 8192 d in if b = [] then out else copy_file (drop 8192 d) (out @ b))"
  by pat_completeness auto
termination by (relation "measure (\<lambda>(d, out). length d)") auto

declare copy_file.simps [simp del]

text \<open>
  One file: its header, its path and its bytes, the latter two padded to multiples of four. The path is built
  in an array of \<open>MAX_PATH\<close> bytes. Adding the size of the header to the signed offset must not overflow.
\<close>

definition align4 :: "u32 \<Rightarrow> u32" where "align4 x = (x + 3) AND 0xFFFFFFFC"

definition write_file :: "string \<Rightarrow> disk_file \<Rightarrow> builder \<Rightarrow> builder option" where
  "write_file name f s =
     do { path \<leftarrow> c_strcpy (replicate MAX_PATH NUL) 0 name;
          let nPathLen4 = align4 (of_nat (length name) + 1);
          let nIndexSize = 32 + nPathLen4;
          if 2 ^ 31 \<le> sint (nOffsetWrite s) + sint nIndexSize then None
          else do {
            let nSize' = of_nat (length (file_data f));
            let data = nOffsetWrite s + nIndexSize;
            let next = data + align4 nSize';
            let nPadding = align4 nSize' - nSize';
            let info = zeroInfo\<lparr>tLastModified := of_nat (file_time f), nSize := nSize',
                  nIndex := of_nat (nFileIndex s), nOffsetFileData := data, nOffsetNextFile := next\<rparr>;
            p \<leftarrow> c_bytes path 0 (unat nPathLen4);
            Some \<lparr>fBin = copy_file (file_data f) (fBin s @ info_bytes info @ p) @ replicate (unat nPadding) NUL,
                  nFileIndex = nFileIndex s + 1, nOffsetWrite = next\<rparr> } }"

text \<open>The files with the longest names come first; a file that cannot be opened is left out.\<close>

fun write_files :: "(string \<rightharpoonup> disk_file) \<Rightarrow> string \<Rightarrow> string list \<Rightarrow> builder \<Rightarrow> builder option" where
  "write_files d root [] s = Some s"
| "write_files d root (p # ps) s = (case d (root @ drop 1 p) of
       None \<Rightarrow> write_files d root ps s
     | Some f \<Rightarrow> Option.bind (write_file p f s) (write_files d root ps))"

definition longest_first :: "by_length \<Rightarrow> string list" where
  "longest_first files = concat (map snd (rev files))"

definition write_image :: "(string \<rightharpoonup> disk_file) \<Rightarrow> string \<Rightarrow> string list \<Rightarrow> char list option" where
  "write_image d root paths =
     do { s \<leftarrow> write_files d root paths \<lparr>fBin = [], nFileIndex = 0, nOffsetWrite = 0\<rparr>;
          Some (fBin s @ info_bytes zeroInfo) }"

section \<open>The image as a source file\<close>

definition fmt_byte :: "char \<Rightarrow> string" where
  "fmt_byte c = ''0x'' @ pad0 2 (fmt_X (of_char c))"

text \<open>One block of bytes: \<open>strLine\<close> is written with every sixteenth byte and with the last one.\<close>

fun emit_bytes :: "nat \<Rightarrow> char list \<Rightarrow> string \<Rightarrow> nat \<Rightarrow> string \<Rightarrow> nat \<times> string" where
  "emit_bytes tot [] strLine nCount out = (nCount, out)"
| "emit_bytes tot (c # cs) strLine nCount out =
     (let strLine = strLine @ fmt_byte c @ (if nCount + 1 \<noteq> tot then '','' else [])
      in if (nCount + 1) mod 16 = 0 \<or> nCount + 1 = tot
         then emit_bytes tot cs ''  '' (nCount + 1) (out @ strLine @ CRLF)
         else emit_bytes tot cs strLine (nCount + 1) out)"

function emit_blocks :: "nat \<Rightarrow> char list \<Rightarrow> nat \<Rightarrow> string \<Rightarrow> string" where
  "emit_blocks tot bin nCount out =
     (let b = take 8192 bin
      in if b = [] then out
         else case emit_bytes tot b ''  '' nCount out of (n, out) \<Rightarrow> emit_blocks tot (drop 8192 bin) n out)"
  by pat_completeness auto
termination by (relation "measure (\<lambda>(t, b, n, out). length b)") auto

declare emit_blocks.simps [simp del]

definition fs_data :: "char list \<Rightarrow> string" where
  "fs_data bin = emit_blocks (length bin) bin 0
     (''const unsigned char g_szWebRoot[] __attribute__((aligned(4))) = {'' @ CRLF) @ ''};'' @ CRLF"

text \<open>
  The tool with its two arguments: \<^const>\<open>None\<close> inside is the usage message, otherwise the contents of
  \<^verbatim>\<open>fs.bin\<close> and \<^verbatim>\<open>fs_data.c\<close>, both of which can be created. The three paths are arrays of 512 bytes.
\<close>

definition straight_buildfs ::
  "(string \<Rightarrow> dir_entry list) \<Rightarrow> (string \<rightharpoonup> disk_file) \<Rightarrow> string \<Rightarrow> string \<Rightarrow> (char list \<times> string) option option" where
  "straight_buildfs list d arg dest =
     (if arg = [] \<or> dest = [] then Some None
      else do {
        let root = trim_folder arg;
        pRootFolder \<leftarrow> c_strcpy (replicate 512 NUL) 0 root;
        fsBin \<leftarrow> c_strcpy (replicate 512 NUL) 0 (trim_folder dest @ ''fs.bin'');
        fsData \<leftarrow> c_strcpy (replicate 512 NUL) 0 (trim_folder dest @ ''fs_data.c'');
        files \<leftarrow> scan_folders list (length root - 1) [root] [];
        bin \<leftarrow> write_image d root (longest_first files);
        Some (Some (bin, fs_data bin)) })"

section \<open>Fields of fixed width\<close>

locale field_codec =
  fixes width :: nat
    and put :: "'a \<Rightarrow> char list"
    and get :: "char list \<Rightarrow> 'a"
  assumes length_put [simp]: "length (put x) = width"
    and get_put: "get (put x @ r) = x"
begin

lemma get_drop: "n = length a \<Longrightarrow> get (drop n (a @ put x @ r)) = x"
  by (simp add: get_put)

lemma get_alone: "get (put x) = x"
  using get_put [of x "[]"] by simp

end

lemma length_le_encode [simp]: "length (le_encode n x) = n"
  by (induction n arbitrary: x) simp_all

lemma le_decode_encode: "le_decode (le_encode n x) = x mod 256 ^ n"
proof (induction n arbitrary: x)
  case (Suc n)
  have "x mod 256 + 256 * (x div 256 mod 256 ^ n) = x mod 256 ^ Suc n"
    by (simp add: mod_mult2_eq)
  then show ?case by (simp add: Suc.IH)
qed simp

interpretation word32: field_codec 4 put_u32 get_u32
proof
  fix x :: u32 and r
  show "get_u32 (put_u32 x @ r) = x"
  proof -
    have "unat x < 2 ^ LENGTH(32)" by (rule unsigned_less)
    then show ?thesis by (simp add: get_u32_def put_u32_def le_decode_encode)
  qed
qed (simp add: put_u32_def)

interpretation word64: field_codec 8 put_u64 get_u64
proof
  fix x :: u64 and r
  show "get_u64 (put_u64 x @ r) = x"
  proof -
    have "unat x < 2 ^ LENGTH(64)" by (rule unsigned_less)
    then show ?thesis by (simp add: get_u64_def put_u64_def le_decode_encode)
  qed
qed (simp add: put_u64_def)

lemma length_info_bytes [simp]: "length (info_bytes i) = 32"
  by (simp add: info_bytes_def)

lemma info_at_bytes: "n = length a \<Longrightarrow> info_at (a @ info_bytes i @ r) n = Some i"
  by (simp add: info_at_def c_bytes_def info_bytes_def word32.get_put word64.get_put word32.get_drop word64.get_drop word32.get_alone)

section \<open>Alignment\<close>

definition pad4 :: "nat \<Rightarrow> nat" where "pad4 n = (n + 3) div 4 * 4"

lemma pad4_bounds: "n \<le> pad4 n" "pad4 n \<le> n + 3" "pad4 n mod 4 = 0"
  by (simp_all add: pad4_def)

lemma align_mask: "x AND 0xFFFFFFFC = push_bit 2 (drop_bit 2 (x :: u32))"
proof -
  have "(0xFFFFFFFC :: u32) = NOT (mask 2)" by (simp add: mask_eq_exp_minus_1)
  moreover have "x AND NOT (mask 2) = push_bit 2 (drop_bit 2 x)"
  proof (rule bit_word_eqI)
    fix n assume "n < LENGTH(32)"
    moreover have "n < 2 \<or> Suc (Suc (n - 2)) = n" by arith
    ultimately show "bit (x AND NOT (mask 2)) n = bit (push_bit 2 (drop_bit 2 x)) n"
      by (auto simp: bit_simps)
  qed
  ultimately show ?thesis by simp
qed

lemma unat_align4:
  assumes "unat x + 3 < 2 ^ 32"
  shows "unat (align4 x) = pad4 (unat x)"
proof -
  have 1: "unat (x + 3) = unat x + 3" using assms by (simp add: unat_word_ariths)
  have "unat (push_bit 2 (drop_bit 2 (x + 3))) = (unat x + 3) div 4 * 4"
    using assms 1 by (simp add: push_bit_eq_mult drop_bit_eq_div unat_word_ariths unat_div)
  then show ?thesis by (simp add: align4_def align_mask pad4_def)
qed

section \<open>The layout of the image\<close>

text \<open>The sizes of the parts of a record, as numbers.\<close>

definition path_size :: "rom_file \<Rightarrow> nat" where "path_size r = pad4 (length (rom_name r) + 1)"
definition data_size :: "rom_file \<Rightarrow> nat" where "data_size r = pad4 (length (rom_data r))"
definition rec_size :: "rom_file \<Rightarrow> nat" where "rec_size r = 32 + path_size r + data_size r"

definition rec_info :: "nat \<Rightarrow> nat \<Rightarrow> rom_file \<Rightarrow> http_file_info" where
  "rec_info k off r = zeroInfo\<lparr>tLastModified := of_nat (rom_time r), nSize := of_nat (length (rom_data r)),
     nIndex := of_nat k, nOffsetFileData := of_nat (off + 32 + path_size r), nOffsetNextFile := of_nat (off + rec_size r)\<rparr>"

definition rec_bytes :: "nat \<Rightarrow> nat \<Rightarrow> rom_file \<Rightarrow> char list" where
  "rec_bytes k off r = info_bytes (rec_info k off r) @ rom_name r @ replicate (path_size r - length (rom_name r)) NUL @
     rom_data r @ replicate (data_size r - length (rom_data r)) NUL"

fun layout :: "nat \<Rightarrow> nat \<Rightarrow> rom_file list \<Rightarrow> char list" where
  "layout k off [] = info_bytes zeroInfo"
| "layout k off (r # rs) = rec_bytes k off r @ layout (Suc k) (off + rec_size r) rs"

definition wf_rom :: "rom_file \<Rightarrow> bool" where
  "wf_rom r \<longleftrightarrow> NUL \<notin> set (rom_name r) \<and> length (rom_name r) < MAX_PATH \<and> 0 < rom_time r \<and> rom_time r < 2 ^ 64"

lemma length_rec_bytes [simp]: "length (rec_bytes k off r) = rec_size r"
  using pad4_bounds(1) [of "length (rom_name r) + 1"] pad4_bounds(1) [of "length (rom_data r)"]
  by (simp add: rec_bytes_def rec_size_def path_size_def data_size_def)

section \<open>The tool writes the layout\<close>

lemma copy_file_eq: "copy_file d out = out @ d"
proof (induction d out rule: copy_file.induct)
  case (1 d out)
  show ?case
  proof (cases "d = []")
    case False
    then have "copy_file d out = copy_file (drop 8192 d) (out @ take 8192 d)" by (simp add: copy_file.simps [of d])
    also have "\<dots> = (out @ take 8192 d) @ drop 8192 d" using 1 False by (simp add: Let_def)
    finally show ?thesis by simp
  qed (simp add: copy_file.simps)
qed

text \<open>The file of the web root behind a path, as it is found in the image.\<close>

definition rom_of :: "string \<Rightarrow> disk_file \<Rightarrow> rom_file" where
  "rom_of p f = \<lparr>rom_name = p, rom_data = file_data f, rom_time = file_time f\<rparr>"

lemma rom_of_sel [simp]:
  "rom_name (rom_of p f) = p" "rom_data (rom_of p f) = file_data f" "rom_time (rom_of p f) = file_time f"
  by (simp_all add: rom_of_def)

lemma path_bytes:
  assumes "length p < MAX_PATH"
  shows "c_strcpy (replicate MAX_PATH NUL) 0 p = Some (p @ replicate (MAX_PATH - length p) NUL)"
    and "pad4 (length p + 1) \<le> MAX_PATH"
proof -
  have "MAX_PATH - length p = Suc (MAX_PATH - Suc (length p))" using assms by simp
  then show "c_strcpy (replicate MAX_PATH NUL) 0 p = Some (p @ replicate (MAX_PATH - length p) NUL)"
    using assms by (simp add: c_strcpy_def c_cpy_def)
  have "length p + 1 + 3 \<le> 263" using assms by (simp add: MAX_PATH_def)
  then have "(length p + 1 + 3) div 4 \<le> 263 div 4" by (rule div_le_mono)
  then show "pad4 (length p + 1) \<le> MAX_PATH" by (simp add: pad4_def MAX_PATH_def)
qed

lemma write_file_layout:
  assumes "length p < MAX_PATH" and "nOffsetWrite s = of_nat off" and "off + rec_size (rom_of p f) < 2 ^ 31"
  shows "write_file p f s = Some \<lparr>fBin = fBin s @ rec_bytes (nFileIndex s) off (rom_of p f), nFileIndex = nFileIndex s + 1,
      nOffsetWrite = of_nat (off + rec_size (rom_of p f))\<rparr>"
proof -
  let ?r = "rom_of p f" and ?P = "align4 (of_nat (length p) + 1)" and ?n = "of_nat (length (file_data f)) :: u32"
  note sz = rec_size_def path_size_def data_size_def
  have lp: "pad4 (length p + 1) \<le> 260" using path_bytes(2) [OF assms(1)] by (simp add: MAX_PATH_def)
  have ld: "length (file_data f) \<le> pad4 (length (file_data f))" by (rule pad4_bounds)
  have un: "unat ?n = length (file_data f)"
    using assms(3) ld by (simp add: sz take_bit_nat_eq_self unat_of_nat)
  have D: "unat (align4 ?n) = data_size ?r"
    using assms(3) ld by (simp add: unat_align4 un sz)
  have u1: "unat (of_nat (length p) + 1 :: u32) = length p + 1"
    using assms(1) by (simp add: unat_word_ariths take_bit_nat_eq_self unat_of_nat MAX_PATH_def)
  have P: "unat ?P = path_size ?r"
    using assms(1) by (simp add: unat_align4 u1 sz MAX_PATH_def)
  have words: "?P = of_nat (path_size ?r)" "align4 ?n = of_nat (data_size ?r)"
    by (simp_all flip: P D)
  have s1: "sint (of_nat off :: u32) = int off" using assms(3) by (simp add: sz signed_of_nat signed_take_bit_int_eq_self)
  have s2: "sint (32 + ?P) = int (32 + path_size ?r)"
  proof -
    have "32 + ?P = of_nat (32 + path_size ?r)" by (simp add: words)
    then show ?thesis using lp by (simp only: signed_of_nat) (simp add: sz signed_take_bit_int_eq_self)
  qed
  have pad: "unat (align4 ?n - ?n) = data_size ?r - length (file_data f)"
    using D un ld by (simp add: unat_sub_if' sz)
  have room: "\<not> 2 ^ 31 \<le> sint (nOffsetWrite s) + sint (32 + ?P)"
    using assms(3) by (simp add: assms(2) s1 s2 sz)
  have pb: "c_bytes (p @ replicate (MAX_PATH - length p) NUL) 0 (path_size ?r) =
      Some (p @ replicate (path_size ?r - length p) NUL)"
    using path_bytes(2) [OF assms(1)] assms(1) pad4_bounds(1) [of "length p + 1"]
    by (simp add: c_bytes_def sz)
  have w1: "nOffsetWrite s + (32 + ?P) = of_nat (off + 32 + path_size ?r)" by (simp add: words assms(2))
  have w2: "of_nat (off + 32 + path_size ?r) + align4 ?n = of_nat (off + rec_size ?r)" by (simp add: words rec_size_def)
  show ?thesis
    unfolding write_file_def path_bytes(1) [OF assms(1)] Let_def P w1 w2 pad copy_file_eq
    using room by (simp add: pb rec_bytes_def rec_info_def del: of_nat_add)
qed

definition image_files :: "(string \<rightharpoonup> disk_file) \<Rightarrow> string \<Rightarrow> string list \<Rightarrow> rom_file list" where
  "image_files d root paths = List.map_filter (\<lambda>p. map_option (rom_of p) (d (root @ drop 1 p))) paths"

definition image_size :: "rom_file list \<Rightarrow> nat" where
  "image_size rs = sum_list (map rec_size rs)"

lemma image_size_simps [simp]: "image_size [] = 0" "image_size (r # rs) = rec_size r + image_size rs"
  by (simp_all add: image_size_def)

lemma write_files_layout:
  assumes "list_all wf_rom (image_files d root ps)" and "nOffsetWrite s = of_nat off"
    and "off + image_size (image_files d root ps) < 2 ^ 31"
  shows "\<exists>s'. write_files d root ps s = Some s' \<and>
     fBin s' @ info_bytes zeroInfo = fBin s @ layout (nFileIndex s) off (image_files d root ps)"
  using assms
proof (induction ps arbitrary: s off)
  case (Cons p ps)
  show ?case
  proof (cases "d (root @ drop 1 p)")
    case None
    with Cons show ?thesis by (simp add: image_files_def map_filter_simps)
  next
    case (Some f)
    then have e: "image_files d root (p # ps) = rom_of p f # image_files d root ps"
      by (simp add: image_files_def map_filter_simps)
    define t where "t = \<lparr>fBin = fBin s @ rec_bytes (nFileIndex s) off (rom_of p f), nFileIndex = nFileIndex s + 1,
        nOffsetWrite = of_nat (off + rec_size (rom_of p f))\<rparr>"
    have "write_file p f s = Some t"
      unfolding t_def using Cons.prems by (intro write_file_layout) (simp_all add: e wf_rom_def)
    moreover have "\<exists>s'. write_files d root ps t = Some s' \<and>
        fBin s' @ info_bytes zeroInfo = fBin t @ layout (nFileIndex t) (off + rec_size (rom_of p f)) (image_files d root ps)"
      using Cons.prems by (intro Cons.IH) (simp_all add: e t_def)
    ultimately show ?thesis using Some by (simp add: e t_def)
  qed
qed (simp add: image_files_def map_filter_simps)

section \<open>The server reads the layout\<close>

lemma rec_info_sel [simp]:
  "tLastModified (rec_info k off r) = of_nat (rom_time r)" "nSize (rec_info k off r) = of_nat (length (rom_data r))"
  "nOffsetFileData (rec_info k off r) = of_nat (off + 32 + path_size r)"
  "nOffsetNextFile (rec_info k off r) = of_nat (off + rec_size r)"
  by (simp_all add: rec_info_def)

lemma unat_small: "n < 2 ^ 31 \<Longrightarrow> unat (of_nat n :: u32) = n"
  by (simp add: unat_of_nat)

lemma wf_rom_time: "wf_rom r \<Longrightarrow> (of_nat (rom_time r) :: u64) \<noteq> 0"
  by (auto simp: wf_rom_def word_of_nat_eq_0_iff dvd_def)

text \<open>What the server finds at the header of the first file behind \<open>pre\<close>.\<close>

lemma layout_first:
  assumes "wf_rom r" and "length pre + image_size (r # rs) < 2 ^ 31"
    and img_def: "img = pre @ layout k (length pre) (r # rs)"
  shows "info_at img (length pre) = Some (rec_info k (length pre) r)"
    and "c_str img (length pre + 32) = Some (rom_name r)"
    and "unat (nOffsetNextFile (rec_info k (length pre) r)) = length (pre @ rec_bytes k (length pre) r)"
    and "tLastModified (rec_info k (length pre) r) \<noteq> 0"
    and "img = (pre @ rec_bytes k (length pre) r) @ layout (Suc k) (length (pre @ rec_bytes k (length pre) r)) rs"
proof -
  let ?n = "path_size r - length (rom_name r)"
  have n: "?n = Suc (?n - 1)" using pad4_bounds(1) [of "length (rom_name r) + 1"] by (simp add: path_size_def)
  show "info_at img (length pre) = Some (rec_info k (length pre) r)"
    by (simp add: img_def rec_bytes_def info_at_bytes)
  have "img = (pre @ info_bytes (rec_info k (length pre) r)) @ rom_name r @ NUL # replicate (?n - 1) NUL @ rom_data r @
      replicate (data_size r - length (rom_data r)) NUL @ layout (Suc k) (length pre + rec_size r) rs"
    by (simp add: img_def rec_bytes_def) (subst n, simp)
  then show "c_str img (length pre + 32) = Some (rom_name r)"
    using assms(1) c_str_mid [of "rom_name r" "pre @ info_bytes (rec_info k (length pre) r)"]
    by (simp add: wf_rom_def)
  show "unat (nOffsetNextFile (rec_info k (length pre) r)) = length (pre @ rec_bytes k (length pre) r)"
    using assms(2) by (simp add: unat_small del: of_nat_add)
qed (use assms(1) in \<open>simp_all add: img_def wf_rom_time\<close>)

lemma layout_end:
  "info_at (pre @ layout k (length pre) []) (length pre) = Some zeroInfo" "tLastModified zeroInfo = 0"
  using info_at_bytes [of "length pre" pre zeroInfo "[]"] by (simp_all add: zeroInfo_def)

lemma count_files_layout:
  "list_all wf_rom rs \<Longrightarrow> length pre + image_size rs < 2 ^ 31 \<Longrightarrow>
   count_files (pre @ layout k (length pre) rs) (length pre) n = Some (n + length rs)"
proof (induction rs arbitrary: pre k n)
  case Nil
  show ?case by (subst count_files.simps) (simp add: layout_end del: layout.simps)
next
  case (Cons r rs)
  have r: "wf_rom r" using Cons.prems by simp
  define img where "img = pre @ layout k (length pre) (r # rs)"
  note first = layout_first [OF r Cons.prems(2) img_def]
  let ?pre = "pre @ rec_bytes k (length pre) r"
  have "count_files img (length pre) n = count_files img (length ?pre) (n + 1)"
    by (subst count_files.simps) (simp only: first(1-4) bind.bind_lunit if_False)
  also have "\<dots> = Some (n + 1 + length rs)"
    unfolding first(5) using Cons.prems by (intro Cons.IH) simp_all
  finally show ?case by (simp add: img_def)
qed

text \<open>The position of the \<open>i\<close>-th header, the first one being at \<open>off\<close>.\<close>

definition rec_off :: "nat \<Rightarrow> rom_file list \<Rightarrow> nat \<Rightarrow> nat" where
  "rec_off off rs i = off + image_size (take i rs)"

lemma rec_off_simps [simp]: "rec_off off rs 0 = off" "rec_off off (r # rs) (Suc i) = rec_off (off + rec_size r) rs i"
  by (simp_all add: rec_off_def)

lemma find_image_Suc: "find_image name (Suc i) rs = map_option Suc (find_image name i rs)"
  by (induction rs arbitrary: i) simp_all

lemma find_file_layout:
  "list_all wf_rom rs \<Longrightarrow> length pre + image_size rs < 2 ^ 31 \<Longrightarrow>
   find_file (pre @ layout k (length pre) rs) name (length pre) =
     Some (map_option (rec_off (length pre) rs) (find_image name 0 rs))"
proof (induction rs arbitrary: pre k)
  case Nil
  show ?case by (subst find_file.simps) (simp add: layout_end del: layout.simps)
next
  case (Cons r rs)
  have r: "wf_rom r" using Cons.prems by simp
  define img where "img = pre @ layout k (length pre) (r # rs)"
  note first = layout_first [OF r Cons.prems(2) img_def]
  let ?pre = "pre @ rec_bytes k (length pre) r"
  have "find_file img name (length pre) =
      (if name = rom_name r then Some (Some (length pre)) else find_file img name (length ?pre))"
    by (subst find_file.simps) (simp only: first(1-4) bind.bind_lunit if_False)
  also have "find_file img name (length ?pre) = Some (map_option (rec_off (length ?pre) rs) (find_image name 0 rs))"
    unfolding first(5) using Cons.prems by (intro Cons.IH) simp_all
  finally show ?case
    by (auto simp: img_def find_image_Suc option.map_comp comp_def)
qed

text \<open>The parts of the image around the \<open>i\<close>-th record.\<close>

lemma layout_nth:
  "i < length rs \<Longrightarrow> \<exists>pre post. layout k off rs = pre @ rec_bytes (k + i) (rec_off off rs i) (rs ! i) @ post \<and>
     length pre = image_size (take i rs)"
proof (induction rs arbitrary: k off i)
  case (Cons r rs)
  show ?case
  proof (cases i)
    case 0
    then show ?thesis by (intro exI [of _ "[]"] exI) simp
  next
    case (Suc j)
    with Cons.prems have "j < length rs" by simp
    from Cons.IH [OF this, of "Suc k" "off + rec_size r"] obtain pre post where
      "layout (Suc k) (off + rec_size r) rs = pre @ rec_bytes (Suc k + j) (rec_off (off + rec_size r) rs j) (rs ! j) @ post"
      "length pre = image_size (take j rs)" by blast
    then show ?thesis
      by (intro exI [of _ "rec_bytes k off r @ pre"] exI [of _ post]) (simp add: Suc)
  qed
qed simp

lemma read_file_layout:
  assumes "i < length rs" and "image_size rs < 2 ^ 31" and "pos \<le> length (rom_data (rs ! i))"
  shows "read_file (layout 0 0 rs) (rec_off 0 rs i) (of_nat pos) n = Some (take n (drop pos (rom_data (rs ! i))))"
proof -
  let ?r = "rs ! i" and ?o = "rec_off 0 rs i"
  obtain pre post where l: "layout 0 0 rs = pre @ rec_bytes (0 + i) ?o ?r @ post" "length pre = image_size (take i rs)"
    using layout_nth [OF assms(1), of 0 0] by blast
  have o: "length pre = ?o" using l(2) by (simp add: rec_off_def)
  have d: "length (rom_data ?r) \<le> data_size ?r" using pad4_bounds by (simp add: data_size_def)
  have "image_size rs = image_size (take i rs) + rec_size ?r + image_size (drop (Suc i) rs)"
    unfolding image_size_def using assms(1) by (subst id_take_nth_drop [OF assms(1)]) simp
  then have b: "?o + rec_size ?r < 2 ^ 31" using assms(2) by (simp add: rec_off_def)
  let ?h = "pre @ info_bytes (rec_info i ?o ?r) @ rom_name ?r @ replicate (path_size ?r - length (rom_name ?r)) NUL"
  have h: "length ?h = ?o + 32 + path_size ?r"
    using o pad4_bounds(1) [of "length (rom_name ?r) + 1"] by (simp add: path_size_def)
  obtain tail where img: "layout 0 0 rs = ?h @ rom_data ?r @ tail" using l(1) by (simp add: rec_bytes_def)
  have i: "info_at (layout 0 0 rs) ?o = Some (rec_info i ?o ?r)"
    using info_at_bytes [OF o [symmetric]] by (simp add: img)
  have sm: "?o + 32 + path_size ?r < 2 ^ 31" "length (rom_data ?r) < 2 ^ 31" using b d by (simp_all add: rec_size_def)
  have off: "unat (nOffsetFileData (rec_info i ?o ?r)) = length ?h"
    unfolding h rec_info_sel by (rule unat_small [OF sm(1)])
  have nz: "nOffsetFileData (rec_info i ?o ?r) \<noteq> 0" using off h by auto
  have up: "unat (of_nat pos :: u32) = pos" using assms(3) sm(2) by (intro unat_small) linarith
  have s: "sint (nSize (rec_info i ?o ?r) - of_nat pos) = int (length (rom_data ?r) - pos)"
  proof -
    have "(of_nat (length (rom_data ?r)) - of_nat pos :: u32) = of_nat (length (rom_data ?r) - pos)"
      using assms(3) by (simp add: of_nat_diff)
    then show ?thesis using sm(2) by (simp add: signed_of_nat signed_take_bit_int_eq_self)
  qed
  have "c_bytes (layout 0 0 rs) (length ?h + pos) m = Some (take m (drop pos (rom_data ?r)))"
    if "m \<le> length (rom_data ?r) - pos" for m
    using that assms(3) unfolding img by (simp add: c_bytes_def)
  then show ?thesis
    unfolding read_file_def i bind.bind_lunit Let_def s off up using nz by (simp add: min_def)
qed

section \<open>The source file holds the image\<close>

text \<open>The bytes of an array initialiser in C: hexadecimal numbers up to the closing brace.\<close>

fun init_bytes :: "string \<Rightarrow> char list option" where
  "init_bytes [] = None"
| "init_bytes (c # s) =
     (if c = CHR ''}'' then Some []
      else if c = CHR '','' \<or> is_space c then init_bytes s
      else if c = CHR ''0'' then
        (case s of x # a # b # r \<Rightarrow>
            if x = CHR ''x'' then map_option (Cons (char_of (hex_val [a, b]))) (init_bytes r) else None
         | _ \<Rightarrow> None)
      else None)"

definition array_bytes :: "string \<Rightarrow> char list option" where
  "array_bytes src = init_bytes (drop 1 (dropWhile (\<lambda>c. c \<noteq> CHR ''{'') src))"

lemma fmt_byte_digits:
  "fmt_byte c = [CHR ''0'', CHR ''x'', digit_char (of_char c div 16), digit_char (of_char c mod 16)]"
proof -
  have zero: "char_of (48 :: nat) = CHR ''0''" by code_simp
  have "of_char c < (256 :: nat)" by simp
  then have "(of_char c :: nat) div 16 < 16" by linarith
  then show ?thesis
    by (simp add: fmt_byte_def fmt_X_def pad0_def fmt_nat.simps [of 16 "of_char c"] fmt_nat.simps [of 16 "of_char c div 16"])
       (simp add: digit_char_def zero)
qed

lemma hex_digits: "d < 16 \<Longrightarrow> e < 16 \<Longrightarrow> hex_val [digit_char d, digit_char e] = 16 * d + e"
  by (auto simp: hex_val_def digit_char_def)

lemma init_bytes_fmt [simp]: "init_bytes (fmt_byte c @ r) = map_option (Cons c) (init_bytes r)"
proof -
  have "of_char c < (256 :: nat)" by simp
  then have "(of_char c :: nat) div 16 < 16" by linarith
  then have "hex_val [digit_char (of_char c div 16), digit_char (of_char c mod 16)] = of_char c"
    by (subst hex_digits) simp_all
  then show ?thesis by (simp add: fmt_byte_digits is_space_def)
qed

lemma init_bytes_skip [simp]:
  "init_bytes (CHR '','' # r) = init_bytes r" "init_bytes (CHR '' '' # r) = init_bytes r"
  "init_bytes (CR # r) = init_bytes r" "init_bytes (LF # r) = init_bytes r"
  by (simp_all add: is_space_def)

declare init_bytes.simps(2) [simp del]

lemma map_append_Nil: "map_option ((@) []) m = m"
  by (cases m) simp_all

text \<open>A block that ends with a flushed line: everything of it is written.\<close>

lemma emit_bytes_written:
  assumes "cs \<noteq> []" and "(n + length cs) mod 16 = 0 \<or> n + length cs = tot"
  shows "\<exists>X. emit_bytes tot cs line n out = (n + length cs, out @ line @ X) \<and>
     (\<forall>r. init_bytes (X @ r) = map_option ((@) cs) (init_bytes r))"
  using assms
proof (induction cs arbitrary: line n out)
  case (Cons c cs)
  let ?t = "fmt_byte c @ (if n + 1 \<noteq> tot then '','' else [])"
  show ?case
  proof (cases "cs = []")
    case True
    with Cons.prems show ?thesis by (intro exI [of _ "?t @ CRLF"]) (auto simp: Let_def)
  next
    case False
    have m: "(n + 1 + length cs) mod 16 = 0 \<or> n + 1 + length cs = tot" using Cons.prems(2) by simp
    show ?thesis
    proof (cases "(n + 1) mod 16 = 0 \<or> n + 1 = tot")
      case True
      from Cons.IH [OF False m, of "''  ''" "out @ line @ ?t @ CRLF"] obtain X where
        "emit_bytes tot cs ''  '' (n + 1) (out @ line @ ?t @ CRLF) = (n + 1 + length cs, (out @ line @ ?t @ CRLF) @ ''  '' @ X)"
        "\<And>r. init_bytes (X @ r) = map_option ((@) cs) (init_bytes r)" by blast
      with True show ?thesis
        by (intro exI [of _ "?t @ CRLF @ ''  '' @ X"]) (auto simp: Let_def option.map_comp comp_def)
    next
      case no: False
      from Cons.IH [OF False m, of "line @ ?t" out] obtain X where
        "emit_bytes tot cs (line @ ?t) (n + 1) out = (n + 1 + length cs, out @ (line @ ?t) @ X)"
        "\<And>r. init_bytes (X @ r) = map_option ((@) cs) (init_bytes r)" by blast
      with no show ?thesis
        by (intro exI [of _ "?t @ X"]) (auto simp: Let_def option.map_comp comp_def)
    qed
  qed
qed simp

lemma emit_blocks_written:
  assumes "n mod 16 = 0" and "n + length bin = tot"
  shows "\<exists>X. emit_blocks tot bin n out = out @ X \<and> (\<forall>r. init_bytes (X @ r) = map_option ((@) bin) (init_bytes r))"
  using assms
proof (induction tot bin n out rule: emit_blocks.induct)
  case (1 tot bin n out)
  show ?case
  proof (cases "bin = []")
    case True
    then show ?thesis by (subst emit_blocks.simps) (simp add: map_append_Nil)
  next
    case False
    let ?b = "take 8192 bin" and ?k = "n + length (take 8192 bin)"
    have m: "?k mod 16 = 0 \<or> ?k = tot" using "1.prems" by (auto simp: min_def mod_add_eq)
    obtain X where X: "emit_bytes tot ?b ''  '' n out = (?k, out @ ''  '' @ X)"
      "\<And>r. init_bytes (X @ r) = map_option ((@) ?b) (init_bytes r)"
      using emit_bytes_written [of ?b n tot "''  ''" out] m False by auto
    have "\<exists>Y. emit_blocks tot (drop 8192 bin) ?k (out @ ''  '' @ X) = (out @ ''  '' @ X) @ Y \<and>
        (\<forall>r. init_bytes (Y @ r) = map_option ((@) (drop 8192 bin)) (init_bytes r))"
    proof (cases "length bin \<le> 8192")
      case True
      then show ?thesis by (subst emit_blocks.simps) (simp add: map_append_Nil)
    next
      case gt: False
      have "?k mod 16 = 0" using gt "1.prems"(1) by simp presburger
      moreover have "?k + length (drop 8192 bin) = tot" using "1.prems"(2) gt by simp
      ultimately show ?thesis using "1.IH" [OF refl _ X(1) [symmetric]] False by simp
    qed
    then obtain Y where Y: "emit_blocks tot (drop 8192 bin) ?k (out @ ''  '' @ X) = (out @ ''  '' @ X) @ Y"
      "\<And>r. init_bytes (Y @ r) = map_option ((@) (drop 8192 bin)) (init_bytes r)" by blast
    have "emit_blocks tot bin n out = out @ ''  '' @ X @ Y"
      using False X(1) Y(1) by (subst emit_blocks.simps) simp
    moreover have "init_bytes (X @ Y @ r) = map_option ((@) bin) (init_bytes r)" for r
      by (simp add: X(2) Y(2) option.map_comp comp_def) (simp flip: append_assoc)
    ultimately show ?thesis by (intro exI [of _ "''  '' @ X @ Y"]) simp
  qed
qed

lemma fs_data_bytes: "array_bytes (fs_data bin) = Some bin"
proof -
  let ?h = "''const unsigned char g_szWebRoot[] __attribute__((aligned(4))) = '' :: string"
  have "\<exists>X. emit_blocks (length bin) bin 0 ((?h @ ''{'') @ CRLF) = ((?h @ ''{'') @ CRLF) @ X \<and>
      (\<forall>r. init_bytes (X @ r) = map_option ((@) bin) (init_bytes r))"
    by (rule emit_blocks_written) simp_all
  then obtain X where X: "emit_blocks (length bin) bin 0 ((?h @ ''{'') @ CRLF) = ((?h @ ''{'') @ CRLF) @ X"
    "\<And>r. init_bytes (X @ r) = map_option ((@) bin) (init_bytes r)" by blast
  have "fs_data bin = ?h @ CHR ''{'' # CRLF @ X @ ''};'' @ CRLF"
    using X(1) by (simp add: fs_data_def)
  then have "array_bytes (fs_data bin) = init_bytes (CRLF @ X @ ''};'' @ CRLF)"
    by (simp add: array_bytes_def)
  also have "\<dots> = Some bin" using X(2) by (simp add: init_bytes.simps(2) is_space_def)
  finally show ?thesis .
qed

section \<open>The order of the files\<close>

definition by_length_ok :: "by_length \<Rightarrow> bool" where
  "by_length_ok m \<longleftrightarrow> sorted_wrt (<) (map fst m) \<and> (\<forall>(n, ps) \<in> set m. \<forall>p \<in> set ps. length p = n)"

lemma add_file_keys: "set (map fst (add_file p m)) = insert (length p) (set (map fst m))"
  by (induction p m rule: add_file.induct) auto

lemma add_file_ok: "by_length_ok m \<Longrightarrow> by_length_ok (add_file p m)"
proof (induction p m rule: add_file.induct)
  case (2 p n ps m)
  have "by_length_ok m" using "2.prems" by (simp add: by_length_ok_def)
  then have "\<not> length p = n \<Longrightarrow> \<not> length p < n \<Longrightarrow> by_length_ok (add_file p m)" using "2.IH" by blast
  then show ?case using "2.prems" add_file_keys [of p m] by (auto simp: by_length_ok_def)
qed (simp add: by_length_ok_def)

lemma add_file_mset: "mset (longest_first (add_file p m)) = add_mset p (mset (longest_first m))"
  by (induction p m rule: add_file.induct) (simp_all add: longest_first_def)

lemma longest_first_sorted: "by_length_ok m \<Longrightarrow> sorted_wrt (\<lambda>p q. length q \<le> length p) (longest_first m)"
proof (induction m)
  case (Cons a m)
  obtain n ps where a: "a = (n, ps)" by force
  have e: "longest_first (a # m) = longest_first m @ ps" by (simp add: longest_first_def a)
  have ok: "by_length_ok m" and n: "\<forall>k \<in> fst ` set m. n < k" and l: "\<forall>p \<in> set ps. length p = n"
    using Cons.prems by (auto simp: by_length_ok_def a)
  have ps: "sorted_wrt (\<lambda>p q. length q \<le> length p) ps"
    using l by (simp add: sorted_wrt_iff_nth_less)
  have "\<forall>p \<in> set (longest_first m). n < length p"
    using ok n by (auto simp: longest_first_def by_length_ok_def) fastforce
  then show ?case unfolding e sorted_wrt_append using Cons.IH [OF ok] ps l by auto
qed (simp add: longest_first_def)

section \<open>The tree of the web root\<close>

datatype node = File string | Folder_of string "node list"

definition dots :: "dir_entry \<Rightarrow> bool" where "dots e \<longleftrightarrow> de_name e = ''.'' \<or> de_name e = ''..''"

fun entry_fits :: "dir_entry \<Rightarrow> node \<Rightarrow> bool" where
  "entry_fits e (File s) \<longleftrightarrow> \<not> de_folder e \<and> de_name e = s \<and> length s < MAX_PATH"
| "entry_fits e (Folder_of s ns) \<longleftrightarrow> de_folder e \<and> de_name e = s \<and> length s < MAX_PATH"

text \<open>The folder \<open>f\<close> of the host holds the nodes \<open>ns\<close>, and so on below.\<close>

fun holds :: "(string \<Rightarrow> dir_entry list) \<Rightarrow> string \<Rightarrow> node list \<Rightarrow> bool" and
    holds_below :: "(string \<Rightarrow> dir_entry list) \<Rightarrow> string \<Rightarrow> node \<Rightarrow> bool" where
  "holds list f ns \<longleftrightarrow> list_all2 entry_fits (filter (\<lambda>e. \<not> dots e) (list (f @ ''*.*''))) ns \<and>
     (\<forall>n \<in> set ns. holds_below list f n)"
| "holds_below list f (File s) \<longleftrightarrow> True"
| "holds_below list f (Folder_of s ns) \<longleftrightarrow> holds list (f @ s @ ''/'') ns"

text \<open>The paths that belong to the image: all files but backups and the contents of the cache folder.\<close>

fun node_paths :: "nat \<Rightarrow> string \<Rightarrow> node \<Rightarrow> string list" where
  "node_paths k f (File s) = (if stricmp_eq (str_right 4 (drop k f @ s)) ''.bak'' then [] else [drop k f @ s])"
| "node_paths k f (Folder_of s ns) = (if str_right 11 (f @ s @ ''/'') = ''/app/cache/'' then []
     else concat (map (node_paths k (f @ s @ ''/'')) ns))"

definition site_paths :: "nat \<Rightarrow> string \<Rightarrow> node list \<Rightarrow> string list" where
  "site_paths k f ns = concat (map (node_paths k f) ns)"

fun node_size :: "node \<Rightarrow> nat" where
  "node_size (File s) = 1"
| "node_size (Folder_of s ns) = 1 + sum_list (map node_size ns)"

text \<open>The files of a folder and its sub-folders.\<close>

fun direct :: "nat \<Rightarrow> string \<Rightarrow> node list \<Rightarrow> string list" where
  "direct k f [] = []"
| "direct k f (File s # ns) = node_paths k f (File s) @ direct k f ns"
| "direct k f (Folder_of s ms # ns) = direct k f ns"

fun subs :: "string \<Rightarrow> node list \<Rightarrow> (string \<times> node list) list" where
  "subs f [] = []"
| "subs f (File s # ns) = subs f ns"
| "subs f (Folder_of s ms # ns) =
     (if str_right 11 (f @ s @ ''/'') = ''/app/cache/'' then [] else [(f @ s @ ''/'', ms)]) @ subs f ns"

lemma scan_entry_dots: "dots e \<Longrightarrow> scan_entry k f e st = st"
  by (auto simp: scan_entry_def dots_def MAX_PATH_def Let_def split: prod.split)

lemma scan_entry_node:
  "\<not> dots e \<Longrightarrow> entry_fits e n \<Longrightarrow> scan_entry k f e (q, m) = (q @ map fst (subs f [n]), fold add_file (direct k f [n]) m)"
  by (cases n) (auto simp: scan_entry_def dots_def MAX_PATH_def Let_def)

lemma fold_scan:
  "list_all2 entry_fits (filter (\<lambda>e. \<not> dots e) es) ns \<Longrightarrow>
   fold (scan_entry k f) es (q, m) = (q @ map fst (subs f ns), fold add_file (direct k f ns) m)"
proof (induction es arbitrary: q m ns)
  case (Cons e es)
  show ?case
  proof (cases "dots e")
    case True
    with Cons show ?thesis by (simp add: scan_entry_dots)
  next
    case False
    with Cons.prems obtain n ns' where n: "ns = n # ns'" "entry_fits e n"
      "list_all2 entry_fits (filter (\<lambda>e. \<not> dots e) es) ns'" by (auto simp: list_all2_Cons1)
    have "subs f (n # ns') = subs f [n] @ subs f ns'" "direct k f (n # ns') = direct k f [n] @ direct k f ns'"
      by (cases n; simp)+
    then show ?thesis using Cons.IH [OF n(3)] scan_entry_node [OF False n(2)] by (simp add: n(1))
  qed
qed simp

lemma site_paths_mset:
  "mset (site_paths k f ns) = mset (direct k f ns) + sum_list (map (\<lambda>(g, ms). mset (site_paths k g ms)) (subs f ns))"
  by (induction f ns rule: subs.induct) (auto simp: site_paths_def)

lemma subs_size: "sum_list (map (\<lambda>(g, ms). Suc (sum_list (map node_size ms))) (subs f ns)) \<le> sum_list (map node_size ns)"
  by (induction f ns rule: subs.induct) auto

lemma subs_hold: "\<forall>n \<in> set ns. holds_below list f n \<Longrightarrow> (g, ms) \<in> set (subs f ns) \<Longrightarrow> holds list g ms"
  by (induction f ns rule: subs.induct) (auto split: if_splits)

lemma fold_add_file:
  "mset (longest_first (fold add_file ps m)) = mset (longest_first m) + mset ps"
  "by_length_ok m \<Longrightarrow> by_length_ok (fold add_file ps m)"
  by (induction ps arbitrary: m) (simp_all add: add_file_mset add_file_ok)

lemma scan_folders_collects:
  assumes "\<forall>(f, ns) \<in> set P. holds list f ns" and "by_length_ok m"
  shows "\<exists>m'. scan_folders list k (map fst P) m = Some m' \<and> by_length_ok m' \<and>
     mset (longest_first m') = mset (longest_first m) + sum_list (map (\<lambda>(f, ns). mset (site_paths k f ns)) P)"
  using assms
proof (induction "sum_list (map (\<lambda>(f, ns). Suc (sum_list (map node_size ns))) P)" arbitrary: P m rule: less_induct)
  case less
  show ?case
  proof (cases P)
    case Nil
    with less.prems show ?thesis by (subst scan_folders.simps) simp
  next
    case (Cons a R)
    obtain f ns where a: "a = (f, ns)" by force
    have h: "list_all2 entry_fits (filter (\<lambda>e. \<not> dots e) (list (f @ ''*.*''))) ns" "\<forall>n \<in> set ns. holds_below list f n"
      using less.prems(1) by (simp_all add: Cons a)
    let ?m = "fold add_file (direct k f ns) m" and ?P = "R @ subs f ns"
    have "sum_list (map (\<lambda>(f, ns). Suc (sum_list (map node_size ns))) ?P) <
        sum_list (map (\<lambda>(f, ns). Suc (sum_list (map node_size ns))) P)"
      using subs_size [of f ns] by (simp add: Cons a)
    moreover have "\<forall>(f, ns) \<in> set ?P. holds list f ns"
      using less.prems(1) subs_hold [OF h(2)] by (auto simp: Cons)
    ultimately obtain m' where "scan_folders list k (map fst ?P) ?m = Some m'" "by_length_ok m'"
      "mset (longest_first m') = mset (longest_first ?m) + sum_list (map (\<lambda>(f, ns). mset (site_paths k f ns)) ?P)"
      using less.hyps [of ?P ?m] fold_add_file(2) [OF less.prems(2)] by blast
    then show ?thesis
      by (subst scan_folders.simps) (simp add: Cons a fold_scan [OF h(1)] fold_add_file site_paths_mset [of k f ns])
  qed
qed

section \<open>From the web root to the server\<close>

lemma write_image_layout:
  assumes "list_all wf_rom (image_files d root ps)" and "image_size (image_files d root ps) < 2 ^ 31"
  shows "write_image d root ps = Some (layout 0 0 (image_files d root ps))"
  using write_files_layout [OF assms(1), of "\<lparr>fBin = [], nFileIndex = 0, nOffsetWrite = 0\<rparr>" 0] assms(2)
  by (auto simp: write_image_def)

lemma image_files_mset: "mset ps = mset qs \<Longrightarrow> mset (image_files d root ps) = mset (image_files d root qs)"
  by (simp add: image_files_def List.map_filter_def)

lemma image_size_mset: "mset rs = mset rs' \<Longrightarrow> image_size rs = image_size rs'"
  unfolding image_size_def by (metis mset_map sum_mset_sum_list)

lemma wf_rom_mset: "mset rs = mset rs' \<Longrightarrow> list_all wf_rom rs = list_all wf_rom rs'"
  by (auto simp: list_all_iff dest: mset_eq_setD)

lemma image_files_sorted:
  "sorted_wrt (\<lambda>p q. length q \<le> length p) ps \<Longrightarrow>
   sorted_wrt (\<lambda>r s. length (rom_name s) \<le> length (rom_name r)) (image_files d root ps)"
proof (induction ps)
  case (Cons p ps)
  have "\<forall>r \<in> set (image_files d root ps). length (rom_name r) \<le> length p"
    using Cons.prems by (auto simp: image_files_def List.map_filter_def)
  with Cons show ?case by (cases "d (root @ drop 1 p)") (simp_all add: image_files_def map_filter_simps)
qed (simp add: image_files_def map_filter_simps)

lemma path_array: "length s < 512 \<Longrightarrow> \<exists>b. c_strcpy (replicate 512 NUL) 0 s = Some b"
  by (simp add: c_strcpy_def c_cpy_def)

text \<open>
  C14. The image tool and the server agree. For a web root that holds the tree \<open>ns\<close>, the tool ends, its C source
  holds exactly the bytes of the image, and the files of the image are the files of the tree without backups
  and without the cache folder, longest names first. On this image the server counts these files, finds the
  first file with a name (or none) by following the offsets, and a read of a found file yields its bytes from
  the read position, as on the list of files that the model of the file access keeps.
\<close>

theorem site_image_served:
  assumes "arg \<noteq> []" and "dest \<noteq> []" and root: "root = trim_folder arg" and "length root < 512"
    and "length (trim_folder dest) + 9 < 512" and tree: "holds list root ns"
    and files: "site = image_files d root (site_paths (length root - 1) root ns)"
    and "list_all wf_rom site" and "image_size site < 2 ^ 31"
  shows "\<exists>bin src rs. straight_buildfs list d arg dest = Some (Some (bin, src)) \<and> array_bytes src = Some bin \<and>
     mset rs = mset site \<and> sorted_wrt (\<lambda>r s. length (rom_name s) \<le> length (rom_name r)) rs \<and>
     count_files bin 0 0 = Some (length rs) \<and>
     (\<forall>name. find_file bin name 0 = Some (map_option (rec_off 0 rs) (find_image name 0 rs))) \<and>
     (\<forall>i < length rs. \<forall>pos n. pos \<le> length (rom_data (rs ! i)) \<longrightarrow>
        read_file bin (rec_off 0 rs i) (of_nat pos) n = Some (take n (drop pos (rom_data (rs ! i)))))"
proof -
  let ?k = "length root - 1"
  obtain m where m: "scan_folders list ?k [root] [] = Some m" "by_length_ok m"
    "mset (longest_first m) = mset (site_paths ?k root ns)"
    using scan_folders_collects [of "[(root, ns)]" list "[]" ?k] tree by (auto simp: by_length_ok_def longest_first_def)
  define rs where "rs = image_files d root (longest_first m)"
  have ms: "mset rs = mset site" unfolding rs_def files by (rule image_files_mset [OF m(3)])
  have wf: "list_all wf_rom rs" "image_size rs < 2 ^ 31"
    using assms(8,9) wf_rom_mset [OF ms] image_size_mset [OF ms] by simp_all
  let ?bin = "layout 0 0 rs"
  have built: "straight_buildfs list d arg dest = Some (Some (?bin, fs_data ?bin))"
    using assms(1-5) m(1) write_image_layout [OF wf [unfolded rs_def]] path_array [of root]
      path_array [of "trim_folder dest @ ''fs.bin''"] path_array [of "trim_folder dest @ ''fs_data.c''"]
    by (auto simp: straight_buildfs_def Let_def rs_def)
  have srt: "sorted_wrt (\<lambda>r s. length (rom_name s) \<le> length (rom_name r)) rs"
    unfolding rs_def by (rule image_files_sorted [OF longest_first_sorted [OF m(2)]])
  have "count_files ?bin 0 0 = Some (length rs)"
    "\<And>name. find_file ?bin name 0 = Some (map_option (rec_off 0 rs) (find_image name 0 rs))"
    using count_files_layout [OF wf(1), of "[]" 0 0] find_file_layout [OF wf(1), of "[]" 0] wf(2) by simp_all
  then show ?thesis
    using built fs_data_bytes [of ?bin] ms srt read_file_layout [OF _ wf(2)] by blast
qed

definition demo_listing :: "string \<Rightarrow> dir_entry list" where
  "demo_listing f = (if f = ''w/*.*'' then [\<lparr>de_folder = False, de_name = ''a.html'', de_size = 2, de_date = 5\<rparr>] else [])"

definition demo_host :: "string \<rightharpoonup> disk_file" where
  "demo_host = [''w/a.html'' \<mapsto> \<lparr>file_data = ''hi'', file_time = 5\<rparr>]"

theorem site_image_served_witness:
  "\<exists>bin src. straight_buildfs demo_listing demo_host ''w'' ''o'' = Some (Some (bin, src)) \<and>
     find_file bin ''/a.html'' 0 = Some (Some 0) \<and> find_file bin ''/b.html'' 0 = Some None \<and>
     read_file bin 0 0 10 = Some ''hi''"
proof -
  let ?r = "rom_of ''/a.html'' \<lparr>file_data = ''hi'', file_time = 5\<rparr>"
  have t: "trim_folder ''w'' = ''w/''" "trim_folder ''o'' = ''o/''" by code_simp+
  have h: "holds demo_listing ''w/'' [File ''a.html'']"
    by (simp add: demo_listing_def dots_def MAX_PATH_def)
  have "site_paths 1 ''w/'' [File ''a.html''] = [''/a.html'']" by code_simp
  then have s: "image_files demo_host ''w/'' (site_paths 1 ''w/'' [File ''a.html'']) = [?r]"
    by (simp add: image_files_def map_filter_simps demo_host_def)
  have w: "list_all wf_rom [?r]" "image_size [?r] < 2 ^ 31"
    by (simp_all add: wf_rom_def MAX_PATH_def rec_size_def path_size_def data_size_def pad4_def)
  obtain bin src rs where b: "straight_buildfs demo_listing demo_host ''w'' ''o'' = Some (Some (bin, src))"
    "mset rs = mset [?r]" "\<And>name. find_file bin name 0 = Some (map_option (rec_off 0 rs) (find_image name 0 rs))"
    "\<And>i pos n. i < length rs \<Longrightarrow> pos \<le> length (rom_data (rs ! i)) \<Longrightarrow>
        read_file bin (rec_off 0 rs i) (of_nat pos) n = Some (take n (drop pos (rom_data (rs ! i))))"
    using site_image_served [of "''w''" "''o''" "''w/''" demo_listing "[File ''a.html'']" "[?r]" demo_host] t h s w by auto
  have rs: "rs = [?r]" using b(2) by simp
  show ?thesis using b(1,3) b(4) [of 0 0 10] unfolding rs by (intro exI [of _ bin] exI [of _ src]) simp
qed

end
