(* ===== verification/DmaQueue.thy ===== *)
theory DmaQueue
  imports SysArch
begin

text \<open>
  The path of an Ethernet frame: \<^verbatim>\<open>straight-httpd.c\<close> queues captured packets for the stack
  (\<open>DMA_push\<close>, \<open>DMA_pop\<close>, \<open>DMA_free\<close>), \<^verbatim>\<open>lwip_api.c\<close> wakes the stack with a
  message (\<open>NotifyFromEthISR\<close>), and \<^verbatim>\<open>netif/ethernetif.c\<close> moves frames between the queue,
  the packet buffers of the stack and the network card. The queue is a linked list in an
  explicit heap: wrappers and packet bytes live at addresses, \<open>free\<close> removes them, and
  reading or freeing what is not allocated is \<^const>\<open>None\<close>. The results of \<^verbatim>\<open>malloc\<close>
  (\<^const>\<open>None\<close> is \<^verbatim>\<open>NULL\<close>) and the packet buffers that lwIP allocates are arguments.
\<close>

section \<open>Data\<close>

definition MAX_DMA_QUEUE :: int where "MAX_DMA_QUEUE = 1024"

record packet_wrapper =
  pw_len :: nat
  pw_packet :: "nat option"
  pw_next :: "nat option"

datatype tcpip_msg = ETHNET_INPUT | TCPIP_MSG_INPKT "char list list" | STACK_MSG nat

record dma =
  wrappers :: "nat \<rightharpoonup> packet_wrapper"
  packets :: "nat \<rightharpoonup> char list"
  g_dmaQueue :: "nat option"
  g_qLength :: int
  tcpip_mbox :: "tcpip_msg sys_mbox_t"
  ethCount :: u32

section \<open>Operations\<close>

definition NotifyFromEthISR :: "dma \<Rightarrow> dma" where
  "NotifyFromEthISR d =
     d\<lparr>tcpip_mbox := snd (sys_mbox_trypost_fromisr ETHNET_INPUT (tcpip_mbox d)),
       ethCount := ethCount d + 1\<rparr>"

text \<open>The walk to the last wrapper of the list.\<close>

partial_function (option) last_wrapper :: "(nat \<rightharpoonup> packet_wrapper) \<Rightarrow> nat \<Rightarrow> nat option" where
  "last_wrapper h prev = do {
     w \<leftarrow> h prev;
     case pw_next w of None \<Rightarrow> Some prev | Some nx \<Rightarrow> last_wrapper h nx }"

declare last_wrapper.simps [code]

definition DMA_push :: "nat option \<Rightarrow> nat option \<Rightarrow> char list \<Rightarrow> dma \<Rightarrow> dma option" where
  "DMA_push mallocWrapper mallocPacket packet d = (case mallocWrapper of
       None \<Rightarrow> Some d
     | Some newPacket \<Rightarrow> (case mallocPacket of
         None \<Rightarrow> Some d
       | Some pkt \<Rightarrow>
           do { let d = d\<lparr>wrappers := (wrappers d)(newPacket \<mapsto>
                       \<lparr>pw_len = length packet, pw_packet = Some pkt, pw_next = None\<rparr>),
                     packets := (packets d)(pkt \<mapsto> packet)\<rparr>;
                d \<leftarrow> (if g_qLength d < MAX_DMA_QUEUE
                     then (case g_dmaQueue d of
                         None \<Rightarrow> Some (d\<lparr>g_qLength := g_qLength d + 1, g_dmaQueue := Some newPacket\<rparr>)
                       | Some first \<Rightarrow>
                           do { prev \<leftarrow> last_wrapper (wrappers d) first;
                                w \<leftarrow> wrappers d prev;
                                Some (d\<lparr>g_qLength := g_qLength d + 1,
                                  wrappers := (wrappers d)(prev \<mapsto> w\<lparr>pw_next := Some newPacket\<rparr>)\<rparr>) })
                     else Some d);
                Some (NotifyFromEthISR d) }))"

definition DMA_pop :: "dma \<Rightarrow> (nat option \<times> dma) option" where
  "DMA_pop d = (case g_dmaQueue d of
       None \<Rightarrow> Some (None, d)
     | Some pkt \<Rightarrow>
         do { w \<leftarrow> wrappers d pkt;
              Some (Some pkt, d\<lparr>g_dmaQueue := pw_next w,
                 wrappers := (wrappers d)(pkt \<mapsto> w\<lparr>pw_next := None\<rparr>),
                 g_qLength := g_qLength d - 1\<rparr>) })"

definition free_packet :: "nat option \<Rightarrow> dma \<Rightarrow> dma option" where
  "free_packet p d = (case p of
       None \<Rightarrow> Some d
     | Some a \<Rightarrow> if packets d a = None then None else Some (d\<lparr>packets := (packets d)(a := None)\<rparr>))"

partial_function (option) DMA_free :: "nat option \<Rightarrow> dma \<Rightarrow> dma option" where
  "DMA_free prev d = (case prev of
       None \<Rightarrow> Some d
     | Some a \<Rightarrow>
         do { w \<leftarrow> wrappers d a;
              d \<leftarrow> free_packet (pw_packet w) d;
              DMA_free (pw_next w) (d\<lparr>wrappers := (wrappers d)(a := None)\<rparr>) })"

declare DMA_free.simps [code]

section \<open>The network interface\<close>

text \<open>
  The copy into the 1600-byte send buffer, payload after payload. \<open>NIC_GetBuffer\<close> may fail;
  then nothing is sent. The result is the frame handed to the network card.
\<close>

fun output_loop :: "char list list \<Rightarrow> cbuf \<Rightarrow> nat \<Rightarrow> (nat \<times> cbuf) option" where
  "output_loop [] buffer l = Some (l, buffer)"
| "output_loop (payload # p) buffer l =
     do { buffer \<leftarrow> c_cpy buffer l payload; output_loop p buffer (l + length payload) }"

definition low_level_output :: "cbuf option \<Rightarrow> char list list \<Rightarrow> char list option option" where
  "low_level_output nicBuffer p = (case nicBuffer of
       None \<Rightarrow> Some None
     | Some buffer \<Rightarrow>
         do { (l, buffer) \<leftarrow> output_loop p buffer 0;
              frame \<leftarrow> c_bytes buffer 0 l;
              Some (Some frame) })"

text \<open>
  The copy out of the packet into a chain of packet buffers of the given lengths.
\<close>

fun input_loop :: "nat list \<Rightarrow> char list \<Rightarrow> nat \<Rightarrow> char list list option" where
  "input_loop [] buffer l = Some []"
| "input_loop (n # q) buffer l =
     do { payload \<leftarrow> c_bytes buffer l n; rest \<leftarrow> input_loop q buffer (l + n); Some (payload # rest) }"

text \<open>
  \<open>pbuf_alloc\<close> is the allocator of the stack: for a length it gives the lengths of the
  buffers of a chain, or \<^const>\<open>None\<close> when the pool is exhausted.
\<close>

definition low_level_input ::
  "(nat \<Rightarrow> nat list option) \<Rightarrow> dma \<Rightarrow> (char list list option \<times> dma) option" where
  "low_level_input pbuf_alloc d =
     do { (pkt, d) \<leftarrow> DMA_pop d;
          case pkt of
            None \<Rightarrow> Some (None, d)
          | Some a \<Rightarrow>
              do { w \<leftarrow> wrappers d a;
                   p \<leftarrow> (case pbuf_alloc (pw_len w) of
                         None \<Rightarrow> Some None
                       | Some q \<Rightarrow> do { b \<leftarrow> pw_packet w; buffer \<leftarrow> packets d b;
                                        map_option Some (input_loop q buffer 0) });
                   d \<leftarrow> DMA_free (Some a) d;
                   Some (p, d) } }"

section \<open>The linked list\<close>

text \<open>
  From the pointer \<open>p\<close> a list of wrappers starts, given with their addresses, the addresses
  of their packets and the bytes.
\<close>

fun dq :: "(nat \<rightharpoonup> packet_wrapper) \<Rightarrow> (nat \<rightharpoonup> char list) \<Rightarrow> nat option \<Rightarrow>
    (nat \<times> nat \<times> char list) list \<Rightarrow> bool" where
  "dq h k p [] \<longleftrightarrow> p = None"
| "dq h k p ((a, b, m) # xs) \<longleftrightarrow> p = Some a \<and>
     (\<exists>w. h a = Some w \<and> pw_packet w = Some b \<and> pw_len w = length m \<and> k b = Some m \<and>
          dq h k (pw_next w) xs)"

abbreviation addrs :: "(nat \<times> nat \<times> char list) list \<Rightarrow> nat list" where "addrs \<equiv> map fst"
abbreviation bufs :: "(nat \<times> nat \<times> char list) list \<Rightarrow> nat list" where "bufs \<equiv> map (fst \<circ> snd)"
abbreviation bytes :: "(nat \<times> nat \<times> char list) list \<Rightarrow> char list list" where "bytes \<equiv> map (snd \<circ> snd)"

lemma dq_frame_wrapper: "a \<notin> set (addrs xs) \<Longrightarrow> dq (h(a := v)) k p xs = dq h k p xs"
  by (induction xs arbitrary: p) auto

lemma dq_frame_packet: "b \<notin> set (bufs xs) \<Longrightarrow> dq h (k(b := v)) p xs = dq h k p xs"
  by (induction xs arbitrary: p) auto

lemma dq_allocated:
  "dq h k p xs \<Longrightarrow> a \<in> set (addrs xs) \<Longrightarrow> h a \<noteq> None"
  "dq h k p xs \<Longrightarrow> b \<in> set (bufs xs) \<Longrightarrow> k b \<noteq> None"
  by (induction xs arbitrary: p) fastforce+

lemma dq_last:
  "dq h k (Some p) (xs @ [(l, b, m)]) \<Longrightarrow> last_wrapper h p = Some l \<and> (\<exists>w. h l = Some w \<and> pw_next w = None)"
proof (induction xs arbitrary: p)
  case Nil
  then show ?case by (auto simp: last_wrapper.simps [of h l])
next
  case (Cons x xs)
  obtain a b' m' where x: "x = (a, b', m')" by (cases x)
  from Cons.prems x obtain w where w: "p = a" "h a = Some w" "dq h k (pw_next w) (xs @ [(l, b, m)])"
    by auto
  then obtain p' where p': "pw_next w = Some p'" by (cases xs) auto
  with w Cons.IH [of p'] show ?case by (simp add: last_wrapper.simps [of h a])
qed

lemma dq_append:
  assumes "dq h k p (xs @ [(l, b, m)])" "distinct (addrs (xs @ [(l, b, m)]))"
    and "h l = Some w" "h n = Some \<lparr>pw_len = length m', pw_packet = Some b', pw_next = None\<rparr>"
    and "k b' = Some m'" "n \<noteq> l"
  shows "dq (h(l \<mapsto> w\<lparr>pw_next := Some n\<rparr>)) k p (xs @ [(l, b, m), (n, b', m')])"
  using assms
proof (induction xs arbitrary: p)
  case Nil
  then show ?case by auto
next
  case (Cons x xs)
  obtain a c e where "x = (a, c, e)" by (cases x)
  with Cons show ?case by auto
qed

fun walk :: "nat \<Rightarrow> (nat \<rightharpoonup> packet_wrapper) \<Rightarrow> nat option \<Rightarrow> nat list" where
  "walk 0 h p = []"
| "walk (Suc n) h p = (case p of None \<Rightarrow> []
     | Some a \<Rightarrow> a # (case h a of None \<Rightarrow> [] | Some w \<Rightarrow> walk n h (pw_next w)))"

lemma walk_dq: "dq h k p xs \<Longrightarrow> walk (length xs) h p = addrs xs"
  by (induction xs arbitrary: p) auto

definition dma_contents :: "dma \<Rightarrow> char list list" where
  "dma_contents d = map (\<lambda>a. the (packets d (the (pw_packet (the (wrappers d a))))))
     (walk (nat (g_qLength d)) (wrappers d) (g_dmaQueue d))"

definition dma_list :: "dma \<Rightarrow> (nat \<times> nat \<times> char list) list \<Rightarrow> bool" where
  "dma_list d xs \<longleftrightarrow> dq (wrappers d) (packets d) (g_dmaQueue d) xs \<and> distinct (addrs xs) \<and>
     distinct (bufs xs) \<and> g_qLength d = int (length xs)"

definition dma_inv :: "dma \<Rightarrow> bool" where
  "dma_inv d \<longleftrightarrow> (\<exists>xs. dma_list d xs \<and> int (length xs) \<le> MAX_DMA_QUEUE)"

lemma dq_bytes: "dq h k p xs \<Longrightarrow> map (\<lambda>a. the (k (the (pw_packet (the (h a)))))) (addrs xs) = bytes xs"
  by (induction xs arbitrary: p) (fastforce simp del: map_map)+

lemma dma_contents_list: "dma_list d xs \<Longrightarrow> dma_contents d = bytes xs"
  by (auto simp: dma_list_def dma_contents_def walk_dq dq_bytes simp del: map_map)

lemma notify_sel [simp]:
  "wrappers (NotifyFromEthISR d) = wrappers d" "packets (NotifyFromEthISR d) = packets d"
  "g_dmaQueue (NotifyFromEthISR d) = g_dmaQueue d" "g_qLength (NotifyFromEthISR d) = g_qLength d"
  by (simp_all add: NotifyFromEthISR_def)

lemma dma_list_notify [simp]: "dma_list (NotifyFromEthISR d) xs = dma_list d xs"
  by (simp add: dma_list_def)

lemma DMA_push_room:
  assumes "dma_list d xs" "int (length xs) < MAX_DMA_QUEUE" "wrappers d n = None" "packets d b = None"
  shows "\<exists>d'. DMA_push (Some n) (Some b) m d = Some d' \<and> dma_list d' (xs @ [(n, b, m)])"
proof -
  have D: "dq (wrappers d) (packets d) (g_dmaQueue d) xs" "distinct (addrs xs)" "distinct (bufs xs)"
    "g_qLength d = int (length xs)" using assms(1) by (auto simp: dma_list_def)
  have f: "n \<notin> set (addrs xs)" "b \<notin> set (bufs xs)"
    using dq_allocated [OF D(1)] assms(3,4) by blast+
  let ?w = "\<lparr>pw_len = length m, pw_packet = Some b, pw_next = None\<rparr>"
  let ?h = "(wrappers d)(n \<mapsto> ?w)" and ?k = "(packets d)(b \<mapsto> m)"
  have D': "dq ?h ?k (g_dmaQueue d) xs"
    using D(1) dq_frame_wrapper [OF f(1)] dq_frame_packet [OF f(2)] by blast
  show ?thesis
  proof (cases xs rule: rev_cases)
    case Nil
    with D assms(2) show ?thesis by (auto simp: DMA_push_def dma_list_def)
  next
    case (snoc ys y)
    obtain l c e where y: "y = (l, c, e)" by (cases y)
    obtain p where p: "g_dmaQueue d = Some p" using D(1) snoc y by (cases ys) auto
    from D' snoc y p have D2: "dq ?h ?k (Some p) (ys @ [(l, c, e)])" by simp
    from dq_last [OF D2] obtain w where l: "last_wrapper ?h p = Some l" "?h l = Some w" by blast
    have ne: "n \<noteq> l" using f(1) snoc y by auto
    have dist: "distinct (addrs (ys @ [(l, c, e)]))" using D(2) snoc y by simp
    have new: "?h n = Some ?w" "?k b = Some m" by simp_all
    have "dq (?h(l \<mapsto> w\<lparr>pw_next := Some n\<rparr>)) ?k (Some p) (ys @ [(l, c, e), (n, b, m)])"
      by (rule dq_append [OF D2 dist l(2) new ne])
    then show ?thesis
      using D assms(2) p l f snoc y by (auto simp: DMA_push_def dma_list_def)
  qed
qed

lemma DMA_push_full:
  assumes "dma_list d xs" "int (length xs) = MAX_DMA_QUEUE" "wrappers d n = None" "packets d b = None"
  shows "\<exists>d'. DMA_push (Some n) (Some b) m d = Some d' \<and> dma_list d' xs \<and>
     wrappers d' n \<noteq> None \<and> packets d' b = Some m"
proof -
  have D: "dq (wrappers d) (packets d) (g_dmaQueue d) xs" using assms(1) by (auto simp: dma_list_def)
  then have "n \<notin> set (addrs xs)" "b \<notin> set (bufs xs)"
    using dq_allocated [OF D] assms(3,4) by blast+
  with assms show ?thesis
    by (simp add: DMA_push_def dma_list_def dq_frame_wrapper dq_frame_packet)
qed

lemma DMA_pop_empty: "dma_list d [] \<Longrightarrow> DMA_pop d = Some (None, d)"
  by (simp add: DMA_pop_def dma_list_def)

lemma DMA_pop_list:
  assumes "dma_list d ((a, b, m) # xs)"
  shows "\<exists>d1 w. DMA_pop d = Some (Some a, d1) \<and> wrappers d1 a = Some w \<and> pw_packet w = Some b \<and>
     pw_len w = length m \<and> packets d1 b = Some m \<and>
     (\<exists>d2. DMA_free (Some a) d1 = Some d2 \<and> dma_list d2 xs \<and>
        wrappers d2 = (wrappers d)(a := None) \<and> packets d2 = (packets d)(b := None))"
proof -
  from assms obtain w where w: "wrappers d a = Some w" "pw_packet w = Some b" "pw_len w = length m"
    "packets d b = Some m" "dq (wrappers d) (packets d) (pw_next w) xs" "g_dmaQueue d = Some a"
    and D: "a \<notin> set (addrs xs)" "b \<notin> set (bufs xs)" "distinct (addrs xs)" "distinct (bufs xs)"
    "g_qLength d = int (length xs) + 1" by (auto simp: dma_list_def)
  have fr: "dq ((wrappers d)(a := None)) ((packets d)(b := None)) (pw_next w) xs"
    using w(5) D(1,2) by (simp add: dq_frame_wrapper dq_frame_packet)
  let ?d1 = "d\<lparr>g_dmaQueue := pw_next w, wrappers := (wrappers d)(a \<mapsto> w\<lparr>pw_next := None\<rparr>),
     g_qLength := g_qLength d - 1\<rparr>"
  have "DMA_pop d = Some (Some a, ?d1)" using w by (simp add: DMA_pop_def)
  moreover have "DMA_free (Some a) ?d1 = Some (?d1\<lparr>packets := (packets d)(b := None), wrappers := (wrappers d)(a := None)\<rparr>)"
    using w by (simp add: DMA_free.simps [of "Some a"] DMA_free.simps [of None] free_packet_def)
  ultimately show ?thesis using w D fr by (simp add: dma_list_def)
qed

definition dma_put :: "nat \<times> nat \<Rightarrow> char list \<Rightarrow> dma \<Rightarrow> (bool \<times> dma) option" where
  "dma_put e m d = do { d' \<leftarrow> DMA_push (Some (fst e)) (Some (snd e)) m d;
     Some (g_qLength d' \<noteq> g_qLength d, d') }"

definition dma_get :: "dma \<Rightarrow> (char list option \<times> dma) option" where
  "dma_get d = do { (p, d) \<leftarrow> DMA_pop d;
     case p of None \<Rightarrow> Some (None, d)
     | Some a \<Rightarrow> do { w \<leftarrow> wrappers d a; b \<leftarrow> pw_packet w; m \<leftarrow> packets d b;
                     d \<leftarrow> DMA_free (Some a) d; Some (Some m, d) } }"

text \<open>What the allocator promises: addresses that are not in use.\<close>

definition malloc_ok :: "nat \<times> nat \<Rightarrow> dma \<Rightarrow> bool" where
  "malloc_ok e d \<longleftrightarrow> wrappers d (fst e) = None \<and> packets d (snd e) = None"

lemma dma_invE:
  assumes "dma_inv d"
  obtains xs where "dma_list d xs" "length xs \<le> 1024" "dma_contents d = bytes xs"
  using assms dma_contents_list by (auto simp: dma_inv_def MAX_DMA_QUEUE_def)

lemma dma_invI: "dma_list d xs \<Longrightarrow> length xs \<le> 1024 \<Longrightarrow> dma_inv d"
  by (auto simp: dma_inv_def MAX_DMA_QUEUE_def)

interpretation dma_queue: bounded_fifo dma_inv dma_contents 1024 malloc_ok dma_put dma_get
proof unfold_locales
  fix d e m
  assume i: "dma_inv d" and e: "malloc_ok e d" and room: "length (dma_contents d) < 1024"
  obtain xs where xs: "dma_list d xs" "length xs \<le> 1024" "dma_contents d = bytes xs"
    using i by (rule dma_invE)
  then have "length xs < 1024" using room by simp
  moreover obtain d' where "DMA_push (Some (fst e)) (Some (snd e)) m d = Some d'"
    "dma_list d' (xs @ [(fst e, snd e, m)])"
    using DMA_push_room [OF xs(1), of "fst e" "snd e" m] e calculation
    by (auto simp: malloc_ok_def MAX_DMA_QUEUE_def)
  moreover have "g_qLength d' \<noteq> g_qLength d" using calculation xs(1) by (simp add: dma_list_def)
  ultimately show "\<exists>s'. dma_put e m d = Some (True, s') \<and> dma_inv s' \<and> dma_contents s' = dma_contents d @ [m]"
    using xs(3) dma_contents_list [of d' "xs @ [(fst e, snd e, m)]"] dma_invI [of d' "xs @ [(fst e, snd e, m)]"]
    by (simp add: dma_put_def)
next
  fix d e m
  assume i: "dma_inv d" and e: "malloc_ok e d" and full: "1024 \<le> length (dma_contents d)"
  obtain xs where xs: "dma_list d xs" "length xs \<le> 1024" "dma_contents d = bytes xs"
    using i by (rule dma_invE)
  then have "int (length xs) = MAX_DMA_QUEUE" using full by (simp add: MAX_DMA_QUEUE_def)
  then obtain d' where "DMA_push (Some (fst e)) (Some (snd e)) m d = Some d'" "dma_list d' xs"
    using DMA_push_full [OF xs(1), of "fst e" "snd e" m] e by (auto simp: malloc_ok_def)
  then show "\<exists>s'. dma_put e m d = Some (False, s') \<and> dma_inv s' \<and> dma_contents s' = dma_contents d"
    using xs dma_contents_list [of d' xs] dma_invI [of d' xs] by (simp add: dma_put_def dma_list_def)
next
  fix d m ms
  assume "dma_inv d" and c: "dma_contents d = m # ms"
  then obtain xs where xs: "dma_list d xs" "length xs \<le> 1024" "dma_contents d = bytes xs" by (auto elim: dma_invE)
  with c obtain a b ys where ys: "xs = (a, b, m) # ys" "bytes ys = ms" by (cases xs) auto
  from DMA_pop_list [of d a b m ys] xs(1) ys(1) obtain d1 w d2 where
    "DMA_pop d = Some (Some a, d1)" "wrappers d1 a = Some w" "pw_packet w = Some b" "packets d1 b = Some m"
    "DMA_free (Some a) d1 = Some d2" "dma_list d2 ys" by auto
  then show "\<exists>s'. dma_get d = Some (Some m, s') \<and> dma_inv s' \<and> dma_contents s' = ms"
    using xs(2) ys dma_contents_list [of d2 ys] dma_invI [of d2 ys] by (simp add: dma_get_def)
next
  fix d
  assume "dma_inv d" "dma_contents d = []"
  then show "dma_get d = Some (None, d)"
    by (auto elim!: dma_invE simp: dma_get_def DMA_pop_empty)
next
  fix d
  assume "dma_inv d"
  then show "length (dma_contents d) \<le> 1024" by (auto elim: dma_invE)
qed

section \<open>Properties\<close>

text \<open>
  C23. The packet queue is first-in first-out with room for exactly 1024 packets: whatever
  sequence of captures and receptions runs on a well-formed queue, with an allocator that
  hands out unused addresses, no step is undefined (no access to what is not allocated, no
  walk without end), a packet is accepted exactly while fewer than 1024 wait, a reception
  takes the oldest one and fails exactly when none waits, and the packets are what the same
  run of the plain list holds, byte for byte; so the accepted packets behind the old contents
  are the delivered packets followed by the new contents.
\<close>

theorem dma_queue_fifo:
  assumes "dma_inv d" and "env_follows malloc_ok dma_put dma_get ops d"
  shows "\<exists>ins outs d'. fifo_run malloc_ok dma_put dma_get ops d = Some (ins, outs, d') \<and> dma_inv d' \<and>
    list_run 1024 ops (dma_contents d) = (ins, outs, dma_contents d') \<and>
    dma_contents d @ ins = outs @ dma_contents d' \<and> length (dma_contents d') \<le> 1024"
  using dma_queue.run_refines [OF assms] dma_queue.run_fifo [OF assms(1)] by blast

definition empty_dma :: dma where
  "empty_dma = \<lparr>wrappers = Map.empty, packets = Map.empty, g_dmaQueue = None, g_qLength = 0,
     tcpip_mbox = \<lparr>mbox_sem = Some 0, q_mem = replicate MAX_QUEUE_ENTRIES None, mbox_head = 0, mbox_tail = 0\<rparr>,
     ethCount = 0\<rparr>"

lemma empty_dma_inv: "dma_inv empty_dma" "dma_contents empty_dma = []" "dma_list empty_dma []"
  by (simp_all add: empty_dma_def dma_inv_def dma_list_def dma_contents_def MAX_DMA_QUEUE_def)

theorem dma_queue_fifo_witness:
  "\<exists>d'. fifo_run malloc_ok dma_put dma_get
      [Put (1, 1) ''ab'', Put (2, 2) ''cde'', Get, Get, Get, Put (2, 1) ''f''] empty_dma =
    Some ([''ab'', ''cde'', ''f''], [''ab'', ''cde''], d') \<and> dma_contents d' = [''f'']"
proof -
  let ?ops = "[Put (1, 1) ''ab'', Put (2, 2) ''cde'', Get, Get, Get, Put (2, 1) ''f''] :: (nat \<times> nat, char list) fifo_op list"
  have "env_follows malloc_ok dma_put dma_get ?ops empty_dma"
    by (simp add: empty_dma_def malloc_ok_def dma_put_def dma_get_def DMA_push_def DMA_pop_def free_packet_def
        MAX_DMA_QUEUE_def last_wrapper.simps [of _ "Suc 0"] DMA_free.simps [of "Some _"] DMA_free.simps [of None] Let_def)
  from dma_queue_fifo [OF empty_dma_inv(1) this] show ?thesis by (auto simp: empty_dma_inv(2) simp del: fifo_run.simps)
qed

text \<open>
  A packet that arrives at a full queue is not only dropped: its wrapper and its bytes
  stay allocated and no pointer of the queue leads to them.
\<close>

theorem DMA_push_full_leaks:
  assumes "dma_inv d" "length (dma_contents d) = 1024" "malloc_ok (n, b) d"
  shows "\<exists>d'. DMA_push (Some n) (Some b) m d = Some d' \<and> dma_contents d' = dma_contents d \<and>
    wrappers d' n \<noteq> None \<and> packets d' b = Some m \<and>
    n \<notin> set (walk (nat (g_qLength d')) (wrappers d') (g_dmaQueue d'))"
proof -
  obtain xs where xs: "dma_list d xs" "dma_contents d = bytes xs" using assms(1) by (rule dma_invE)
  then have l: "int (length xs) = MAX_DMA_QUEUE" using assms(2) by (simp add: MAX_DMA_QUEUE_def)
  obtain d' where d': "DMA_push (Some n) (Some b) m d = Some d'" "dma_list d' xs"
    "wrappers d' n \<noteq> None" "packets d' b = Some m"
    using DMA_push_full [OF xs(1) l, of n b m] assms(3) by (auto simp: malloc_ok_def)
  moreover have "walk (nat (g_qLength d')) (wrappers d') (g_dmaQueue d') = addrs xs"
    using d'(2) walk_dq by (auto simp: dma_list_def)
  moreover have "n \<notin> set (addrs xs)"
    using dq_allocated(1) [of "wrappers d" "packets d" "g_dmaQueue d" xs n] xs(1) assms(3)
    by (auto simp: dma_list_def malloc_ok_def)
  ultimately show ?thesis using dma_contents_list [of d' xs] xs(2) by simp
qed

text \<open>A full queue of one-byte packets, the \<open>i\<close>-th wrapper at address \<open>i\<close>.\<close>

definition full_dma :: dma where
  "full_dma = empty_dma\<lparr>wrappers := (\<lambda>a. if a < 1024 then Some \<lparr>pw_len = 1, pw_packet = Some a,
       pw_next = (if a = 1023 then None else Some (Suc a))\<rparr> else None),
     packets := (\<lambda>b. if b < 1024 then Some ''x'' else None),
     g_dmaQueue := Some 0, g_qLength := 1024\<rparr>"

lemma dq_full:
  "k \<le> 1024 \<Longrightarrow> dq (wrappers full_dma) (packets full_dma) (if k = 0 then None else Some (1024 - k))
     (map (\<lambda>i. (i, i, ''x'')) [1024 - k..<1024])"
proof (induction k)
  case 0
  then show ?case by simp
next
  case (Suc k)
  have u: "[1024 - Suc k..<1024] = (1024 - Suc k) # [1024 - k..<1024]"
    using Suc.prems upt_conv_Cons [of "1024 - Suc k" 1024] Suc_diff_Suc [of k 1024] by simp
  have e: "Suc (1023 - k) = 1024 - k" using Suc.prems by arith
  show ?case using Suc unfolding u by (cases "k = 0") (auto simp: full_dma_def e)
qed

lemma full_dma_list: "dma_list full_dma (map (\<lambda>i. (i, i, ''x'')) [0..<1024])"
  using dq_full [of 1024] by (simp add: dma_list_def full_dma_def distinct_map comp_def)

theorem DMA_push_full_leaks_witness:
  "\<exists>d'. DMA_push (Some 5000) (Some 5000) ''y'' full_dma = Some d' \<and> wrappers d' 5000 \<noteq> None"
proof -
  have i: "dma_inv full_dma" by (rule dma_invI [OF full_dma_list]) simp
  have l: "length (dma_contents full_dma) = 1024" using dma_contents_list [OF full_dma_list] by simp
  have m: "malloc_ok (5000, 5000) full_dma" by (simp add: malloc_ok_def full_dma_def empty_dma_def)
  from DMA_push_full_leaks [OF i l m, of "''y''"] show ?thesis by blast
qed

lemma input_loop_spec:
  "l + sum_list q \<le> length b \<Longrightarrow> \<exists>segs. input_loop q b l = Some segs \<and>
     concat segs = take (sum_list q) (drop l b) \<and> map length segs = q"
proof (induction q arbitrary: l)
  case Nil
  then show ?case by simp
next
  case (Cons n q)
  have "l + n + sum_list q \<le> length b" using Cons.prems by simp
  from Cons.IH [OF this] obtain segs where s: "input_loop q b (l + n) = Some segs"
    "concat segs = take (sum_list q) (drop (l + n) b)" "map length segs = q" by blast
  have "take n (drop l b) @ take (sum_list q) (drop (l + n) b) = take (n + sum_list q) (drop l b)"
    by (simp add: take_add add.commute)
  with s Cons.prems show ?case by (simp add: c_bytes_def)
qed

lemma low_level_input_spec:
  assumes "dma_inv d" and "\<forall>n lens. pbuf_alloc n = Some lens \<longrightarrow> sum_list lens = n"
  shows "case dma_contents d of
      [] \<Rightarrow> low_level_input pbuf_alloc d = Some (None, d)
    | m # ms \<Rightarrow> \<exists>p d' a w b. low_level_input pbuf_alloc d = Some (p, d') \<and> dma_inv d' \<and> dma_contents d' = ms \<and>
        g_dmaQueue d = Some a \<and> wrappers d a = Some w \<and> pw_packet w = Some b \<and> packets d b = Some m \<and>
        wrappers d' = (wrappers d)(a := None) \<and> packets d' = (packets d)(b := None) \<and>
        (case pbuf_alloc (length m) of
           None \<Rightarrow> p = None
         | Some lens \<Rightarrow> \<exists>segs. p = Some segs \<and> concat segs = m \<and> map length segs = lens)"
proof -
  obtain xs where xs: "dma_list d xs" "length xs \<le> 1024" "dma_contents d = bytes xs"
    using assms(1) by (rule dma_invE)
  show ?thesis
  proof (cases xs)
    case Nil
    then show ?thesis using xs by (simp add: low_level_input_def DMA_pop_empty)
  next
    case (Cons x ys)
    obtain a b m where x: "x = (a, b, m)" by (cases x)
    from DMA_pop_list [of d a b m ys] xs(1) Cons x obtain d1 w d2 where
      p: "DMA_pop d = Some (Some a, d1)" "wrappers d1 a = Some w" "pw_packet w = Some b" "pw_len w = length m"
      "packets d1 b = Some m" "DMA_free (Some a) d1 = Some d2" "dma_list d2 ys"
      "wrappers d2 = (wrappers d)(a := None)" "packets d2 = (packets d)(b := None)" by auto
    obtain w0 where h: "g_dmaQueue d = Some a" "wrappers d a = Some w0" "pw_packet w0 = Some b" "packets d b = Some m"
      using xs(1) Cons x by (auto simp: dma_list_def)
    have i: "dma_inv d2" "dma_contents d2 = bytes ys"
      using p(7) xs(2) Cons dma_contents_list dma_invI by auto
    show ?thesis
    proof (cases "pbuf_alloc (length m)")
      case None
      then show ?thesis using xs(3) Cons x p i h by (simp add: low_level_input_def)
    next
      case (Some lens)
      then have "sum_list lens = length m" using assms(2) by blast
      with input_loop_spec [of 0 lens m] obtain segs where
        "input_loop lens m 0 = Some segs" "concat segs = m" "map length segs = lens" by auto
      then show ?thesis using xs(3) Cons x p i h Some by (simp add: low_level_input_def)
    qed
  qed
qed

text \<open>
  C24. Receiving: the oldest queued packet is taken off the queue, and its wrapper and its bytes
  are freed, these two allocations and no other; its bytes fill the chain of buffers that the
  stack allocates for its length, in order and completely; without a buffer the packet is
  dropped and still freed, without a packet nothing happens.
\<close>

theorem low_level_input_delivers:
  assumes "dma_inv d" and "\<forall>n lens. pbuf_alloc n = Some lens \<longrightarrow> sum_list lens = n"
  shows "case dma_contents d of
      [] \<Rightarrow> low_level_input pbuf_alloc d = Some (None, d)
    | m # ms \<Rightarrow> \<exists>p d' a w b. low_level_input pbuf_alloc d = Some (p, d') \<and> dma_inv d' \<and> dma_contents d' = ms \<and>
        g_dmaQueue d = Some a \<and> wrappers d a = Some w \<and> pw_packet w = Some b \<and> packets d b = Some m \<and>
        wrappers d' = (wrappers d)(a := None) \<and> packets d' = (packets d)(b := None) \<and>
        (case pbuf_alloc (length m) of
           None \<Rightarrow> p = None
         | Some lens \<Rightarrow> \<exists>segs. p = Some segs \<and> concat segs = m \<and> map length segs = lens)"
  by (rule low_level_input_spec [OF assms])

theorem low_level_input_delivers_witness:
  "\<exists>p d'. low_level_input (\<lambda>n. Some [n]) full_dma = Some (p, d') \<and> p = Some [''x''] \<and>
     wrappers d' 0 = None \<and> packets d' 0 = None \<and> wrappers d' 1 \<noteq> None"
proof -
  have i: "dma_inv full_dma" by (rule dma_invI [OF full_dma_list]) simp
  have "dma_contents full_dma = replicate (Suc 1023) ''x''"
    using dma_contents_list [OF full_dma_list] by (simp add: comp_def map_replicate_const)
  then have c: "dma_contents full_dma = ''x'' # replicate 1023 ''x''" by (simp only: replicate_Suc)
  have a: "\<forall>n lens. (\<lambda>n. Some [n]) n = Some lens \<longrightarrow> sum_list lens = n" by simp
  from low_level_input_delivers [OF i a] c obtain p d' segs w b where
    "low_level_input (\<lambda>n. Some [n]) full_dma = Some (p, d')" "p = Some segs" "concat segs = ''x''" "map length segs = [1]"
    "wrappers full_dma 0 = Some w" "pw_packet w = Some b"
    "wrappers d' = (wrappers full_dma)(0 := None)" "packets d' = (packets full_dma)(b := None)"
    by (auto simp: full_dma_def simp del: upt_Suc replicate_Suc)
  moreover from this have "segs = [''x'']" by (cases segs) auto
  moreover have "b = 0" using calculation by (auto simp: full_dma_def)
  moreover have "wrappers full_dma 1 \<noteq> None" by (simp add: full_dma_def)
  ultimately show ?thesis by auto
qed

text \<open>
  Sending: the frame on the wire is the concatenation of the payloads of the chain, and the
  copy stays inside the card's buffer exactly if their total length does; a longer chain
  overruns it.
\<close>

theorem low_level_output_frame:
  "low_level_output (Some buffer) p =
     (if sum_list (map length p) \<le> length buffer then Some (Some (concat p)) else None)"
proof -
  have "output_loop p b l = (if l + sum_list (map length p) \<le> length b
      then Some (l + sum_list (map length p), take l b @ concat p @ drop (l + sum_list (map length p)) b)
      else None)" if "l \<le> length b" for b l
    using that
  proof (induction p arbitrary: b l)
    case Nil
    then show ?case by simp
  next
    case (Cons x p)
    then show ?case by (auto simp: c_cpy_def ac_simps)
  qed
  from this [of 0 buffer] show ?thesis
    by (simp add: low_level_output_def c_bytes_def length_concat)
qed

end
