(* ===== verification/Capture.thy ===== *)
theory Capture
  imports DmaQueue LwipApi
begin

text \<open>
  The thread of \<open>main\<close> in \<^verbatim>\<open>straight-httpd.c\<close> and its meeting with the thread of the stack: the choice of
  the capture device, the loop that queues packets, and the way of a packet from the queue through the
  mailbox to lwIP (\<^verbatim>\<open>ethernetif.c\<close>, the lines of \<^verbatim>\<open>tcpip.c\<close> added for it, \<^verbatim>\<open>lwip_api.c\<close>). The answers of
  the capture library, of the allocators, of the keyboard and of the clock are arguments.
\<close>

unbundle bit_operations_syntax

section \<open>The start of the program\<close>

definition WEB_FOLDER :: string where
  "WEB_FOLDER = ''D:/straight/straight-httpd/straight-httpd/straight-httpd/httpd/''"

text \<open>\<^verbatim>\<open>_splitpath\<close>: the drive and the folder of a path, the latter up to its last separator.\<close>

definition is_separator :: "char \<Rightarrow> bool" where
  "is_separator c \<longleftrightarrow> c = CHR ''/'' \<or> c = CHR 0x5C"

definition split_drive :: "string \<Rightarrow> string \<times> string" where
  "split_drive p = (if 2 \<le> length p \<and> p ! 1 = CHR '':'' then (take 2 p, drop 2 p) else ([], p))"

definition split_dir :: "string \<Rightarrow> string" where
  "split_dir p = rev (dropWhile (\<lambda>c. \<not> is_separator c) (rev p))"

text \<open>
  The folder above the folder of the program, with slashes. A program name without a folder makes the code
  look at the byte before the array.
\<close>

definition program_folder :: "string \<Rightarrow> string option" where
  "program_folder argv0 =
     (let (drive, rest) = split_drive argv0; dir = split_dir rest
      in if dir = [] then None
         else let dir = (if last dir = CHR 0x5C then butlast dir else dir);
                  (drive, rest) = split_drive (drive @ dir);
                  path = drive @ split_dir rest
              in Some (map (\<lambda>c. if c = CHR 0x5C then CHR ''/'' else c) path))"

definition folder_expected :: "string \<Rightarrow> bool" where
  "folder_expected path \<longleftrightarrow> map ToLower path = take (length path) (map ToLower WEB_FOLDER)"

text \<open>The capture devices, as \<^verbatim>\<open>pcap\<close> describes them, and the answer of \<open>pcap_lookupnet\<close> for each.\<close>

definition PCAP_IF_LOOPBACK :: u32 where "PCAP_IF_LOOPBACK = 1"
definition PCAP_IF_UP :: u32 where "PCAP_IF_UP = 2"
definition PCAP_IF_RUNNING :: u32 where "PCAP_IF_RUNNING = 4"
definition PCAP_IF_CONNECTION_STATUS_CONNECTED :: u32 where "PCAP_IF_CONNECTION_STATUS_CONNECTED = 0x10"
definition AF_INET :: nat where "AF_INET = 2"

record pcap_addr =
  pa_family :: nat
  pa_addr :: u32
  pa_netmask :: bool

record pcap_if =
  pd_name :: string
  pd_description :: "string option"
  pd_flags :: u32
  pd_addresses :: "pcap_addr list"
  pd_net :: "(u32 \<times> u32) option"

fun first_address :: "pcap_addr list \<Rightarrow> u32" where
  "first_address [] = 0"
| "first_address (a # as) =
     (if pa_family a = AF_INET \<and> pa_netmask a \<and> pa_addr a \<noteq> 0 then pa_addr a else first_address as)"

text \<open>\<^verbatim>\<open>inet_ntoa\<close> of an address in network byte order.\<close>

definition inet_ntoa :: "u32 \<Rightarrow> string" where
  "inet_ntoa a =
     (let b = (\<lambda>i. fmt_u (unat (drop_bit (8 * i) a AND 0xFF)))
      in b 0 @ ''.'' @ b 1 @ ''.'' @ b 2 @ ''.'' @ b 3)"

text \<open>
  The chain of conditions that \<open>main\<close> puts on a device; each one that fails continues with the next device.
\<close>

definition device_listed :: "pcap_if \<Rightarrow> bool" where
  "device_listed dev \<longleftrightarrow> pd_flags dev AND PCAP_IF_LOOPBACK = 0 \<and> pd_flags dev AND PCAP_IF_UP \<noteq> 0 \<and>
     pd_flags dev AND PCAP_IF_RUNNING \<noteq> 0 \<and> pd_flags dev AND PCAP_IF_CONNECTION_STATUS_CONNECTED \<noteq> 0 \<and>
     (case pd_description dev of None \<Rightarrow> False
      | Some t \<Rightarrow> t \<noteq> [] \<and> c_strstr t ''NdisWan'' = None \<and> c_strstr t ''VMware'' = None \<and> c_strstr t ''Oracle'' = None) \<and>
     first_address (pd_addresses dev) \<noteq> 0"

definition net_usable :: "u32 \<Rightarrow> bool" where
  "net_usable ip \<longleftrightarrow> (let szHostIP = inet_ntoa ip
     in c_strstr szHostIP ''0.0.0.0'' \<noteq> Some 0 \<and> c_strstr szHostIP ''127.0.'' \<noteq> Some 0 \<and>
        c_strstr szHostIP ''169.254.'' \<noteq> Some 0)"

text \<open>The loop over the devices; the name of a chosen one is copied to an array of 256 bytes.\<close>

fun select_host :: "pcap_if list \<Rightarrow> cbuf \<Rightarrow> cbuf option" where
  "select_host [] szHostName = Some szHostName"
| "select_host (dev # devs) szHostName =
     (if \<not> device_listed dev then select_host devs szHostName
      else case pd_net dev of
             None \<Rightarrow> select_host devs szHostName
           | Some (ip, subnet_mask) \<Rightarrow>
               if \<not> net_usable ip then select_host devs szHostName
               else do { szHostName \<leftarrow> c_strcpy szHostName 0 (pd_name dev); select_host devs szHostName })"

section \<open>The capture loop\<close>

definition STILL_ACTIVE :: u32 where "STILL_ACTIVE = 0x103"
definition ESC_KEY :: int where "ESC_KEY = 27"

text \<open>
  What one round of the loop meets: the result of \<open>pcap_next_ex\<close>, the packet, the two allocations of
  \<open>DMA_push\<close>, a pressed key, and the exit code of the thread (none when it cannot be read).
\<close>

record capture_env =
  ce_result :: int
  ce_packet :: "char list"
  ce_malloc :: "nat option \<times> nat option"
  ce_key :: "int option"
  ce_exit :: "u32 option"

record main_state =
  ms_dma :: dma
  ms_keep :: int

definition main_round :: "capture_env \<Rightarrow> main_state \<Rightarrow> (bool \<times> main_state) option" where
  "main_round e s =
     do { d \<leftarrow> (if ce_result e = 1 then DMA_push (fst (ce_malloc e)) (snd (ce_malloc e)) (ce_packet e) (ms_dma s)
              else Some (ms_dma s));
          let s = s\<lparr>ms_dma := d\<rparr>;
          Some (if ce_key e = Some ESC_KEY then (False, s\<lparr>ms_keep := 1\<rparr>)
                else case ce_exit e of
                       None \<Rightarrow> (False, s)
                     | Some exitCode \<Rightarrow> (exitCode AND STILL_ACTIVE \<noteq> 0, s)) }"

text \<open>The loop, and whether it is still running when the rounds are used up.\<close>

fun main_loop :: "capture_env list \<Rightarrow> main_state \<Rightarrow> (bool \<times> main_state) option" where
  "main_loop [] s = Some (True, s)"
| "main_loop (e # es) s = do { (go, s) \<leftarrow> main_round e s; if go then main_loop es s else Some (False, s) }"

text \<open>The end of \<open>main\<close>: the queue is emptied.\<close>

partial_function (option) free_queue :: "dma \<Rightarrow> dma option" where
  "free_queue d =
     do { (pkt, d) \<leftarrow> DMA_pop d;
          case pkt of None \<Rightarrow> Some d
          | Some a \<Rightarrow> do { d \<leftarrow> DMA_free (Some a) d; free_queue d } }"

section \<open>From the queue to the stack\<close>

text \<open>\<^verbatim>\<open>tcpip_inpkt\<close> of \<^verbatim>\<open>tcpip.c\<close>: the packet goes to the stack as a message; \<open>msg_ok\<close> is the answer of its pool.\<close>

definition tcpip_inpkt :: "bool \<Rightarrow> char list list \<Rightarrow> tcpip_msg sys_mbox_t \<Rightarrow> err_t \<times> tcpip_msg sys_mbox_t" where
  "tcpip_inpkt msg_ok p q = (if msg_ok then sys_mbox_trypost (TCPIP_MSG_INPKT p) q else (ERR_MEM, q))"

definition ethernetif_input :: "(nat \<Rightarrow> nat list option) \<Rightarrow> bool \<Rightarrow> dma \<Rightarrow> (err_t \<times> dma) option" where
  "ethernetif_input pbuf_alloc msg_ok d =
     do { (p, d) \<leftarrow> low_level_input pbuf_alloc d;
          case p of
            None \<Rightarrow> Some (ERR_MEM, d)
          | Some p \<Rightarrow> (case tcpip_inpkt msg_ok p (tcpip_mbox d) of (err, q) \<Rightarrow> Some (err, d\<lparr>tcpip_mbox := q\<rparr>)) }"

text \<open>
  The two messages that carry packets, in \<^verbatim>\<open>tcpip_thread_handle_msg\<close>. The result is the packet that lwIP's
  input function gets, if any; the other messages are lwIP's own.
\<close>

definition tcpip_thread_handle_msg ::
  "(nat \<Rightarrow> nat list option) \<Rightarrow> bool \<Rightarrow> tcpip_msg \<Rightarrow> dma \<Rightarrow> (char list list option \<times> dma) option" where
  "tcpip_thread_handle_msg pbuf_alloc msg_ok m d = (case m of
       ETHNET_INPUT \<Rightarrow> do { (err, d) \<leftarrow> ethernetif_input pbuf_alloc msg_ok d; Some (None, d) }
     | TCPIP_MSG_INPKT p \<Rightarrow> Some (Some p, d)
     | STACK_MSG k \<Rightarrow> Some (None, d))"

record round_env =
  re_sleep1 :: u32
  re_sleep2 :: u32
  re_now1 :: u32
  re_now2 :: u32
  re_alloc :: "nat \<Rightarrow> nat list option"
  re_msg :: bool

text \<open>One call of \<open>tcpip_inloop\<close> with the message it handles.\<close>

definition stack_round :: "round_env \<Rightarrow> dma \<Rightarrow> counters \<Rightarrow> (char list list option \<times> dma \<times> counters) option" where
  "stack_round e d k =
     do { (busy, due, msg, q, k) \<leftarrow> tcpip_inloop (re_sleep1 e) (re_sleep2 e) (re_now1 e) (re_now2 e) (tcpip_mbox d) k;
          let d = d\<lparr>tcpip_mbox := q\<rparr>;
          case msg of
            None \<Rightarrow> Some (None, d, k)
          | Some m \<Rightarrow> do { (p, d) \<leftarrow> tcpip_thread_handle_msg (re_alloc e) (re_msg e) m d; Some (p, d, k) } }"

section \<open>Starting and stopping the stack\<close>

text \<open>\<open>netif_add\<close> clears the interface, stores the addresses and calls \<open>ethernetif_init\<close>.\<close>

definition LwipInit :: "bool \<Rightarrow> bool \<Rightarrow> bool \<Rightarrow> link \<times> 'm sys_mbox_t \<times> sys_mutex_t \<Rightarrow> link \<times> 'm sys_mbox_t \<times> sys_mutex_t" where
  "LwipInit mbox_ok mutex_ok dhcp_ok st = (case st of (s, q, m) \<Rightarrow>
     let d = lk_dev s;
         n = \<lparr>ip_addr = PP_HTONL (GetMyIP d), netmask = PP_HTONL (GetSubnet d), gw = PP_HTONL (GetGateway d),
              link_up = True, if_up = False, dhcp_on = False, igmp = True\<rparr>
     in (LwipLinkUp dhcp_ok (s\<lparr>main_netif := n\<rparr>), snd (sys_mbox_new mbox_ok q), snd (sys_mutex_new mutex_ok)))"

definition LwipStop :: "link \<times> 'm sys_mbox_t \<times> sys_mutex_t \<Rightarrow> link \<times> 'm sys_mbox_t \<times> sys_mutex_t" where
  "LwipStop st = (case st of (s, q, m) \<Rightarrow> (LwipLinkDown s, sys_mbox_free q, sys_mutex_free m))"

text \<open>What \<open>ethernetif_init\<close> sets of the interface besides its functions.\<close>

definition NETIF_FLAG_BROADCAST :: u8 where "NETIF_FLAG_BROADCAST = 0x02"
definition NETIF_FLAG_LINK_UP :: u8 where "NETIF_FLAG_LINK_UP = 0x04"
definition NETIF_FLAG_ETHARP :: u8 where "NETIF_FLAG_ETHARP = 0x08"
definition NETIF_FLAG_IGMP :: u8 where "NETIF_FLAG_IGMP = 0x20"

record ether_if =
  hwaddr_len :: nat
  hwaddr :: "u8 list"
  mtu :: u16
  if_flags :: u8

definition low_level_init :: "ether_if \<Rightarrow> err_t \<times> ether_if" where
  "low_level_init n = (ERR_OK, n\<lparr>hwaddr_len := 6, hwaddr := map (\<lambda>i. GetMyMAC ! i) [0, 1, 2, 3, 4, 5], mtu := 1500,
     if_flags := NETIF_FLAG_BROADCAST OR NETIF_FLAG_ETHARP OR NETIF_FLAG_IGMP OR NETIF_FLAG_LINK_UP\<rparr>)"

definition ethernetif_init :: "ether_if \<Rightarrow> err_t \<times> ether_if" where
  "ethernetif_init n = low_level_init n"

text \<open>\<open>NIC_Send\<close> with the send function of an open capture device; the buffer is freed afterwards.\<close>

definition NIC_Send :: "(char list \<Rightarrow> int) option \<Rightarrow> char list option \<Rightarrow> int" where
  "NIC_Send pcap buf = (case pcap of None \<Rightarrow> -1 | Some pcap_sendpacket \<Rightarrow>
     (case buf of None \<Rightarrow> -1 | Some b \<Rightarrow> pcap_sendpacket b))"

text \<open>The seed of the random numbers, an array of 256 bytes.\<close>

definition mbedtls_platform_std_nv_seed_read :: "cbuf \<Rightarrow> nat \<Rightarrow> char list option" where
  "mbedtls_platform_std_nv_seed_read g_bySeed buf_len = c_bytes g_bySeed 0 buf_len"

definition mbedtls_platform_std_nv_seed_write :: "cbuf \<Rightarrow> char list \<Rightarrow> cbuf option" where
  "mbedtls_platform_std_nv_seed_write g_bySeed buf = c_cpy g_bySeed 0 buf"

lemma LwipInit_ready:
  assumes "LwipInit True True dhcp_ok (s, q, m) = (s', q', m')"
  shows "addresses_agree s'" and "link_up (main_netif s')" and "mbox_inv q'" and "mbox_contents q' = []" and "m' = Some None"
proof -
  have q: "sys_mbox_new True q = (ERR_OK, q')"
    using assms by (auto simp: LwipInit_def Let_def sys_mbox_new_def)
  show "mbox_inv q'" "mbox_contents q' = []" using mbox_inv_new [OF q] by auto
  show "addresses_agree s'" "link_up (main_netif s')" "m' = Some None"
    using assms by (auto simp: LwipInit_def Let_def addresses_agree_def link_defs sys_mutex_new_def split: if_splits)
qed

lemma seed_round_trip:
  assumes "length g_bySeed = 256" and "length buf \<le> 256"
  shows "Option.bind (mbedtls_platform_std_nv_seed_write g_bySeed buf)
     (\<lambda>seed. mbedtls_platform_std_nv_seed_read seed (length buf)) = Some buf"
  using assms
  by (simp add: mbedtls_platform_std_nv_seed_write_def mbedtls_platform_std_nv_seed_read_def c_cpy_def c_bytes_def)

section \<open>Packets and their announcements\<close>

lemma DMA_push_mbox:
  "DMA_push (Some n) (Some b) m d = Some d' \<Longrightarrow>
   tcpip_mbox d' = snd (sys_mbox_trypost ETHNET_INPUT (tcpip_mbox d))"
  by (auto simp: DMA_push_def NotifyFromEthISR_def sys_mbox_trypost_fromisr_def Let_def bind_eq_Some_conv
      split: if_splits option.splits)

lemma DMA_free_mbox:
  assumes "DMA_free p d = Some d'"
  shows "tcpip_mbox d' = tcpip_mbox d"
  using assms
proof (rule DMA_free.raw_induct [where P = "\<lambda>p d d'. tcpip_mbox d' = tcpip_mbox d", rotated], goal_cases)
  case (1 f p d d')
  show ?case
    using 1(2) by (auto simp: free_packet_def bind_eq_Some_conv dest!: 1(1) split: option.splits if_splits)
qed

lemma low_level_input_mbox: "low_level_input alloc d = Some (p, d') \<Longrightarrow> tcpip_mbox d' = tcpip_mbox d"
  by (auto simp: low_level_input_def DMA_pop_def bind_eq_Some_conv dest!: DMA_free_mbox split: option.splits)

text \<open>Packets that wait in the queue, and messages that will make the stack take one.\<close>

definition queued_frames :: "dma \<Rightarrow> nat" where "queued_frames d = length (dma_contents d)"

definition announced :: "dma \<Rightarrow> nat" where
  "announced d = length (filter ((=) ETHNET_INPUT) (mbox_contents (tcpip_mbox d)))"

definition mailbox_full :: "dma \<Rightarrow> bool" where
  "mailbox_full d \<longleftrightarrow> length (mbox_contents (tcpip_mbox d)) = 511"

definition queue_full :: "dma \<Rightarrow> bool" where
  "queue_full d \<longleftrightarrow> queued_frames d = 1024"

definition net_inv :: "dma \<Rightarrow> bool" where
  "net_inv d \<longleftrightarrow> dma_inv d \<and> mbox_inv (tcpip_mbox d)"

lemma dma_mbox [simp]:
  "dma_inv (d\<lparr>tcpip_mbox := q\<rparr>) = dma_inv d" "dma_contents (d\<lparr>tcpip_mbox := q\<rparr>) = dma_contents d"
  "queued_frames (d\<lparr>tcpip_mbox := q\<rparr>) = queued_frames d"
  by (simp_all add: dma_inv_def dma_list_def dma_contents_def queued_frames_def)

lemma trypost_contents:
  assumes "mbox_inv q"
  shows "mbox_inv (snd (sys_mbox_trypost m q)) \<and> mbox_contents (snd (sys_mbox_trypost m q)) =
     (if length (mbox_contents q) = 511 then mbox_contents q else mbox_contents q @ [m])"
  using sys_mbox_trypost_spec [OF assms, of m] sys_mbox_post_room [OF assms, of m] length_mbox_contents [OF assms] assms
  by (simp add: MAX_QUEUE_ENTRIES_def)

lemma capture_step:
  assumes "net_inv d" and "malloc_ok (n, b) d" and "DMA_push (Some n) (Some b) m d = Some d'"
  shows "net_inv d'" and "queued_frames d' = queued_frames d + (if queue_full d then 0 else 1)"
    and "announced d' = announced d + (if mailbox_full d then 0 else 1)"
proof -
  have i: "dma_inv d" "mbox_inv (tcpip_mbox d)" using assms(1) by (simp_all add: net_inv_def)
  have w: "dma_inv d' \<and> queued_frames d' = queued_frames d + (if queue_full d then 0 else 1)"
  proof (cases "queue_full d")
    case True
    then obtain s where "dma_put (n, b) m d = Some (False, s)" "dma_inv s" "dma_contents s = dma_contents d"
      using dma_queue.put_full [OF i(1) assms(2)] by (auto simp: queue_full_def queued_frames_def)
    with assms(3) True show ?thesis by (auto simp: dma_put_def queued_frames_def)
  next
    case False
    then have "length (dma_contents d) < 1024"
      using dma_queue.bounded [OF i(1)] by (simp add: queue_full_def queued_frames_def)
    then obtain s where "dma_put (n, b) m d = Some (True, s)" "dma_inv s" "dma_contents s = dma_contents d @ [m]"
      using dma_queue.put_room [OF i(1) assms(2)] by blast
    with assms(3) False show ?thesis by (auto simp: dma_put_def queued_frames_def)
  qed
  note q = trypost_contents [OF i(2), of ETHNET_INPUT]
  show "net_inv d'" using w q by (simp add: net_inv_def DMA_push_mbox [OF assms(3)])
  show "queued_frames d' = queued_frames d + (if queue_full d then 0 else 1)" using w by blast
  show "announced d' = announced d + (if mailbox_full d then 0 else 1)"
    using q by (simp add: announced_def mailbox_full_def DMA_push_mbox [OF assms(3)])
qed

text \<open>
  Environments of a round: the buffers of a chain add up to the packet, and the wait is shorter than
  $2^{32} - 1$ ms, the value that stands for an empty mailbox.
\<close>

definition round_ok :: "round_env \<Rightarrow> bool" where
  "round_ok e \<longleftrightarrow> (\<forall>n lens. re_alloc e n = Some lens \<longrightarrow> sum_list lens = n) \<and>
     msDiff (ucast (re_now2 e)) (ucast (re_now1 e)) \<noteq> 0xFFFFFFFF"

lemma fetch_spec:
  assumes "mbox_inv q" and "sys_arch_mbox_fetch t n1 n2 q = Some (r, msg, q')"
  shows "(\<exists>m. r = Inr (msDiff (ucast n2) (ucast n1)) \<and> msg = Some m \<and> mbox_contents q = m # mbox_contents q' \<and> mbox_inv q') \<or>
     (mbox_contents q = [] \<and> msg = None \<and> q' = q)"
proof (cases "the (mbox_sem q)")
  case 0
  then show ?thesis using assms
    by (auto simp: sys_arch_mbox_fetch_def mbox_inv_def mbox_contents_def split: if_splits)
next
  case (Suc n)
  then have n: "mbox_sem q = Some (Suc n)" using assms(1) by (auto simp: mbox_inv_def)
  from mbox_take_spec [OF assms(1) n] assms(2) n show ?thesis by (auto simp: sys_arch_mbox_fetch_def)
qed

text \<open>A call of \<open>tcpip_inloop\<close> either leaves the mailbox alone or takes and handles its first message.\<close>

lemma inloop_spec:
  assumes "mbox_inv q" and "msDiff (ucast n2) (ucast n1) \<noteq> 0xFFFFFFFF"
    and "tcpip_inloop s1 s2 n1 n2 q k = Some (b, due, msg, q', k')"
  shows "(msg = None \<and> q' = q) \<or> (\<exists>m. msg = Some m \<and> mbox_contents q = m # mbox_contents q' \<and> mbox_inv q')"
  using assms(3) fetch_spec [OF assms(1)] assms(2)
  by (fastforce simp: tcpip_inloop_def Let_def bind_eq_Some_conv split: if_splits prod.splits)

lemma input_step:
  assumes "net_inv d" and "\<forall>n lens. alloc n = Some lens \<longrightarrow> sum_list lens = n"
  shows "\<exists>err d'. ethernetif_input alloc ok d = Some (err, d') \<and> net_inv d' \<and> queued_frames d' = queued_frames d - 1 \<and>
     announced d' = announced d \<and> length (mbox_contents (tcpip_mbox d')) \<le> Suc (length (mbox_contents (tcpip_mbox d)))"
proof -
  have i: "dma_inv d" "mbox_inv (tcpip_mbox d)" using assms(1) by (simp_all add: net_inv_def)
  obtain p d1 where l: "low_level_input alloc d = Some (p, d1)" "dma_inv d1" "queued_frames d1 = queued_frames d - 1"
  proof (cases "dma_contents d")
    case Nil
    then show thesis using low_level_input_spec [OF i(1) assms(2)] that [of None d] i(1) by (simp add: queued_frames_def)
  next
    case (Cons m ms)
    then show thesis using low_level_input_spec [OF i(1) assms(2)] that by (auto simp: queued_frames_def)
  qed
  have mb: "tcpip_mbox d1 = tcpip_mbox d" by (rule low_level_input_mbox [OF l(1)])
  show ?thesis
  proof (cases p)
    case None
    then show ?thesis using l mb i(2) by (simp add: ethernetif_input_def net_inv_def announced_def)
  next
    case (Some segs)
    show ?thesis
      using Some l mb i(2) trypost_contents [OF i(2), of "TCPIP_MSG_INPKT segs"]
      by (cases "sys_mbox_trypost (TCPIP_MSG_INPKT segs) (tcpip_mbox d)")
        (auto simp: ethernetif_input_def tcpip_inpkt_def net_inv_def announced_def)
  qed
qed

lemma round_step:
  assumes "net_inv d" and "round_ok e" and "stack_round e d k = Some (p, d', k')"
  shows "net_inv d'"
    and "(queued_frames d' = queued_frames d \<and> announced d' = announced d) \<or>
         (announced d = Suc (announced d') \<and> queued_frames d' = queued_frames d - 1)"
proof -
  have i: "dma_inv d" "mbox_inv (tcpip_mbox d)" using assms(1) by (simp_all add: net_inv_def)
  have a: "\<forall>n lens. re_alloc e n = Some lens \<longrightarrow> sum_list lens = n" using assms(2) by (simp add: round_ok_def)
  from assms(3) obtain b due msg q k1 where r:
    "tcpip_inloop (re_sleep1 e) (re_sleep2 e) (re_now1 e) (re_now2 e) (tcpip_mbox d) k = Some (b, due, msg, q, k1)"
    "(case msg of None \<Rightarrow> Some (None, d\<lparr>tcpip_mbox := q\<rparr>, k1)
      | Some m \<Rightarrow> do { (p, d) \<leftarrow> tcpip_thread_handle_msg (re_alloc e) (re_msg e) m (d\<lparr>tcpip_mbox := q\<rparr>); Some (p, d, k1) }) = Some (p, d', k')"
    by (auto simp: stack_round_def Let_def bind_eq_Some_conv)
  from inloop_spec [OF i(2) _ r(1)] assms(2) consider "msg = None" "q = tcpip_mbox d"
    | m where "msg = Some m" "mbox_contents (tcpip_mbox d) = m # mbox_contents q" "mbox_inv q"
    by (auto simp: round_ok_def)
  then have "net_inv d' \<and> ((queued_frames d' = queued_frames d \<and> announced d' = announced d) \<or>
         (announced d = Suc (announced d') \<and> queued_frames d' = queued_frames d - 1))"
  proof cases
    case 1
    then show ?thesis using r(2) assms(1) by (auto simp: net_inv_def)
  next
    case (2 m)
    let ?d = "d\<lparr>tcpip_mbox := q\<rparr>"
    have n: "net_inv ?d" using 2 i by (simp add: net_inv_def)
    show ?thesis
    proof (cases m)
      case ETHNET_INPUT
      obtain err d2 where d2: "ethernetif_input (re_alloc e) (re_msg e) ?d = Some (err, d2)" "net_inv d2"
        "queued_frames d2 = queued_frames d - 1" "announced d2 = announced ?d"
        using input_step [OF n a, of "re_msg e"] by auto
      then show ?thesis using r(2) 2 ETHNET_INPUT by (auto simp: tcpip_thread_handle_msg_def announced_def)
    qed (use r(2) 2 n in \<open>auto simp: tcpip_thread_handle_msg_def announced_def\<close>)
  qed
  then show "net_inv d'" "(queued_frames d' = queued_frames d \<and> announced d' = announced d) \<or>
         (announced d = Suc (announced d') \<and> queued_frames d' = queued_frames d - 1)" by blast+
qed

section \<open>The two threads\<close>

text \<open>
  Captures and rounds of the stack in any order. Each capture and each round is one step; \<open>ok\<close> restricts the
  states in which packets are captured.
\<close>

inductive net_run :: "(dma \<Rightarrow> bool) \<Rightarrow> dma \<Rightarrow> dma \<Rightarrow> bool" for ok where
  stay: "net_run ok d d"
| capture: "net_run ok d d1 \<Longrightarrow> ok d1 \<Longrightarrow> malloc_ok (n, b) d1 \<Longrightarrow> DMA_push (Some n) (Some b) m d1 = Some d2 \<Longrightarrow>
    net_run ok d d2"
| round: "net_run ok d d1 \<Longrightarrow> round_ok e \<Longrightarrow> stack_round e d1 k = Some (p, d2, k') \<Longrightarrow> net_run ok d d2"

lemma net_run_inv: "net_run ok d d' \<Longrightarrow> net_inv d \<Longrightarrow> net_inv d'"
  by (induction rule: net_run.induct) (auto intro: capture_step(1) round_step(1))

lemma net_run_trans: "net_run ok d1 d2 \<Longrightarrow> net_run ok d d1 \<Longrightarrow> net_run ok d d2"
  by (induction rule: net_run.induct) (auto intro: net_run.intros)

text \<open>
  C17. Every packet is announced: as long as no packet is captured while the mailbox of the stack is full, there
  are never more packets in the queue than messages in the mailbox that make the stack take one. So an empty
  mailbox means an empty queue.
\<close>

theorem every_packet_announced:
  assumes "net_run (\<lambda>d. \<not> mailbox_full d) d d'" and "net_inv d" and "queued_frames d \<le> announced d"
  shows "queued_frames d' \<le> announced d' \<and> (mbox_contents (tcpip_mbox d') = [] \<longrightarrow> dma_contents d' = [])"
proof -
  have "queued_frames d' \<le> announced d'"
    using assms
  proof (induction rule: net_run.induct)
    case (capture d d1 n b m d2)
    have "net_inv d1" using net_run_inv [OF capture.hyps(1) capture.prems(1)] .
    from capture_step(2,3) [OF this capture.hyps(3,4)] capture.hyps(2) capture.IH [OF capture.prems]
    show ?case by simp
  next
    case (round d d1 e k p d2 k')
    have "net_inv d1" using net_run_inv [OF round.hyps(1) round.prems(1)] .
    from round_step(2) [OF this round.hyps(2,3)] round.IH [OF round.prems] show ?case by auto
  qed
  then show ?thesis by (auto simp: queued_frames_def announced_def)
qed

lemma lag_grows:
  assumes "net_run (\<lambda>d. \<not> queue_full d) d d'" and "net_inv d" and "announced d + j \<le> queued_frames d"
  shows "announced d' + j \<le> queued_frames d'"
  using assms
proof (induction rule: net_run.induct)
  case (capture d d1 n b m d2)
  have "net_inv d1" using net_run_inv [OF capture.hyps(1) capture.prems(1)] .
  from capture_step(2,3) [OF this capture.hyps(3,4)] capture.hyps(2) capture.IH [OF capture.prems]
  show ?case by (simp split: if_splits)
next
  case (round d d1 e k p d2 k')
  have "net_inv d1" using net_run_inv [OF round.hyps(1) round.prems(1)] .
  from round_step(2) [OF this round.hyps(2,3)] round.IH [OF round.prems] show ?case by auto
qed

text \<open>The stack can always work off its messages.\<close>

definition busy_env :: round_env where
  "busy_env = \<lparr>re_sleep1 = 1, re_sleep2 = 1, re_now1 = 0, re_now2 = 0, re_alloc = (\<lambda>n. Some [n]), re_msg = True\<rparr>"

lemma busy_env_ok: "round_ok busy_env"
  by (simp add: round_ok_def busy_env_def msDiff_def)

lemma busy_round:
  assumes "net_inv d" and c: "mbox_contents (tcpip_mbox d) = m # ms"
  shows "\<exists>p d' k'. stack_round busy_env d k = Some (p, d', k') \<and>
     (m = ETHNET_INPUT \<longrightarrow> announced d = Suc (announced d') \<and> length (mbox_contents (tcpip_mbox d')) \<le> Suc (length ms)) \<and>
     (m \<noteq> ETHNET_INPUT \<longrightarrow> announced d = announced d' \<and> length (mbox_contents (tcpip_mbox d')) = length ms)"
proof -
  have i: "dma_inv d" "mbox_inv (tcpip_mbox d)" using assms(1) by (simp_all add: net_inv_def)
  then obtain n where n: "mbox_sem (tcpip_mbox d) = Some (Suc n)"
    using c by (cases "the (mbox_sem (tcpip_mbox d))") (auto simp: mbox_contents_def mbox_inv_def)
  from mbox_take_spec [OF i(2) n] c obtain q where q: "mbox_take n (tcpip_mbox d) = (Some m, q)" "mbox_inv q" "mbox_contents q = ms"
    by auto
  let ?d = "d\<lparr>tcpip_mbox := q\<rparr>"
  have ni: "net_inv ?d" using q i by (simp add: net_inv_def)
  obtain b due k1 where l: "tcpip_inloop 1 1 0 0 (tcpip_mbox d) k = Some (b, due, Some m, q, k1)"
    by (auto simp: tcpip_inloop_def Let_def sys_arch_mbox_fetch_def n q SYS_TIMEOUTS_SLEEPTIME_INFINITE_def msDiff_def)
  have a: "\<forall>n lens. (\<lambda>n. Some [n]) n = Some lens \<longrightarrow> sum_list lens = n" by simp
  obtain err d2 where d2: "ethernetif_input (\<lambda>n. Some [n]) True ?d = Some (err, d2)" "announced d2 = announced ?d"
    "length (mbox_contents (tcpip_mbox d2)) \<le> Suc (length ms)"
    using input_step [OF ni a, of True] q(3) by auto
  show ?thesis
    by (cases m) (use l d2 q c in \<open>auto simp: stack_round_def busy_env_def tcpip_thread_handle_msg_def announced_def\<close>)
qed

lemma mailbox_worked_off: "net_inv d \<Longrightarrow> \<exists>d'. net_run ok d d' \<and> mbox_contents (tcpip_mbox d') = []"
proof (induction "announced d + length (mbox_contents (tcpip_mbox d))" arbitrary: d rule: less_induct)
  case less
  show ?case
  proof (cases "mbox_contents (tcpip_mbox d)")
    case Nil
    then show ?thesis using net_run.stay by blast
  next
    case (Cons m ms)
    from busy_round [OF less.prems Cons, of k] obtain p d1 k1 where r: "stack_round busy_env d k = Some (p, d1, k1)"
      "announced d1 + length (mbox_contents (tcpip_mbox d1)) < announced d + length (mbox_contents (tcpip_mbox d))"
      using Cons by (cases "m = ETHNET_INPUT") auto
    have "net_run ok d d1" by (rule net_run.round [OF net_run.stay busy_env_ok r(1)])
    moreover obtain d' where "net_run ok d1 d'" "mbox_contents (tcpip_mbox d') = []"
      using less.hyps [OF r(2) round_step(1) [OF less.prems busy_env_ok r(1)]] by blast
    ultimately show ?thesis using net_run_trans by blast
  qed
qed

text \<open>
  C27. A lost announcement is never made up for: a packet captured while 511 messages wait in the mailbox is
  queued without a message, and from then on, however many rounds the stack makes, it finds its mailbox empty
  while a packet still waits, until the next capture. Only an overflow of the packet queue, which drops a
  packet but posts a message, restores the balance. The stack does reach such a state.
\<close>

theorem lost_announcement:
  assumes "net_inv d" and "mailbox_full d" and "queued_frames d = announced d" and "malloc_ok (n, b) d"
  shows "\<exists>d1. DMA_push (Some n) (Some b) m d = Some d1 \<and>
     (\<exists>d2. net_run (\<lambda>d. \<not> queue_full d) d1 d2 \<and> mbox_contents (tcpip_mbox d2) = []) \<and>
     (\<forall>d2. net_run (\<lambda>d. \<not> queue_full d) d1 d2 \<and> mbox_contents (tcpip_mbox d2) = [] \<longrightarrow> dma_contents d2 \<noteq> [])"
proof -
  have i: "dma_inv d" "mbox_inv (tcpip_mbox d)" using assms(1) by (simp_all add: net_inv_def)
  have le: "announced d \<le> 511" using assms(2) length_filter_le [of "(=) ETHNET_INPUT" "mbox_contents (tcpip_mbox d)"]
    by (simp add: announced_def mailbox_full_def)
  then have nf: "\<not> queue_full d" using assms(3) by (simp add: queue_full_def)
  obtain d1 where d1: "DMA_push (Some n) (Some b) m d = Some d1"
    using dma_queue.put_room [OF i(1) assms(4)] le assms(3) by (auto simp: dma_put_def queued_frames_def bind_eq_Some_conv)
  note c = capture_step [OF assms(1,4) d1]
  have lag: "announced d1 + 1 \<le> queued_frames d1" using c(2,3) nf assms(2,3) by simp
  have "dma_contents d2 \<noteq> []" if "net_run (\<lambda>d. \<not> queue_full d) d1 d2" for d2
    using lag_grows [OF that c(1) lag] by (auto simp: queued_frames_def)
  then show ?thesis using d1 mailbox_worked_off [OF c(1)] by blast
qed

lemma DMA_push_fresh:
  assumes "DMA_push (Some n) (Some b) m d = Some d'" and "malloc_ok (j, j) d" and "j \<noteq> n" and "j \<noteq> b"
  shows "malloc_ok (j, j) d'"
  using assms
  by (auto simp: malloc_ok_def DMA_push_def Let_def bind_eq_Some_conv split: if_splits option.splits)

lemma empty_dma_net: "net_inv empty_dma" "queued_frames empty_dma = 0" "announced empty_dma = 0"
  "mbox_contents (tcpip_mbox empty_dma) = []" "malloc_ok (j, j) empty_dma"
  using empty_dma_inv
  by (auto simp: net_inv_def queued_frames_def announced_def mbox_inv_def mbox_contents_def malloc_ok_def empty_dma_def MAX_QUEUE_ENTRIES_def)

text \<open>A burst of \<open>k\<close> packets that the stack has not yet looked at.\<close>

lemma burst:
  "k \<le> 511 \<Longrightarrow> \<exists>d. net_run (\<lambda>d. \<not> mailbox_full d) empty_dma d \<and> net_inv d \<and> queued_frames d = k \<and> announced d = k \<and>
     length (mbox_contents (tcpip_mbox d)) = k \<and> (\<forall>j \<ge> k. malloc_ok (j, j) d)"
proof (induction k)
  case 0
  show ?case using empty_dma_net net_run.stay by auto
next
  case (Suc k)
  then obtain d where d: "net_run (\<lambda>d. \<not> mailbox_full d) empty_dma d" "net_inv d" "queued_frames d = k" "announced d = k"
    "length (mbox_contents (tcpip_mbox d)) = k" "\<forall>j \<ge> k. malloc_ok (j, j) d" by auto
  have m: "malloc_ok (k, k) d" using d(6) by simp
  have nf: "\<not> mailbox_full d" "\<not> queue_full d" using Suc.prems d(3,5) by (simp_all add: mailbox_full_def queue_full_def)
  obtain d' where p: "DMA_push (Some k) (Some k) ''x'' d = Some d'"
    using dma_queue.put_room [of d "(k, k)" "''x''"] d(2,3) m Suc.prems
    by (auto simp: net_inv_def dma_put_def queued_frames_def bind_eq_Some_conv)
  note c = capture_step [OF d(2) m p]
  have "length (mbox_contents (tcpip_mbox d')) = Suc k"
    using trypost_contents [of "tcpip_mbox d" ETHNET_INPUT] d(2,5) Suc.prems
    by (simp add: DMA_push_mbox [OF p] net_inv_def)
  moreover have "\<forall>j \<ge> Suc k. malloc_ok (j, j) d'" using DMA_push_fresh [OF p] d(6) by auto
  ultimately show ?case using c nf d(3,4) net_run.capture [OF d(1) nf(1) m p] by auto
qed

theorem every_packet_announced_witness:
  "\<exists>d. net_run (\<lambda>d. \<not> mailbox_full d) empty_dma d \<and> queued_frames d = 3 \<and> queued_frames d \<le> announced d"
proof -
  obtain d where d: "net_run (\<lambda>d. \<not> mailbox_full d) empty_dma d" "queued_frames d = 3" using burst [of 3] by auto
  from every_packet_announced [OF d(1) empty_dma_net(1)] empty_dma_net(2,3) d show ?thesis by auto
qed

theorem lost_announcement_witness:
  "\<exists>d d1 d2. net_run (\<lambda>d. \<not> mailbox_full d) empty_dma d \<and> DMA_push (Some 511) (Some 511) ''y'' d = Some d1 \<and>
     net_run (\<lambda>d. \<not> queue_full d) d1 d2 \<and> mbox_contents (tcpip_mbox d2) = [] \<and> dma_contents d2 \<noteq> []"
proof -
  obtain d where d: "net_run (\<lambda>d. \<not> mailbox_full d) empty_dma d" "net_inv d" "queued_frames d = 511" "announced d = 511"
    "length (mbox_contents (tcpip_mbox d)) = 511" "malloc_ok (511, 511) d" using burst [of 511] by auto
  have "mailbox_full d" "queued_frames d = announced d" using d by (simp_all add: mailbox_full_def)
  from lost_announcement [OF d(2) this d(6), of "''y''"] d(1) show ?thesis by blast
qed

section \<open>The end of the program\<close>

lemma free_queue_list:
  "dma_list d xs \<Longrightarrow> \<exists>d'. free_queue d = Some d' \<and> dma_list d' [] \<and>
     wrappers d' = wrappers d |` (- set (addrs xs)) \<and> packets d' = packets d |` (- set (bufs xs))"
proof (induction xs arbitrary: d)
  case Nil
  then show ?case by (subst free_queue.simps) (simp add: DMA_pop_empty restrict_map_def)
next
  case (Cons x xs)
  obtain a b m where x: "x = (a, b, m)" by (cases x)
  from DMA_pop_list [of d a b m xs] Cons.prems x obtain d1 d2 where
    p: "DMA_pop d = Some (Some a, d1)" "DMA_free (Some a) d1 = Some d2" "dma_list d2 xs"
    "wrappers d2 = (wrappers d)(a := None)" "packets d2 = (packets d)(b := None)" by auto
  from Cons.IH [OF p(3)] obtain d' where d': "free_queue d2 = Some d'" "dma_list d' []"
    "wrappers d' = wrappers d2 |` (- set (addrs xs))" "packets d' = packets d2 |` (- set (bufs xs))" by blast
  have "free_queue d = Some d'" by (subst free_queue.simps) (simp add: p(1,2) d'(1))
  moreover have "wrappers d' = wrappers d |` (- set (addrs (x # xs)))" "packets d' = packets d |` (- set (bufs (x # xs)))"
    by (auto simp: d'(3,4) p(4,5) x restrict_map_def fun_eq_iff)
  ultimately show ?case using d'(2) by blast
qed

lemma restrict_compl_dom: "h |` (- dom h) = Map.empty"
  by (auto simp: restrict_map_def)

text \<open>The memory of the program is the memory of the queue.\<close>

definition owns_all :: "dma \<Rightarrow> bool" where
  "owns_all d \<longleftrightarrow> (\<exists>xs. dma_list d xs \<and> length xs \<le> 1024 \<and> dom (wrappers d) = set (addrs xs) \<and> dom (packets d) = set (bufs xs))"

text \<open>What the rounds of the loop may meet: an allocator that hands out unused addresses, and a queue with room.\<close>

definition env_fine :: "capture_env \<Rightarrow> main_state \<Rightarrow> bool" where
  "env_fine e s \<longleftrightarrow> \<not> queue_full (ms_dma s) \<and>
     (\<forall>n. fst (ce_malloc e) = Some n \<longrightarrow> wrappers (ms_dma s) n = None) \<and>
     (\<forall>b. snd (ce_malloc e) = Some b \<longrightarrow> packets (ms_dma s) b = None)"

fun envs_fine :: "capture_env list \<Rightarrow> main_state \<Rightarrow> bool" where
  "envs_fine [] s = True"
| "envs_fine (e # es) s = (env_fine e s \<and> (case main_round e s of Some (True, s) \<Rightarrow> envs_fine es s | _ \<Rightarrow> True))"

lemma DMA_push_dom:
  "DMA_push (Some n) (Some b) m d = Some d' \<Longrightarrow>
   dom (wrappers d') = insert n (dom (wrappers d)) \<and> dom (packets d') = insert b (dom (packets d))"
  by (auto simp: DMA_push_def Let_def bind_eq_Some_conv split: if_splits option.splits)

lemma main_round_owns:
  assumes "owns_all (ms_dma s)" and "env_fine e s"
  shows "\<exists>go s'. main_round e s = Some (go, s') \<and> owns_all (ms_dma s')"
proof -
  obtain xs where xs: "dma_list (ms_dma s) xs" "length xs \<le> 1024" "dom (wrappers (ms_dma s)) = set (addrs xs)"
    "dom (packets (ms_dma s)) = set (bufs xs)" using assms(1) by (auto simp: owns_all_def)
  have len: "length xs < 1024"
    using xs(2) assms(2) dma_contents_list [OF xs(1)] by (simp add: env_fine_def queue_full_def queued_frames_def)
  have "\<exists>d. DMA_push (fst (ce_malloc e)) (snd (ce_malloc e)) (ce_packet e) (ms_dma s) = Some d \<and> owns_all d"
  proof (cases "fst (ce_malloc e)"; cases "snd (ce_malloc e)")
    fix n b assume a: "fst (ce_malloc e) = Some n" "snd (ce_malloc e) = Some b"
    then have f: "wrappers (ms_dma s) n = None" "packets (ms_dma s) b = None" using assms(2) by (auto simp: env_fine_def)
    then obtain d where d: "DMA_push (Some n) (Some b) (ce_packet e) (ms_dma s) = Some d" "dma_list d (xs @ [(n, b, ce_packet e)])"
      using DMA_push_room [OF xs(1) _ f] len by (auto simp: MAX_DMA_QUEUE_def)
    from DMA_push_dom [OF d(1)] have "owns_all d"
      unfolding owns_all_def using d(2) len xs(3,4) by (intro exI [of _ "xs @ [(n, b, ce_packet e)]"]) simp
    with d(1) a show ?thesis by simp
  qed (use assms(1) in \<open>auto simp: DMA_push_def\<close>)
  then show ?thesis using assms(1) by (auto simp: main_round_def Let_def split: option.split)
qed

text \<open>
  C26. Nothing is left behind: a run of the capture loop that starts with an empty heap apart from the queue and
  never meets a full queue ends or goes on with all its memory in the queue, and emptying the queue at the end
  of \<open>main\<close> terminates and frees every wrapper and every packet.
\<close>

theorem main_releases_memory:
  assumes "owns_all (ms_dma s)" and "envs_fine es s"
  shows "\<exists>go s' d. main_loop es s = Some (go, s') \<and> free_queue (ms_dma s') = Some d \<and> g_dmaQueue d = None \<and>
     g_qLength d = 0 \<and> wrappers d = Map.empty \<and> packets d = Map.empty"
proof -
  have "\<exists>go s'. main_loop es s = Some (go, s') \<and> owns_all (ms_dma s')"
    using assms
  proof (induction es arbitrary: s)
    case (Cons e es)
    obtain go s1 where r: "main_round e s = Some (go, s1)" "owns_all (ms_dma s1)"
      using main_round_owns [OF Cons.prems(1), of e] Cons.prems(2) by (auto simp del: split_paired_Ex)
    show ?case using Cons.IH [OF r(2)] Cons.prems(2) r by (cases go) auto
  qed (auto intro: exI [of _ True])
  then obtain go s' xs where l: "main_loop es s = Some (go, s')" "dma_list (ms_dma s') xs"
    "dom (wrappers (ms_dma s')) = set (addrs xs)" "dom (packets (ms_dma s')) = set (bufs xs)"
    by (auto simp: owns_all_def)
  from free_queue_list [OF l(2)] obtain d where d: "free_queue (ms_dma s') = Some d" "dma_list d []"
    "wrappers d = wrappers (ms_dma s') |` (- dom (wrappers (ms_dma s')))"
    "packets d = packets (ms_dma s') |` (- dom (packets (ms_dma s')))" by (auto simp: l)
  with l(1) show ?thesis by (auto simp: dma_list_def restrict_compl_dom)
qed

definition demo_env :: "int option \<Rightarrow> nat \<Rightarrow> capture_env" where
  "demo_env key a = \<lparr>ce_result = 1, ce_packet = ''ab'', ce_malloc = (Some a, Some a), ce_key = key, ce_exit = Some STILL_ACTIVE\<rparr>"

theorem main_releases_memory_witness:
  "\<exists>go s' d. main_loop [demo_env None 7, demo_env (Some 27) 8] \<lparr>ms_dma = empty_dma, ms_keep = 1\<rparr> = Some (go, s') \<and>
     free_queue (ms_dma s') = Some d \<and> wrappers d = Map.empty"
proof -
  let ?s = "\<lparr>ms_dma = empty_dma, ms_keep = 1\<rparr>"
  have o: "owns_all (ms_dma ?s)" using empty_dma_inv(3) by (auto simp: owns_all_def empty_dma_def)
  have f1: "env_fine (demo_env None 7) ?s"
    using empty_dma_net(2) by (simp add: env_fine_def demo_env_def queue_full_def) (simp add: empty_dma_def)
  obtain d where d: "DMA_push (Some 7) (Some 7) ''ab'' empty_dma = Some d"
    using main_round_owns [OF o f1] by (auto simp: main_round_def demo_env_def bind_eq_Some_conv)
  have r: "main_round (demo_env None 7) ?s = Some (True, \<lparr>ms_dma = d, ms_keep = 1\<rparr>)"
    by (simp add: main_round_def demo_env_def d STILL_ACTIVE_def)
  have "queued_frames d = 1" using capture_step(2) [OF empty_dma_net(1) empty_dma_net(5) d] empty_dma_net(2)
    by (simp add: queue_full_def)
  moreover have "malloc_ok (8, 8) d" by (rule DMA_push_fresh [OF d empty_dma_net(5)]) simp_all
  ultimately have f2: "env_fine (demo_env (Some 27) 8) \<lparr>ms_dma = d, ms_keep = 1\<rparr>"
    by (simp add: env_fine_def malloc_ok_def queue_full_def demo_env_def)
  have "envs_fine [demo_env None 7, demo_env (Some 27) 8] ?s"
    using f1 f2 by (simp add: r split: option.split bool.split)
  from main_releases_memory [OF o this] show ?thesis by blast
qed

section \<open>The chosen device\<close>

definition usable :: "pcap_if \<Rightarrow> bool" where
  "usable dev \<longleftrightarrow> device_listed dev \<and> (case pd_net dev of None \<Rightarrow> False | Some (ip, m) \<Rightarrow> net_usable ip)"

text \<open>
  The capture device is the last usable one of the list, not the first: its name is in the array, empty if
  there is none. A usable device with a name of 256 bytes or more overruns the array.
\<close>

theorem select_host_last:
  assumes "\<forall>dev \<in> set devs. NUL \<notin> set (pd_name dev)"
  shows "Option.bind (select_host devs (replicate 256 NUL)) (\<lambda>b. c_str b 0) =
     (if \<forall>dev \<in> set devs. usable dev \<longrightarrow> length (pd_name dev) < 256
      then Some (last ([] # map pd_name (filter usable devs))) else None)"
proof -
  have "Option.bind (select_host devs b) (\<lambda>b. c_str b 0) =
     (if \<forall>dev \<in> set devs. usable dev \<longrightarrow> length (pd_name dev) < 256
      then Some (last (t # map pd_name (filter usable devs))) else None)"
    if "length b = 256" "c_str b 0 = Some t" for b t
    using assms that
  proof (induction devs arbitrary: b t)
    case (Cons dev devs)
    show ?case
    proof (cases "usable dev")
      case False
      then have "select_host (dev # devs) b = select_host devs b"
        by (auto simp: usable_def split: option.splits)
      with False Cons show ?thesis by simp
    next
      case True
      then have s: "select_host (dev # devs) b = Option.bind (c_strcpy b 0 (pd_name dev)) (select_host devs)"
        by (auto simp: usable_def split: option.splits)
      show ?thesis
      proof (cases "length (pd_name dev) < 256")
        case l: True
        then obtain b' where b': "c_strcpy b 0 (pd_name dev) = Some b'" "length b' = 256" "c_str b' 0 = Some (pd_name dev)"
          using Cons.prems c_str_app [of "pd_name dev"] by (auto simp: c_strcpy_def c_cpy_def)
        from Cons.IH [OF _ b'(2,3)] Cons.prems(1) True l show ?thesis by (simp add: s b'(1) del: select_host.simps)
      next
        case l: False
        then have "c_strcpy b 0 (pd_name dev) = None" using Cons.prems(2) by (simp add: c_strcpy_def c_cpy_def)
        with True l show ?thesis by (auto simp: s simp del: select_host.simps)
      qed
    qed
  qed simp
  from this [of "replicate 256 NUL" "[]"] show ?thesis by (simp add: c_str_def)
qed

definition demo_nic :: "string \<Rightarrow> u32 \<Rightarrow> pcap_if" where
  "demo_nic name fl = \<lparr>pd_name = name, pd_description = Some ''Ethernet'', pd_flags = fl,
     pd_addresses = [\<lparr>pa_family = 2, pa_addr = 0x0201A8C0, pa_netmask = True\<rparr>], pd_net = Some (0x0001A8C0, 0x00FFFFFF)\<rparr>"

theorem select_host_last_witness:
  "Option.bind (select_host [demo_nic ''a'' 0x16, demo_nic ''b'' 0x16, demo_nic ''c'' 0x17] (replicate 256 NUL))
     (\<lambda>b. c_str b 0) = Some ''b''"
proof -
  let ?devs = "[demo_nic ''a'' 0x16, demo_nic ''b'' 0x16, demo_nic ''c'' 0x17]"
  have n: "\<forall>dev \<in> set ?devs. NUL \<notin> set (pd_name dev)" by (simp add: demo_nic_def)
  have u: "usable (demo_nic ''a'' 0x16)" "usable (demo_nic ''b'' 0x16)" "\<not> usable (demo_nic ''c'' 0x17)" by code_simp+
  have "pd_name (demo_nic nm fl) = nm" for nm fl by (simp add: demo_nic_def)
  with select_host_last [OF n] u show ?thesis by (simp del: select_host.simps)
qed

end
