(* ===== verification/Ssi.thy ===== *)
theory Ssi
  imports Response
begin

text \<open>
  Pages with tags (\<^verbatim>\<open>http_web.c\<close>): what the blocks of \<open>WEB_ReadContent\<close> add up to. \<open>ssi_text\<close> is the
  reference, the text of a page with its tags replaced; \<open>ssi_scan_spec\<close> and \<open>ssi_loop_spec\<close> show that the scanner
  and the loop over the file, with the cache of 64 bytes between them, send a piece of that text and leave the rest;
  \<open>page_body_text\<close> puts the blocks together. The last part shows what happens to a tag that is found in the last
  read, when no text is defined.
\<close>

unbundle bit_operations_syntax

section \<open>What a page with tags stands for\<close>

text \<open>
  The text of a page with every tag replaced by its value. A tag starts with \<open>tagStart\<close> and ends with \<open>tagEnd\<close>.
  \<open>Some nm\<close> means that \<open>nm\<close> has been read of a name. The text is defined where names have at most 63 bytes, values
  fit the array of 64 bytes in which they are formed, and every tag is closed before the last 64 bytes of the page.
\<close>

function ssi_text :: "device \<Rightarrow> string option \<Rightarrow> string \<Rightarrow> string option" where
  "ssi_text d None t =
     (if t = [] then Some []
      else if prefix tagStart t then ssi_text d (Some []) (drop 5 t)
      else map_option (Cons (hd t)) (ssi_text d None (tl t)))"
| "ssi_text d (Some nm) t =
     (if length t < 64 then None
      else if prefix tagEnd t
      then do { v \<leftarrow> tag_text (takeWhile (\<lambda>c. c \<noteq> NUL) nm) d;
                if length v < 64 then map_option ((@) v) (ssi_text d None (drop 3 t)) else None }
      else if length nm < 63 then ssi_text d (Some (nm @ [hd t])) (tl t) else None)"
  by pat_completeness auto
termination
  by (relation "measure (\<lambda>(d, s, t). length t)") (auto simp: tagStart_def tagEnd_def)

declare ssi_text.simps [simp del]

text \<open>Plain text stands for itself, a tag for its value.\<close>

lemma ssi_text_char: "x \<noteq> CHR ''<'' \<Longrightarrow> ssi_text d None (x # t) = map_option (Cons x) (ssi_text d None t)"
  by (simp add: ssi_text.simps(1) [of d "x # t"] tagStart_def)

lemma ssi_text_plain: "CHR ''<'' \<notin> set t \<Longrightarrow> ssi_text d None t = Some t"
  by (induction t) (auto simp: ssi_text.simps(1) [of d "[]"] ssi_text_char)

lemma ssi_text_name:
  assumes "CHR ''-'' \<notin> set nm" and "length a + length nm \<le> 63" and "61 \<le> length t"
    and "tag_text (takeWhile (\<lambda>c. c \<noteq> NUL) (a @ nm)) d = Some v" and "length v < 64"
  shows "ssi_text d (Some a) (nm @ tagEnd @ t) = map_option ((@) v) (ssi_text d None t)"
  using assms
proof (induction nm arbitrary: a)
  case Nil
  then show ?case by (simp add: ssi_text.simps(2) [of d a "tagEnd @ t"]) (simp add: tagEnd_def)
next
  case (Cons x nm)
  then show ?case using Cons.prems Cons.IH [of "a @ [x]"]
    by (subst ssi_text.simps(2)) (simp add: tagEnd_def)
qed

lemma ssi_text_tag:
  assumes "CHR ''-'' \<notin> set nm" and "NUL \<notin> set nm" and "length nm \<le> 63" and "61 \<le> length t"
    and "tag_text nm d = Some v" and "length v < 64"
  shows "ssi_text d None (tagStart @ nm @ tagEnd @ t) = map_option ((@) v) (ssi_text d None t)"
proof -
  have "ssi_text d None (tagStart @ nm @ tagEnd @ t) = ssi_text d (Some []) (nm @ tagEnd @ t)"
    by (simp add: ssi_text.simps(1) [of d "tagStart @ nm @ tagEnd @ t"]) (simp add: tagStart_def)
  moreover have tw: "takeWhile (\<lambda>c. c \<noteq> NUL) nm = nm" using assms(2) by (auto simp: takeWhile_eq_all_conv)
  have "ssi_text d (Some []) (nm @ tagEnd @ t) = map_option ((@) v) (ssi_text d None t)"
    by (rule ssi_text_name [OF assms(1), of "[]" t d v, unfolded append_Nil tw list.size add_0, OF assms(3-6)])
  ultimately show ?thesis by simp
qed

text \<open>The end of a page holds no tag: it stands for itself.\<close>

lemma ssi_text_end:
  assumes "ssi_text d st t = Some out" and "length t < 64"
  shows "st = None" and "out = t"
proof -
  show st: "st = None" using assms by (cases st) (simp_all add: ssi_text.simps)
  show "out = t" using assms unfolding st
  proof (induction t arbitrary: out)
    case Nil
    then show ?case by (simp add: ssi_text.simps)
  next
    case (Cons x t)
    have "length (drop 5 (x # t)) < 64" using Cons.prems(2) by simp
    then have "ssi_text d (Some []) (drop 5 (x # t)) = None" by (simp add: ssi_text.simps)
    then show ?case using Cons by (auto simp: ssi_text.simps(1) [of d "x # t"] split: if_splits)
  qed
qed

section \<open>The scanner\<close>

text \<open>The part of the cache that is not consumed yet, and the name that is being read.\<close>

definition cache_rest :: "SSI_Context \<Rightarrow> nat \<Rightarrow> string" where
  "cache_rest s k = drop k (take (cacheOffset s) (cache s))"

definition reading :: "SSI_Context \<Rightarrow> string option" where
  "reading s = (if ssiState s = 2 then Some (take (tagLength s) (tagName s)) else None)"

definition ssi_inv :: "SSI_Context \<Rightarrow> bool" where
  "ssi_inv s \<longleftrightarrow> ssiState s \<in> {0, 1, 2} \<and> length (cache s) = 64 \<and> cacheOffset s \<le> 64 \<and> tagLength s < 64 \<and>
     (ssiState s \<noteq> 2 \<longrightarrow> tagLength s = 0) \<and>
     (\<exists>nm. length nm = tagLength s \<and> tagName s = nm @ replicate (64 - tagLength s) NUL)"

definition sign :: "char \<Rightarrow> bool" where
  "sign c \<longleftrightarrow> c \<in> {CHR ''<'', CHR ''!'', CHR ''-'', CHR ''#'', CHR ''>''}"

lemma of_char_u8_inj: "(of_char x :: u8) = of_char y \<longleftrightarrow> x = y"
proof
  assume "(of_char x :: u8) = of_char y"
  then have "(of_nat (of_char x) :: u8) = of_nat (of_char y)" by (simp only: of_nat_of_char)
  then have "unat (of_nat (of_char x) :: u8) = unat (of_nat (of_char y) :: u8)" by (rule arg_cong)
  then have "(of_char x :: nat) = of_char y" by (simp only: unat_of_nat) simp
  then show "x = y" by simp
qed simp

lemma ToUpper_cases: "ToUpper x = of_char x \<or> (65 \<le> ToUpper x \<and> ToUpper x \<le> 90)"
proof (cases "97 \<le> (of_char x :: u8) \<and> (of_char x :: u8) \<le> 122")
  case True
  have "\<forall>n \<in> {97..<123 :: nat}. 65 \<le> (of_nat n AND 0xDF :: u8) \<and> (of_nat n AND 0xDF :: u8) \<le> 90"
    unfolding atLeastLessThan_upt by (simp add: upt_rec)
  moreover have "unat (of_char x :: u8) \<in> {97..<123}" using True by (simp add: word_le_nat_alt)
  ultimately have "65 \<le> (of_nat (unat (of_char x :: u8)) AND 0xDF :: u8) \<and> (of_nat (unat (of_char x :: u8)) AND 0xDF :: u8) \<le> 90"
    by blast
  then show ?thesis using True by (simp add: ToUpper_def Let_def)
qed (auto simp: ToUpper_def Let_def)

lemma ToUpper_sign:
  assumes "sign c"
  shows "ToUpper x = ToUpper c \<longleftrightarrow> x = c"
proof -
  have "ToUpper c = of_char c \<and> \<not> (65 \<le> (of_char c :: u8) \<and> (of_char c :: u8) \<le> 90)"
    using assms by (auto simp: sign_def ToUpper_def)
  then show ?thesis using ToUpper_cases [of x] of_char_u8_inj [of x c] by metis
qed

lemma Strnicmp_sign:
  assumes "\<forall>c \<in> set t. sign c" and "length t = n"
  shows "Strnicmp (takeWhile (\<lambda>x. x \<noteq> NUL) b) t n = 0 \<longleftrightarrow> take n b = t"
proof -
  have e: "map ToUpper u = map ToUpper t \<longleftrightarrow> u = t" for u
    using assms(1) by (induction t arbitrary: u) (auto simp: map_eq_Cons_conv ToUpper_sign)
  have "take n (takeWhile (\<lambda>x. x \<noteq> NUL) b) = t \<longleftrightarrow> take n b = t"
  proof
    assume h: "take n (takeWhile (\<lambda>x. x \<noteq> NUL) b) = t"
    let ?w = "takeWhile (\<lambda>x. x \<noteq> NUL) b"
    have "length (take n ?w) = n" using h assms(2) by simp
    then have "n \<le> length ?w" by simp
    then have "take n b = take n ?w" by (subst takeWhile_eq_take) (simp add: min_absorb1)
    with h show "take n b = t" by simp
  next
    assume h: "take n b = t"
    have "\<not> sign NUL" by (simp add: sign_def)
    then have "NUL \<notin> set t" using assms(1) by blast
    then have "takeWhile (\<lambda>x. x \<noteq> NUL) (t @ drop n b) = t @ takeWhile (\<lambda>x. x \<noteq> NUL) (drop n b)"
      by (intro takeWhile_append2) auto
    moreover have "b = t @ drop n b" using h append_take_drop_id [of n b] by simp
    ultimately have "takeWhile (\<lambda>x. x \<noteq> NUL) b = t @ takeWhile (\<lambda>x. x \<noteq> NUL) (drop n b)" by simp
    then show "take n (takeWhile (\<lambda>x. x \<noteq> NUL) b) = t" using assms(2) by simp
  qed
  then show ?thesis unfolding Strnicmp_zero_iff using e assms(2) by simp
qed

lemma tag_signs: "\<forall>c \<in> set tagStart. sign c" "\<forall>c \<in> set tagEnd. sign c" "length tagStart = 5" "length tagEnd = 3"
  by (simp_all add: tagStart_def tagEnd_def sign_def)

text \<open>The comparisons of the scanner on the cache_rest bytes, when enough of them are there.\<close>

lemma scan_test:
  assumes "k + length t \<le> cacheOffset s" and "ssi_inv s" and "\<forall>c \<in> set t. sign c"
  shows "Strnicmp (cache_at s k) t (length t) = 0 \<longleftrightarrow> prefix t (cache_rest s k @ r)"
proof -
  have "take (length t) (drop k (cache s)) = take (length t) (cache_rest s k)"
    using assms(1) by (simp add: cache_rest_def drop_take)
  moreover have "length t \<le> length (cache_rest s k)" using assms(1,2) by (simp add: cache_rest_def ssi_inv_def)
  ultimately show ?thesis
    by (auto simp: cache_at_def Strnicmp_sign [OF assms(3) refl] prefix_def dest: sym)
      (metis append_eq_append_conv_if append_take_drop_id)+
qed

text \<open>
  What a scan achieves: it appends a block \<open>b\<close> of the text of the page to the send buffer, and what it leaves
  cache_rest, with what follows in the file, stands for the rest of the text.
\<close>

definition scan_ok ::
  "device \<Rightarrow> nat \<Rightarrow> nat \<Rightarrow> string \<Rightarrow> SSI_Context \<Rightarrow> cbuf \<Rightarrow> nat \<Rightarrow> nat \<Rightarrow> string \<Rightarrow>
     (SSI_Context \<times> cbuf \<times> nat \<times> nat \<times> bool) option \<Rightarrow> bool" where
  "scan_ok d off m r s sb n k out res \<longleftrightarrow> (\<exists>s' k' flush b out'.
     res = Some (s', take (off + n) sb @ b @ drop (off + n + length b) sb, n + length b, k', flush) \<and>
     n + length b \<le> m \<and> out = b @ out' \<and> ssi_inv s' \<and> cache s' = cache s \<and> cacheOffset s' = cacheOffset s \<and>
     ssi_fp s' = ssi_fp s \<and> ssi s' = ssi s \<and> k \<le> k' \<and> k' \<le> cacheOffset s \<and>
     ssi_text d (reading s') (cache_rest s' k' @ r) = Some out' \<and> (flush \<longrightarrow> k < k') \<and>
     (\<not> flush \<longrightarrow> n + length b < m \<and> cacheOffset s < k' + 5 \<and> (ssiState s' = 2 \<longrightarrow> n + length b = 0)))"

lemma scan_ok_now:
  assumes "ssi_inv s'" "cache s' = cache s" "cacheOffset s' = cacheOffset s" "ssi_fp s' = ssi_fp s" "ssi s' = ssi s"
    "k \<le> k'" "k' \<le> cacheOffset s" "ssi_text d (reading s') (cache_rest s' k' @ r) = Some out" "flush \<longrightarrow> k < k'" "n \<le> m"
    "\<not> flush \<longrightarrow> n < m \<and> cacheOffset s < k' + 5 \<and> (ssiState s' = 2 \<longrightarrow> n = 0)"
  shows "scan_ok d off m r s sb n k out (Some (s', sb, n, k', flush))"
  unfolding scan_ok_def using assms
  by (intro exI [of _ s'] exI [of _ k'] exI [of _ flush] exI [of _ "[]"] exI [of _ out]) simp

lemma scan_ok_step:
  assumes "scan_ok d off m r s1 (take (off + n) sb @ b @ drop (off + n + length b) sb) (n + length b) k1 out1 res"
    and "cache s1 = cache s" "cacheOffset s1 = cacheOffset s" "ssi_fp s1 = ssi_fp s" "ssi s1 = ssi s" "k < k1"
    and "off + m \<le> length sb" and "out = b @ out1"
  shows "scan_ok d off m r s sb n k out res"
proof -
  from assms(1) obtain s' k' flush c out' where h:
    "res = Some (s', take (off + (n + length b)) (take (off + n) sb @ b @ drop (off + n + length b) sb) @ c @
       drop (off + (n + length b) + length c) (take (off + n) sb @ b @ drop (off + n + length b) sb),
       n + length b + length c, k', flush)"
    "n + length b + length c \<le> m" "out1 = c @ out'" "ssi_inv s'" "cache s' = cache s1" "cacheOffset s' = cacheOffset s1"
    "ssi_fp s' = ssi_fp s1" "ssi s' = ssi s1" "k1 \<le> k'" "k' \<le> cacheOffset s1"
    "ssi_text d (reading s') (cache_rest s' k' @ r) = Some out'" "flush \<longrightarrow> k1 < k'"
    "\<not> flush \<longrightarrow> n + length b + length c < m \<and> cacheOffset s1 < k' + 5 \<and> (ssiState s' = 2 \<longrightarrow> n + length b + length c = 0)"
    unfolding scan_ok_def by blast
  have "length (take (off + n) sb) = off + n" using h(2) assms(7) by simp
  then have "take (off + (n + length b)) (take (off + n) sb @ b @ drop (off + n + length b) sb) @ c @
       drop (off + (n + length b) + length c) (take (off + n) sb @ b @ drop (off + n + length b) sb) =
     take (off + n) sb @ (b @ c) @ drop (off + n + length (b @ c)) sb" by (simp add: ac_simps)
  then show ?thesis
    unfolding scan_ok_def using h assms(2-6,8)
    by (intro exI [of _ s'] exI [of _ k'] exI [of _ flush] exI [of _ "b @ c"] exI [of _ out']) (simp add: add.assoc)
qed

lemma cache_rest_Cons: "k < cacheOffset s \<Longrightarrow> ssi_inv s \<Longrightarrow> cache_rest s k = cache s ! k # cache_rest s (Suc k)"
  by (simp add: cache_rest_def ssi_inv_def Cons_nth_drop_Suc [symmetric])

lemma cache_rest_drop: "cache_rest s k @ r = t \<Longrightarrow> k + j \<le> cacheOffset s \<Longrightarrow> ssi_inv s \<Longrightarrow> cache_rest s (k + j) @ r = drop j t"
  by (auto simp: cache_rest_def ssi_inv_def add.commute)

lemma cache_rest_upd [simp]:
  "cache_rest (s\<lparr>ssiState := a\<rparr>) k = cache_rest s k" "cache_rest (s\<lparr>tagLength := l\<rparr>) k = cache_rest s k" "cache_rest (s\<lparr>tagName := nm\<rparr>) k = cache_rest s k"
  by (simp_all add: cache_rest_def)

lemma tag_inv_parts:
  assumes "ssi_inv s"
  obtains nm where "length nm = tagLength s" "tagName s = nm @ replicate (64 - tagLength s) NUL" "take (tagLength s) (tagName s) = nm"
  using assms by (auto simp: ssi_inv_def)

lemma add_tag_char_spec:
  assumes "ssi_inv s" and "ssiState s = 2" and "tagLength s < 63"
  shows "\<exists>s'. add_tag_char x s = Some s' \<and> ssi_inv s' \<and> reading s' = Some (take (tagLength s) (tagName s) @ [x]) \<and>
     ssiState s' = 2 \<and> cache s' = cache s \<and> cacheOffset s' = cacheOffset s \<and> ssi_fp s' = ssi_fp s \<and> ssi s' = ssi s"
proof -
  obtain nm where nm: "length nm = tagLength s" "tagName s = nm @ replicate (64 - tagLength s) NUL" "take (tagLength s) (tagName s) = nm"
    using assms(1) by (rule tag_inv_parts)
  obtain z where z: "64 - tagLength s = Suc (Suc z)" "z = 62 - tagLength s" using assms(3) by (auto simp: numeral_eq_Suc Suc_diff_le)
  have t: "tagName s = nm @ NUL # NUL # replicate z NUL" by (simp add: nm(2) z(1))
  have w: "c_wr (tagName s) (tagLength s) x = Some (nm @ x # NUL # replicate z NUL)"
    by (simp add: c_wr_def t list_update_append flip: nm(1))
  have w2: "c_wr (nm @ x # NUL # replicate z NUL) (tagLength s + 1) NUL = Some (nm @ x # NUL # replicate z NUL)"
    by (simp add: c_wr_def list_update_append flip: nm(1))
  let ?s = "s\<lparr>tagName := nm @ x # NUL # replicate z NUL, tagLength := tagLength s + 1\<rparr>"
  have "add_tag_char x s = Some ?s" using w2 by (simp add: add_tag_char_def w)
  moreover have "63 - tagLength s = Suc (62 - tagLength s)" using assms(3) by simp
  then have "ssi_inv ?s" using assms z nm(1)
    by (auto simp: ssi_inv_def intro!: exI [of _ "nm @ [x]"])
  moreover have "reading ?s = Some (nm @ [x])" using assms(2) nm(1) by (simp add: reading_def)
  ultimately show ?thesis using assms(2) nm(3) by auto
qed

lemma tag_name_str:
  assumes "ssi_inv s"
  shows "c_str (tagName s) 0 = Some (takeWhile (\<lambda>c. c \<noteq> NUL) (take (tagLength s) (tagName s)))"
proof -
  obtain nm where nm: "length nm = tagLength s" "tagName s = nm @ replicate (64 - tagLength s) NUL" "take (tagLength s) (tagName s) = nm"
    using assms by (rule tag_inv_parts)
  obtain z where "64 - tagLength s = Suc z" using assms by (auto simp: ssi_inv_def dest: less_imp_Suc_add)
  then have "tagName s = nm @ NUL # replicate z NUL" using nm(2) by simp
  then show ?thesis unfolding nm(3) by (auto simp: c_str_def takeWhile_append takeWhile_eq_all_conv [THEN iffD2])
qed

lemma scan_start: "k + 5 \<le> cacheOffset s \<Longrightarrow> ssi_inv s \<Longrightarrow>
    Strnicmp (cache_at s k) tagStart 5 = 0 \<longleftrightarrow> prefix tagStart (cache_rest s k @ r)"
  and scan_end: "k + 3 \<le> cacheOffset s \<Longrightarrow> ssi_inv s \<Longrightarrow>
    Strnicmp (cache_at s k) tagEnd 3 = 0 \<longleftrightarrow> prefix tagEnd (cache_rest s k @ r)"
  using scan_test [of k tagStart s r] scan_test [of k tagEnd s r] tag_signs by simp_all

lemma tag_first: "prefix tagStart (x # t) \<Longrightarrow> x = CHR ''<''" "prefix tagEnd (x # t) \<Longrightarrow> x = CHR ''-''"
  by (simp_all add: tagStart_def tagEnd_def)

definition scan_pre :: "device \<Rightarrow> nat \<Rightarrow> nat \<Rightarrow> string \<Rightarrow> SSI_Context \<Rightarrow> cbuf \<Rightarrow> nat \<Rightarrow> nat \<Rightarrow> string \<Rightarrow> bool" where
  "scan_pre d off m r s sb n k out \<longleftrightarrow> ssi_inv s \<and> k \<le> cacheOffset s \<and> n < m \<and> off + m \<le> length sb \<and> 113 \<le> m \<and>
     (ssiState s = 2 \<longrightarrow> n = 0) \<and> ssi_text d (reading s) (cache_rest s k @ r) = Some out"

lemma scan_searching:
  assumes p: "scan_pre d off m r s sb n k out" and k: "k < cacheOffset s" and st: "ssiState s \<noteq> 2"
    and IH: "\<And>s' sb' n' k' out'. cacheOffset s' - k' < cacheOffset s - k \<Longrightarrow> scan_pre d off m r s' sb' n' k' out' \<Longrightarrow>
      scan_ok d off m r s' sb' n' k' out' (ssi_scan d off (int m) s' sb' n' k')"
  shows "scan_ok d off m r s sb n k out (ssi_scan d off (int m) s sb n k)"
proof -
  note pre = p [unfolded scan_pre_def]
  have inv: "ssi_inv s" and fits: "off + m \<le> length sb" and tx: "ssi_text d (reading s) (cache_rest s k @ r) = Some out"
    using pre by simp_all
  define x where "x = cache s ! k"
  have rd: "c_rd (cache s) k = Some x" using k inv by (simp add: x_def c_rd_def ssi_inv_def)
  have u: "cache_rest s k = x # cache_rest s (Suc k)" unfolding x_def by (rule cache_rest_Cons [OF k inv])
  define s1 where "s1 = s\<lparr>ssiState := 1\<rparr>"
  have s1: "(if ssiState s = 0 then s\<lparr>ssiState := 1\<rparr> else s) = s1" "ssiState s1 = 1" "ssi_inv s1" "reading s1 = None"
    "cache s1 = cache s" "cacheOffset s1 = cacheOffset s" "ssi_fp s1 = ssi_fp s" "ssi s1 = ssi s" "tagLength s1 = 0"
    using st inv by (auto simp: s1_def ssi_inv_def reading_def)
  have ca: "cache_at s1 k = cache_at s k" by (simp add: cache_at_def s1_def)
  have rn: "reading s = None" using st by (simp add: reading_def)
  let ?copy = "x \<noteq> CHR ''<'' \<or> k + 5 \<le> cacheOffset s \<and> Strnicmp (cache_at s k) tagStart 5 \<noteq> 0"
  have sc: "ssi_scan d off (int m) s sb n k = (if ?copy then do { sb \<leftarrow> c_wr sb (off + n) x;
         if int m \<le> int n + 1 then Some (s1, sb, n + 1, k + 1, True) else ssi_scan d off (int m) s1 sb (n + 1) (k + 1) }
       else if k + 5 \<le> cacheOffset s then Some (s1\<lparr>ssiState := 2\<rparr>, sb, n, k + 5, True) else Some (s1, sb, n, k, False))"
    using k s1 rd by (subst ssi_scan.simps) (simp add: Let_def ca)
  show ?thesis
  proof (cases ?copy)
    case True
    have "\<not> prefix tagStart (cache_rest s k @ r)"
      using True scan_start [of k s r] inv u tag_first(1) by auto
    then have "map_option (Cons x) (ssi_text d None (cache_rest s (Suc k) @ r)) = Some out"
      using tx by (simp add: rn u ssi_text.simps(1) [of d "x # t" for t])
    then obtain out1 where o: "out = x # out1" "ssi_text d None (cache_rest s (Suc k) @ r) = Some out1" by auto
    let ?sb = "take (off + n) sb @ [x] @ drop (off + n + length [x]) sb"
    have w: "c_wr sb (off + n) x = Some ?sb"
      using pre by (simp add: c_wr_def upd_conv_take_nth_drop)
    show ?thesis
    proof (cases "int m \<le> int n + 1")
      case full: True
      have "ssi_text d (reading s1) (cache_rest s1 (Suc k) @ r) = Some out1" using o(2) s1(4) by (simp add: s1_def)
      then show ?thesis unfolding sc scan_ok_def using True full s1 o(1) k pre
        by (intro exI [of _ s1] exI [of _ "Suc k"] exI [of _ True] exI [of _ "[x]"] exI [of _ out1]) (simp add: w)
    next
      case more: False
      have "n < m" using pre by simp
          then have lsb: "length ?sb = length sb" using fits by simp
      have un: "cache_rest s1 (k + 1) = cache_rest s (Suc k)" by (simp add: s1_def)
      have "scan_ok d off m r s1 ?sb (n + length [x]) (k + 1) out1 (ssi_scan d off (int m) s1 ?sb (n + length [x]) (k + 1))"
        using more s1 o(2) k pre un lsb by (intro IH) (simp_all add: scan_pre_def)
      from scan_ok_step [OF this s1(5-8) _ fits, of k out] show ?thesis using True more o(1) by (simp add: sc w)
    qed
  next
    case False
    then have x: "x = CHR ''<''" and l: "k + 5 \<le> cacheOffset s \<longrightarrow> Strnicmp (cache_at s k) tagStart 5 = 0" by auto
    show ?thesis
    proof (cases "k + 5 \<le> cacheOffset s")
      case True
      then have p: "prefix tagStart (cache_rest s k @ r)" using scan_start [of k s r] inv l by simp
      have "ssi_text d (Some []) (cache_rest s (k + 5) @ r) = Some out"
        using tx p u cache_rest_drop [OF refl True inv] by (simp add: rn ssi_text.simps(1))
      moreover have "ssi_inv (s1\<lparr>ssiState := 2\<rparr>)" "reading (s1\<lparr>ssiState := 2\<rparr>) = Some []"
        using s1(3,9) by (auto simp: ssi_inv_def reading_def)
      moreover have "cache_rest s1 (k + 5) = cache_rest s (k + 5)" by (simp add: s1_def)
      ultimately have "scan_ok d off m r s sb n k out (Some (s1\<lparr>ssiState := 2\<rparr>, sb, n, k + 5, True))"
        using True s1(5-8) pre by (intro scan_ok_now) simp_all
      then show ?thesis unfolding sc if_not_P [OF False] if_P [OF True] .
    next
      case no: False
      have "cache_rest s1 k = cache_rest s k" by (simp add: s1_def)
      then have "scan_ok d off m r s sb n k out (Some (s1, sb, n, k, False))"
        using no s1 rn tx pre by (intro scan_ok_now) simp_all
      then show ?thesis unfolding sc if_not_P [OF False] if_not_P [OF no] .
    qed
  qed
qed

lemma scan_naming:
  assumes p: "scan_pre d off m r s sb n k out" and k: "k < cacheOffset s" and st: "ssiState s = 2"
    and IH: "\<And>s' sb' n' k' out'. cacheOffset s' - k' < cacheOffset s - k \<Longrightarrow> scan_pre d off m r s' sb' n' k' out' \<Longrightarrow>
      scan_ok d off m r s' sb' n' k' out' (ssi_scan d off (int m) s' sb' n' k')"
  shows "scan_ok d off m r s sb n k out (ssi_scan d off (int m) s sb n k)"
proof -
  note pre = p [unfolded scan_pre_def]
  have inv: "ssi_inv s" and fits: "off + m \<le> length sb" and tx: "ssi_text d (reading s) (cache_rest s k @ r) = Some out"
    using pre by simp_all
  define x where "x = cache s ! k"
  have rd: "c_rd (cache s) k = Some x" using k inv by (simp add: x_def c_rd_def ssi_inv_def)
  have u: "cache_rest s k = x # cache_rest s (Suc k)" unfolding x_def by (rule cache_rest_Cons [OF k inv])
  define nm where "nm = take (tagLength s) (tagName s)"
  have ln: "length nm = tagLength s" using inv by (auto simp: nm_def ssi_inv_def)
  have rn: "reading s = Some nm" by (simp add: reading_def st nm_def)
  have n0: "n = 0" using pre st by simp
  let ?copy = "x \<noteq> CHR ''-'' \<or> k + 3 \<le> cacheOffset s \<and> Strnicmp (cache_at s k) tagEnd 3 \<noteq> 0"
  let ?s3 = "s\<lparr>ssiState := 0, tagLength := 0, tagName := c_memset0 (tagName s)\<rparr>"
  have sc: "ssi_scan d off (int m) s sb n k = (if ?copy then do { s \<leftarrow> add_tag_char x s; ssi_scan d off (int m) s sb n (k + 1) }
       else if k + 3 \<le> cacheOffset s then do { name \<leftarrow> c_str (tagName s) 0;
           (nAppend, sb) \<leftarrow> ReplaceTag d name sb (off + n) (int m - int n - 50);
           ssi_scan d off (int m) ?s3 sb (n + nAppend) (k + 3) } else Some (s, sb, n, k, False))"
    using k st rd by (subst ssi_scan.simps) (simp add: Let_def)
  show ?thesis
  proof (cases ?copy)
    case True
    have "\<not> prefix tagEnd (cache_rest s k @ r)"
      using True scan_end [of k s r] inv u tag_first(2) by auto
    then have t: "tagLength s < 63" "ssi_text d (Some (nm @ [x])) (cache_rest s (Suc k) @ r) = Some out"
      using tx by (auto simp: rn u ssi_text.simps(2) [of d nm "x # t" for t] ln split: if_splits)
    from add_tag_char_spec [OF inv st t(1), of x] obtain s2 where s2: "add_tag_char x s = Some s2" "ssi_inv s2"
      "reading s2 = Some (nm @ [x])" "ssiState s2 = 2" "cache s2 = cache s" "cacheOffset s2 = cacheOffset s"
      "ssi_fp s2 = ssi_fp s" "ssi s2 = ssi s" by (auto simp: nm_def)
    have "scan_ok d off m r s2 sb n (k + 1) out (ssi_scan d off (int m) s2 sb n (k + 1))"
      using s2 t k pre n0 by (intro IH) (auto simp: cache_rest_def scan_pre_def)
    then show ?thesis using scan_ok_step [where b = "[]", OF _ s2(5-8) _ fits, of d r n "k + 1"] True
      by (simp add: sc s2(1))
  next
    case False
    then have x: "x = CHR ''-''" and l: "k + 3 \<le> cacheOffset s \<longrightarrow> Strnicmp (cache_at s k) tagEnd 3 = 0" by auto
    show ?thesis
    proof (cases "k + 3 \<le> cacheOffset s")
      case True
      then have p: "prefix tagEnd (cache_rest s k @ r)" using scan_end [of k s r] inv l by simp
      obtain v out1 where v: "tag_text (takeWhile (\<lambda>c. c \<noteq> NUL) nm) d = Some v" "length v < 64" "out = v @ out1"
        "ssi_text d None (cache_rest s (k + 3) @ r) = Some out1"
        using tx p u cache_rest_drop [OF refl True inv]
        by (auto simp: rn ssi_text.simps(2) bind_eq_Some_conv split: if_splits)
      have rt: "ReplaceTag d (takeWhile (\<lambda>c. c \<noteq> NUL) nm) sb (off + n) (int m - int n - 50) =
          Some (length v, take (off + n) sb @ v @ drop (off + n + length v) sb)"
        using v(1,2) pre n0 by (intro ReplaceTag_text) auto
      have i3: "ssi_inv ?s3" "reading ?s3 = None"
        using inv by (auto simp: ssi_inv_def reading_def c_memset0_def)
      have "scan_ok d off m r ?s3 (take (off + n) sb @ v @ drop (off + n + length v) sb) (n + length v) (k + 3) out1
          (ssi_scan d off (int m) ?s3 (take (off + n) sb @ v @ drop (off + n + length v) sb) (n + length v) (k + 3))"
        using i3 v True n0 pre by (intro IH) (auto simp: scan_pre_def)
      then show ?thesis using scan_ok_step [OF _ _ _ _ _ _ fits v(3), of d r ?s3 n "k + 3"] False True
          tag_name_str [OF inv] rt by (simp add: sc nm_def)
    next
      case no: False
      have "scan_ok d off m r s sb n k out (Some (s, sb, n, k, False))"
        using no pre by (intro scan_ok_now) simp_all
      then show ?thesis unfolding sc if_not_P [OF False] if_not_P [OF no] .
    qed
  qed
qed

lemma ssi_scan_spec:
  "scan_pre d off m r s sb n k out \<Longrightarrow> scan_ok d off m r s sb n k out (ssi_scan d off (int m) s sb n k)"
proof (induction "cacheOffset s - k" arbitrary: s sb n k out rule: less_induct)
  case less
  show ?case
  proof (cases "k < cacheOffset s")
    case False
    then have "k = cacheOffset s" using less.prems by (simp add: scan_pre_def)
    then show ?thesis using less.prems by (subst ssi_scan.simps) (auto simp: scan_pre_def intro!: scan_ok_now)
  next
    case True
    then show ?thesis using scan_searching [OF less.prems True _ less.hyps] scan_naming [OF less.prems True _ less.hyps] by blast
  qed
qed

section \<open>A block of a page\<close>

text \<open>
  The page behind a context: an open file, read up to \<open>i\<close>, with the rest of the last read in the cache. What is
  not sent yet is the cache and the rest of the file.
\<close>

definition page_at :: "SSI_Context \<Rightarrow> handle \<Rightarrow> string \<Rightarrow> nat \<Rightarrow> file_system \<Rightarrow> bool" where
  "page_at s f page i fs \<longleftrightarrow> ssi_inv s \<and> ssi_fp s = Some f \<and> 0 < ssi s \<and> file_valid f fs \<and> file_content f fs = page \<and>
     file_pos f fs = i \<and> i \<le> length page"

definition unsent :: "SSI_Context \<Rightarrow> string \<Rightarrow> nat \<Rightarrow> string" where
  "unsent s page i = take (cacheOffset s) (cache s) @ drop i page"

text \<open>What a block achieves, for the loop and for the whole call.\<close>

definition block_ok :: "device \<Rightarrow> nat \<Rightarrow> nat \<Rightarrow> string \<Rightarrow> handle \<Rightarrow> string \<Rightarrow> SSI_Context \<Rightarrow> cbuf \<Rightarrow> nat \<Rightarrow> nat \<Rightarrow>
    (bool \<times> SSI_Context \<times> cbuf \<times> nat \<times> int \<times> file_system) option \<Rightarrow> bool" where
  "block_ok d off m page f out s sb n i res \<longleftrightarrow> (\<exists>s' fs' j b out'.
     res = Some (True, s', take (off + n) sb @ b @ drop (off + n + length b) sb, n + length b, int j, fs') \<and>
     n + length b \<le> m \<and> out = b @ out' \<and> page_at s' f page j fs' \<and> ssi_text d (reading s') (unsent s' page j) = Some out' \<and>
     cacheOffset s' < 64 \<and> i \<le> j \<and> (j = length page \<or> length (unsent s' page j) < length (unsent s page i)))"

lemma read_step:
  assumes "page_at s f page i fs" and "i < length page" and "cacheOffset s < 64"
  defines "m \<equiv> min (length page - i) (64 - cacheOffset s)"
  shows "\<exists>fs'. WEB_fread (Some f) m fs = Some (Some (take m (drop i page)), fs') \<and>
     file_valid f fs' \<and> file_content f fs' = page \<and> file_pos f fs' = i + m \<and>
     c_cpy (cache s) (cacheOffset s) (take m (drop i page)) =
       Some (take (cacheOffset s) (cache s) @ take m (drop i page) @ drop (cacheOffset s + m) (cache s))"
proof -
  have l: "length (take m (drop i page)) = m" using assms(2) by (simp add: m_def)
  have "i + m \<le> length page" using assms(2) by (simp add: m_def)
  then show ?thesis
    using web_file.rd_law [of f fs m] assms(1,3) l by (auto simp: page_at_def c_cpy_def ssi_inv_def m_def)
qed

lemma shift_cache:
  assumes "ssi_inv s" and "c \<le> cacheOffset s"
  defines "l \<equiv> cacheOffset s - c"
  shows "\<exists>ca. (if 0 < l then c_memmove (cache s) 0 c l else Some (cache s)) = Some ca \<and> length ca = 64 \<and> take l ca = cache_rest s c"
proof -
  have h: "length (cache s) = 64" "cacheOffset s \<le> 64" using assms(1) by (simp_all add: ssi_inv_def)
  have u: "take l (drop c (cache s)) = cache_rest s c" by (simp add: cache_rest_def l_def drop_take)
  have lu: "length (cache_rest s c) = l" using h by (simp add: cache_rest_def l_def)
  show ?thesis
  proof (cases "0 < l")
    case True
    have "c_bytes (cache s) c l = Some (cache_rest s c)" using h assms(2) u by (simp add: c_bytes_def l_def)
    moreover have "c_cpy (cache s) 0 (cache_rest s c) = Some (cache_rest s c @ drop l (cache s))"
      using h lu by (simp add: c_cpy_def l_def)
    ultimately have "c_memmove (cache s) 0 c l = Some (cache_rest s c @ drop l (cache s))" by (simp add: c_memmove_def)
    then show ?thesis using True h lu by (simp add: l_def)
  next
    case False
    then show ?thesis using h lu by simp
  qed
qed

text \<open>The number of bytes that the loop asks for.\<close>

lemma loop_read:
  assumes "i < n" and "k < 64"
  shows "nat (min (int n - int i) (64 - int k)) = min (n - i) (64 - k)" and "\<not> min (int n - int i) (64 - int k) < 0"
  using assms by (auto simp: min_def nat_diff_distrib)

text \<open>One round of the loop, by what its calls return.\<close>

lemma ssi_loop_round:
  assumes "index < tot" and "cacheOffset s < 64" and "\<not> min (tot - index) (64 - int (cacheOffset s)) < 0"
    and "ssi_fp s = Some f" and "WEB_fread (Some f) (nat (min (tot - index) (64 - int (cacheOffset s)))) fs = Some (Some bs, fs1)"
    and "c_cpy (cache s) (cacheOffset s) bs = Some ca1"
    and "ssi_scan d off m (s\<lparr>cache := ca1, cacheOffset := cacheOffset s + length bs\<rparr>) sb n 0 = Some (s2, sb2, n2, c, flush)"
    and "(if 0 < cacheOffset s2 - c then c_memmove (cache s2) 0 c (cacheOffset s2 - c) else Some (cache s2)) = Some ca"
  shows "ssi_loop d off m s sb n index tot fs =
    (let s3 = s2\<lparr>cache := ca, cacheOffset := cacheOffset s2 - c\<rparr>; next = index + int (length bs) in
     if flush then Some (True, s3, sb2, n2, next, fs1) else ssi_loop d off m s3 sb2 n2 next tot fs1)"
  using assms by (subst ssi_loop.simps) (cases "c < cacheOffset s2"; cases flush; simp add: Let_def)

lemma ssi_loop_end: "\<not> index < tot \<Longrightarrow> ssi_loop d off m s sb n index tot fs = Some (True, s, sb, n, index, fs)"
  by (subst ssi_loop.simps) simp

lemma ssi_loop_spec:
  assumes "page_at s f page i fs" and "cacheOffset s < 64" and "n < m" and "off + m \<le> length sb" and "113 \<le> m"
    and "ssiState s = 2 \<longrightarrow> n = 0" and "ssi_text d (reading s) (unsent s page i) = Some out" and "i < length page"
  shows "block_ok d off m page f out s sb n i (ssi_loop d off (int m) s sb n (int i) (int (length page)) fs)"
  using assms
proof (induction "length page - i" arbitrary: s sb n i fs out rule: less_induct)
  case less
  define k where "k = min (length page - i) (64 - cacheOffset s)"
  have k: "0 < k" "k \<le> 64 - cacheOffset s" "i + k \<le> length page" "k \<le> length page - i"
    using less.prems(2,8) by (auto simp: k_def)
  define dd where "dd = take k (drop i page)"
  have ld: "length dd = k" and dd: "dd @ drop (i + k) page = drop i page"
    using k(3) append_take_drop_id [of k "drop i page"] by (simp_all add: dd_def add.commute)
  obtain fs1 where rd: "WEB_fread (Some f) k fs = Some (Some dd, fs1)" "file_valid f fs1" "file_content f fs1 = page"
    "file_pos f fs1 = i + k" "c_cpy (cache s) (cacheOffset s) dd =
       Some (take (cacheOffset s) (cache s) @ dd @ drop (cacheOffset s + k) (cache s))"
    using read_step [OF less.prems(1,8,2)] unfolding k_def [symmetric] dd_def [symmetric] by blast
  have inv: "ssi_inv s" "ssi_fp s = Some f" "0 < ssi s" using less.prems(1) by (simp_all add: page_at_def)
  let ?ca = "take (cacheOffset s) (cache s) @ dd @ drop (cacheOffset s + k) (cache s)"
  define s1 where "s1 = s\<lparr>cache := ?ca, cacheOffset := cacheOffset s + length dd\<rparr>"
  have s1: "ssi_inv s1" "reading s1 = reading s" "ssiState s1 = ssiState s" "cacheOffset s1 = cacheOffset s + k"
    "ssi_fp s1 = Some f" "ssi s1 = ssi s"
    using inv less.prems(2) k(2) ld by (simp_all add: s1_def ssi_inv_def reading_def)
  have tc: "take (cacheOffset s1) (cache s1) = take (cacheOffset s) (cache s) @ dd"
    using inv(1) less.prems(2) ld by (simp add: s1_def ssi_inv_def)
  have un: "cache_rest s1 0 @ drop (i + k) page = unsent s page i"
    using tc dd by (simp add: cache_rest_def unsent_def)
  have "scan_pre d off m (drop (i + k) page) s1 sb n 0 out"
    using s1 un less.prems by (simp add: scan_pre_def)
  from ssi_scan_spec [OF this] obtain s2 c flush b out1 where sc:
    "ssi_scan d off (int m) s1 sb n 0 = Some (s2, take (off + n) sb @ b @ drop (off + n + length b) sb, n + length b, c, flush)"
    "n + length b \<le> m" "out = b @ out1" "ssi_inv s2" "cache s2 = cache s1" "cacheOffset s2 = cacheOffset s1"
    "ssi_fp s2 = ssi_fp s1" "ssi s2 = ssi s1" "c \<le> cacheOffset s1"
    "ssi_text d (reading s2) (cache_rest s2 c @ drop (i + k) page) = Some out1" "flush \<longrightarrow> 0 < c"
    "\<not> flush \<longrightarrow> n + length b < m \<and> cacheOffset s1 < c + 5 \<and> (ssiState s2 = 2 \<longrightarrow> n + length b = 0)"
    unfolding scan_ok_def by blast
  define l where "l = cacheOffset s2 - c"
  obtain ca where ca: "(if 0 < l then c_memmove (cache s2) 0 c l else Some (cache s2)) = Some ca" "length ca = 64"
    "take l ca = cache_rest s2 c"
    using shift_cache [OF sc(4), of c] sc(6,9) unfolding l_def by auto
  define s3 where "s3 = s2\<lparr>cache := ca, cacheOffset := l\<rparr>"
  let ?j = "i + k" and ?sb = "take (off + n) sb @ b @ drop (off + n + length b) sb"
  have l1: "l = cacheOffset s + k - c" using sc(6) s1(4) by (simp add: l_def)
  have "l \<le> 64 - c" using l1 k(2) less.prems(2) by arith
  note l = l1 this
  have s3: "ssi_inv s3" "reading s3 = reading s2" "unsent s3 page ?j = cache_rest s2 c @ drop ?j page" "cacheOffset s3 = l"
    using sc(4) ca(2,3) l(2) by (simp_all add: s3_def ssi_inv_def reading_def unsent_def)
  have p3: "page_at s3 f page ?j fs1" using s3(1) sc(7,8) s1(5,6) inv rd k(3) by (simp add: page_at_def s3_def)
  have len: "length (unsent s3 page ?j) + c = length (unsent s page i)"
  proof -
    have "length (cache s3) = 64" "length (cache s) = 64" using s3(1) inv(1) by (simp_all add: ssi_inv_def)
    then have "length (unsent s3 page ?j) = l + (length page - ?j)" "length (unsent s page i) = cacheOffset s + (length page - i)"
      using l(2) s3(4) less.prems(2) by (simp_all add: unsent_def)
    then show ?thesis using k(3,4) l(1) sc(9) s1(4) less.prems(8) by linarith
  qed
  have loop: "ssi_loop d off (int m) s sb n (int i) (int (length page)) fs =
      (if flush then Some (True, s3, ?sb, n + length b, int ?j, fs1)
       else ssi_loop d off (int m) s3 ?sb (n + length b) (int ?j) (int (length page)) fs1)"
  proof -
    have "ssi_loop d off (int m) s sb n (int i) (int (length page)) fs =
        (let s3 = s2\<lparr>cache := ca, cacheOffset := cacheOffset s2 - c\<rparr>; next = int i + int (length dd) in
         if flush then Some (True, s3, ?sb, n + length b, next, fs1)
         else ssi_loop d off (int m) s3 ?sb (n + length b) next (int (length page)) fs1)"
    proof (rule ssi_loop_round [OF _ less.prems(2) _ inv(2) _ rd(5)])
      show "int i < int (length page)" using less.prems(8) by simp
      show "\<not> min (int (length page) - int i) (64 - int (cacheOffset s)) < 0"
        "WEB_fread (Some f) (nat (min (int (length page) - int i) (64 - int (cacheOffset s)))) fs = Some (Some dd, fs1)"
        using loop_read [OF less.prems(8,2)] rd(1) unfolding k_def [symmetric] by simp_all
      show "ssi_scan d off (int m) (s\<lparr>cache := ?ca, cacheOffset := cacheOffset s + length dd\<rparr>) sb n 0 =
          Some (s2, ?sb, n + length b, c, flush)" using sc(1) by (simp only: s1_def)
      show "(if 0 < cacheOffset s2 - c then c_memmove (cache s2) 0 c (cacheOffset s2 - c) else Some (cache s2)) = Some ca"
        using ca(1) by (simp only: l_def)
    qed
    then show ?thesis by (simp only: Let_def ld s3_def l_def of_nat_add)
  qed
  show ?case
  proof (cases "flush \<or> ?j = length page")
    case True
    then have "ssi_loop d off (int m) s sb n (int i) (int (length page)) fs = Some (True, s3, ?sb, n + length b, int ?j, fs1)"
      unfolding loop by (cases flush) (simp_all add: ssi_loop_end)
    moreover have "cacheOffset s3 < 64" using True sc(11,12) l s1(4) s3(4) by auto
    moreover have "?j = length page \<or> length (unsent s3 page ?j) < length (unsent s page i)"
      using True sc(11) len by auto
    ultimately show ?thesis
      unfolding block_ok_def using sc(2,3,10) p3 s3(2,3)
      by (intro exI [of _ s3] exI [of _ fs1] exI [of _ ?j] exI [of _ b] exI [of _ out1]) simp
  next
    case False
    then have nr: "\<not> flush" "?j < length page" using p3 by (auto simp: page_at_def)
    then have nb: "n + length b < m" "l < 5" "ssiState s3 = 2 \<longrightarrow> n + length b = 0"
      using sc(6,12) l s1(4) by (auto simp: s3_def)
    have lsb: "length ?sb = length sb" using sc(2) less.prems(4) by simp
    have "block_ok d off m page f out1 s3 ?sb (n + length b) ?j
        (ssi_loop d off (int m) s3 ?sb (n + length b) (int ?j) (int (length page)) fs1)"
      using nr nb p3 s3 sc(10) less.prems(2,4,5,8) lsb k(1) by (intro less.hyps) simp_all
    then obtain s' fs' j b' out' where h:
      "ssi_loop d off (int m) s3 ?sb (n + length b) (int ?j) (int (length page)) fs1 =
         Some (True, s', take (off + (n + length b)) ?sb @ b' @ drop (off + (n + length b) + length b') ?sb,
           n + length b + length b', int j, fs')"
      "n + length b + length b' \<le> m" "out1 = b' @ out'" "page_at s' f page j fs'"
      "ssi_text d (reading s') (unsent s' page j) = Some out'" "cacheOffset s' < 64" "?j \<le> j"
      "j = length page \<or> length (unsent s' page j) < length (unsent s3 page ?j)"
      unfolding block_ok_def by blast
    have "length (take (off + n) sb) = off + n" using sc(2) less.prems(4) by simp
    then have "take (off + (n + length b)) ?sb @ b' @ drop (off + (n + length b) + length b') ?sb =
        take (off + n) sb @ (b @ b') @ drop (off + n + length (b @ b')) sb" by (simp add: ac_simps)
    with h len nr(1) show ?thesis
      unfolding block_ok_def loop using sc(3)
      by (intro exI [of _ s'] exI [of _ fs'] exI [of _ j] exI [of _ "b @ b'"] exI [of _ out']) (auto simp: add.assoc)
  qed
qed

section \<open>Serving a page\<close>

text \<open>A context in the middle of a page, after the blocks up to \<open>i\<close>.\<close>

definition page_ready :: "REQUEST_CONTEXT \<Rightarrow> world \<Rightarrow> SSI_Context \<Rightarrow> handle \<Rightarrow> string \<Rightarrow> nat \<Rightarrow> bool" where
  "page_ready c w s f page i \<longleftrightarrow> requestMethod c \<in> {METHOD_GET, METHOD_POST} \<and> as_ssi (appContext (ctxResponse c)) = Some s \<and>
     page_at s f page i (w_fs w) \<and> cacheOffset s < 64 \<and> dwOperIndex (ctxResponse c) = int i \<and>
     dwTotal (ctxResponse c) = int (length page)"

lemma page_block:
  assumes "page_ready c w s f page i" and "i < length page" and "ssi_text (w_dev w) (reading s) (unsent s page i) = Some out"
    and "113 \<le> m" and "off + m \<le> length (sendBuffer (ctxResponse c))"
  shows "\<exists>b c' w' s' j out'. WEB_ReadContent off (int m) c w = Some (int (length b), c', w') \<and> out = b @ out' \<and>
     sendBuffer (ctxResponse c') = take off (sendBuffer (ctxResponse c)) @ b @ drop (off + length b) (sendBuffer (ctxResponse c)) \<and>
     length b \<le> m \<and> page_ready c' w' s' f page j \<and> w_dev w' = w_dev w \<and> same_conn c c' \<and>
     bytesLeft (ctxResponse c') = bytesLeft (ctxResponse c) \<and> total2Send (ctxResponse c') = total2Send (ctxResponse c) \<and>
     same_transport w w' \<and>
     ssi_text (w_dev w) (reading s') (unsent s' page j) = Some out' \<and>
     (j = length page \<or> length (unsent s' page j) < length (unsent s page i)) \<and>
     dwOperStage (ctxResponse c') = (if j = length page \<and> cacheOffset s' = 0 then STAGE_END else dwOperStage (ctxResponse c) + 1)"
proof -
  let ?r = "ctxResponse c"
  have pr: "requestMethod c = METHOD_GET \<or> requestMethod c = METHOD_POST" "as_ssi (appContext ?r) = Some s" "page_at s f page i (w_fs w)"
    "cacheOffset s < 64" "dwOperIndex ?r = int i" "dwTotal ?r = int (length page)"
    using assms(1) by (simp_all add: page_ready_def)
  have "block_ok (w_dev w) off m page f out s (sendBuffer ?r) 0 i
      (ssi_loop (w_dev w) off (int m) s (sendBuffer ?r) 0 (int i) (int (length page)) (w_fs w))"
    using assms(2-5) pr by (intro ssi_loop_spec) simp_all
  then obtain s' fs' j b out' where h:
    "ssi_loop (w_dev w) off (int m) s (sendBuffer ?r) 0 (int i) (int (length page)) (w_fs w) =
       Some (True, s', take off (sendBuffer ?r) @ b @ drop (off + length b) (sendBuffer ?r), length b, int j, fs')"
    "length b \<le> m" "out = b @ out'" "page_at s' f page j fs'" "ssi_text (w_dev w) (reading s') (unsent s' page j) = Some out'"
    "cacheOffset s' < 64" "j = length page \<or> length (unsent s' page j) < length (unsent s page i)"
    unfolding block_ok_def by auto
  have j: "j \<le> length page" "0 < ssi s'" "0 < ssi s" using h(4) pr(3) by (simp_all add: page_at_def)
  let ?sb = "take off (sendBuffer ?r) @ b @ drop (off + length b) (sendBuffer ?r)"
  let ?c = "upd_rsp (\<lambda>r. r\<lparr>dwOperStage := next_stage s' (int j) (int (length page)) (dwOperStage r)\<rparr>)
    (set_ssi s' (upd_rsp (\<lambda>r. r\<lparr>sendBuffer := ?sb, dwOperIndex := int j\<rparr>) c))"
  have "WEB_ReadContent off (int m) c w = Some (int (length b), ?c, w\<lparr>w_fs := fs'\<rparr>)"
    using pr assms(2) j h(1) by (auto simp: WEB_ReadContent_def Let_def set_ssi_def upd_rsp_def)
  moreover have "page_ready ?c (w\<lparr>w_fs := fs'\<rparr>) s' f page j"
    using pr h(4,6) by (simp add: page_ready_def set_ssi_def upd_rsp_def as_ssi_def)
  moreover have "dwOperStage (ctxResponse ?c) = (if j = length page \<and> cacheOffset s' = 0 then STAGE_END else dwOperStage ?r + 1)"
    using j by (auto simp: set_ssi_def upd_rsp_def next_stage_def)
  moreover have "sendBuffer (ctxResponse ?c) = ?sb" by (simp add: set_ssi_def upd_rsp_def)
  moreover have "same_conn c ?c" "bytesLeft (ctxResponse ?c) = bytesLeft ?r" "total2Send (ctxResponse ?c) = total2Send ?r"
    "same_transport w (w\<lparr>w_fs := fs'\<rparr>)"
    using assms(5) h(2) by (simp_all add: same_conn_def set_ssi_def upd_rsp_def same_transport_def)
  ultimately show ?thesis using h(2,3,5,7)
    by (intro exI [of _ b] exI [of _ ?c] exI [of _ "w\<lparr>w_fs := fs'\<rparr>"] exI [of _ s'] exI [of _ j] exI [of _ out']) simp
qed

text \<open>The call after the last read sends what the cache holds.\<close>

lemma page_tail:
  assumes "page_ready c w s f page (length page)" and "0 < cacheOffset s" and "off + 64 \<le> length (sendBuffer (ctxResponse c))"
  defines "out \<equiv> take (cacheOffset s) (cache s)"
  shows "\<exists>c'. WEB_ReadContent off m c w = Some (int (length out), c', w) \<and> dwOperStage (ctxResponse c') = STAGE_END \<and> same_conn c c' \<and>
     bytesLeft (ctxResponse c') = bytesLeft (ctxResponse c) \<and> total2Send (ctxResponse c') = total2Send (ctxResponse c) \<and>
     sendBuffer (ctxResponse c') = take off (sendBuffer (ctxResponse c)) @ out @ drop (off + length out) (sendBuffer (ctxResponse c))"
proof -
  have pr: "requestMethod c = METHOD_GET \<or> requestMethod c = METHOD_POST" "as_ssi (appContext (ctxResponse c)) = Some s"
    "cacheOffset s < 64" "dwOperIndex (ctxResponse c) = dwTotal (ctxResponse c)" "0 < ssi s" "length (cache s) = 64"
    using assms(1) by (auto simp: page_ready_def page_at_def ssi_inv_def)
  have l: "length out = cacheOffset s" using pr(3,6) by (simp add: out_def)
  have "c_bytes (cache s) 0 (cacheOffset s) = Some out" using pr(3,6) by (simp add: c_bytes_def out_def)
  moreover have "c_cpy (sendBuffer (ctxResponse c)) off out =
      Some (take off (sendBuffer (ctxResponse c)) @ out @ drop (off + length out) (sendBuffer (ctxResponse c)))"
    using assms(3) l pr(3) by (simp add: c_cpy_def)
  ultimately show ?thesis using pr assms(2,3) l
    by (auto simp: WEB_ReadContent_def Let_def set_ssi_def upd_rsp_def same_conn_def)
qed

lemma page_end:
  assumes "page_ready c w s f page (length page)" and "0 < cacheOffset s" and "off + 64 \<le> length (sendBuffer (ctxResponse c))"
    and "ssi_text (w_dev w) (reading s) (unsent s page (length page)) = Some out"
  shows "\<exists>c'. WEB_ReadContent off m c w = Some (int (length out), c', w) \<and> dwOperStage (ctxResponse c') = STAGE_END \<and> same_conn c c' \<and>
     bytesLeft (ctxResponse c') = bytesLeft (ctxResponse c) \<and> total2Send (ctxResponse c') = total2Send (ctxResponse c) \<and>
     sendBuffer (ctxResponse c') = take off (sendBuffer (ctxResponse c)) @ out @ drop (off + length out) (sendBuffer (ctxResponse c))"
proof -
  have "length (cache s) = 64" "cacheOffset s < 64" using assms(1) by (simp_all add: page_ready_def page_at_def ssi_inv_def)
  then have "out = take (cacheOffset s) (cache s)" using ssi_text_end(2) [OF assms(4)] by (simp add: unsent_def)
  then show ?thesis using page_tail [OF assms(1-3)] by simp
qed

text \<open>
  The bytes of a body, by calls with the given places and sizes in the send buffer: the caller takes each block from
  the buffer and stops when the stage says that nothing is left.
\<close>

fun page_body :: "(nat \<times> nat) list \<Rightarrow> REQUEST_CONTEXT \<Rightarrow> world \<Rightarrow> string option" where
  "page_body [] c w = None"
| "page_body ((off, m) # cs) c w =
     do { (n, c, w) \<leftarrow> WEB_ReadContent off (int m) c w;
          let b = take (nat n) (drop off (sendBuffer (ctxResponse c)));
          if dwOperStage (ctxResponse c) = STAGE_END then Some b else map_option ((@) b) (page_body cs c w) }"

definition rest_calls :: "SSI_Context \<Rightarrow> string \<Rightarrow> nat \<Rightarrow> nat" where
  "rest_calls s page i = (if i = length page then 1 else length (unsent s page i) + 2)"

lemma page_body_text:
  assumes "page_ready c w s f page i" and "ssi_text (w_dev w) (reading s) (unsent s page i) = Some out"
    and "i = length page \<longrightarrow> 0 < cacheOffset s" and "rest_calls s page i \<le> length cs"
    and "unat (dwOperStage (ctxResponse c)) + rest_calls s page i < 2 ^ 32 - 1"
    and "\<And>off m. (off, m) \<in> set cs \<Longrightarrow> 113 \<le> m \<and> off + m \<le> length (sendBuffer (ctxResponse c))"
  shows "page_body cs c w = Some out"
  using assms
proof (induction cs arbitrary: c w s i out)
  case Nil
  then show ?case by (simp add: rest_calls_def split: if_splits)
next
  case (Cons a cs)
  obtain off m where a: "a = (off, m)" by (cases a)
  have fit: "113 \<le> m" "off + m \<le> length (sendBuffer (ctxResponse c))" using Cons.prems(6) [of off m] a by simp_all
  have i: "i \<le> length page" using Cons.prems(1) by (simp add: page_ready_def page_at_def)
  show ?case
  proof (cases "i = length page")
    case True
    with page_end [of c w s f page off out "int m"] Cons.prems(1-3) fit show ?thesis by (auto simp: a Let_def)
  next
    case False
    then have lt: "i < length page" using i by simp
    obtain b c' w' s' j out' where h: "WEB_ReadContent off (int m) c w = Some (int (length b), c', w')" "out = b @ out'"
      "sendBuffer (ctxResponse c') = take off (sendBuffer (ctxResponse c)) @ b @ drop (off + length b) (sendBuffer (ctxResponse c))"
      "length b \<le> m" "page_ready c' w' s' f page j" "w_dev w' = w_dev w" "ssi_text (w_dev w) (reading s') (unsent s' page j) = Some out'"
      "j = length page \<or> length (unsent s' page j) < length (unsent s page i)"
      "dwOperStage (ctxResponse c') = (if j = length page \<and> cacheOffset s' = 0 then STAGE_END else dwOperStage (ctxResponse c) + 1)"
      using page_block [OF Cons.prems(1) lt Cons.prems(2) fit] by blast
    have b: "take (nat (int (length b))) (drop off (sendBuffer (ctxResponse c'))) = b" and
      sb: "length (sendBuffer (ctxResponse c')) = length (sendBuffer (ctxResponse c))" using fit h(3,4) by simp_all
    show ?thesis
    proof (cases "j = length page \<and> cacheOffset s' = 0")
      case True
      then have "unsent s' page j = []" by (simp add: unsent_def)
      then have "out' = []" using ssi_text_end(2) [OF h(7)] by simp
      then show ?thesis using h(1,2,9) b True by (simp add: a Let_def)
    next
      case more: False
      have r: "rest_calls s' page j + 1 \<le> rest_calls s page i"
        using h(8) False by (auto simp: rest_calls_def)
      have u: "unat (dwOperStage (ctxResponse c) + 1) = unat (dwOperStage (ctxResponse c)) + 1"
        using Cons.prems(5) by (simp add: unat_word_ariths)
      then have "unat (dwOperStage (ctxResponse c')) \<noteq> unat STAGE_END" using h(9) more Cons.prems(5) r by (simp add: STAGE_END_def)
      then have st: "dwOperStage (ctxResponse c') \<noteq> STAGE_END" by auto
      have "page_body cs c' w' = Some out'"
        using h(5-7,9) more Cons.prems(4-6) r u sb by (intro Cons.IH [of c' w' s' j]) auto
      then show ?thesis using h(1,2) b st by (simp add: a Let_def)
    qed
  qed
qed

text \<open>Opening a page with tags.\<close>

lemma page_opened_form:
  assumes "c_str (responsePath c) 0 = Some path" and "path \<noteq> ''/''" and "c_str (extension c) 0 = Some ext" and "is_ssi_extension ext"
    and "WEB_fopen path ''rb'' (w_fs w) = Some (Some f, fs)" and "file_valid f fs" and "file_pos f fs \<le> length (file_content f fs)"
  shows "\<exists>fs2 oo. WEB_RequestReceived c w =
      Some (set_ssi (zeroSSI\<lparr>ssi_valid := 1, ssi := 1, ssi_fp := Some f\<rparr>)
         (upd_rsp (\<lambda>r. r\<lparr>dwTotal := int (length (file_content f fs))\<rparr>) (c\<lparr>options := oo, fileHandle := Some f\<rparr>)),
        w\<lparr>w_fs := fs2\<rparr>) \<and>
    oo = (let o1 = if handler c = None then options c else or (options c) CGI_OPT_CHUNK_ENABLED
          in if take 3 (drop (file_pos f fs) (file_content f fs)) = gzip_magic then or o1 CGI_OPT_GZIP else o1) \<and>
    file_valid f fs2 \<and> file_content f fs2 = file_content f fs \<and> file_pos f fs2 = 0"
proof -
  obtain fs1 where r: "WEB_fread (Some f) 3 fs = Some (Some (take 3 (drop (file_pos f fs) (file_content f fs))), fs1)"
    "file_valid f fs1" "file_content f fs1 = file_content f fs"
    using web_file.rd_law [OF assms(6,7), of 3] by blast
  obtain z fs2 where k: "WEB_fseek (Some f) 0 fs1 = Some (z, fs2)" "file_valid f fs2" "file_content f fs2 = file_content f fs"
    "file_pos f fs2 = 0"
    using web_file.seek_law [OF r(2), of 0] r(3) by auto
  have sz: "WEB_fsize (Some f) fs2 = Some (int (length (file_content f fs)))"
    using web_file.size_law [OF k(2)] k(3) by simp
  let ?s = "zeroSSI\<lparr>ssi_valid := 1, ssi := 1, ssi_fp := Some f\<rparr>"
  let ?o = "if handler c = None then options c else or (options c) CGI_OPT_CHUNK_ENABLED"
  let ?g = "if take 3 (drop (file_pos f fs) (file_content f fs)) = gzip_magic then or ?o CGI_OPT_GZIP else ?o"
  have "WEB_RequestReceived c w =
      Some (set_ssi ?s (upd_rsp (\<lambda>r. r\<lparr>dwTotal := int (length (file_content f fs))\<rparr>) (c\<lparr>options := ?g, fileHandle := Some f\<rparr>)),
        w\<lparr>w_fs := fs2\<rparr>)"
    using assms(1-5) r(1) k(1) sz
    by (cases "handler c") (simp_all add: WEB_RequestReceived_def Let_def upd_rsp_def set_ssi_def zeroSSI_def)
  then show ?thesis using k(2-4) unfolding Let_def by blast
qed

lemma page_opened:
  assumes "c_str (responsePath c) 0 = Some path" and "path \<noteq> ''/''" and "c_str (extension c) 0 = Some ext" and "is_ssi_extension ext"
    and "WEB_fopen path ''rb'' (w_fs w) = Some (Some f, fs)" and "file_valid f fs" and "file_pos f fs \<le> length (file_content f fs)"
    and "requestMethod c \<in> {METHOD_GET, METHOD_POST}" and "dwOperIndex (ctxResponse c) = 0"
  shows "\<exists>c' w' s. WEB_RequestReceived c w = Some (c', w') \<and> page_ready c' w' s f (file_content f fs) 0 \<and> reading s = None \<and>
     cacheOffset s = 0 \<and> w_dev w' = w_dev w \<and> dwOperStage (ctxResponse c') = dwOperStage (ctxResponse c) \<and>
     sendBuffer (ctxResponse c') = sendBuffer (ctxResponse c)"
proof -
  let ?s = "zeroSSI\<lparr>ssi_valid := 1, ssi := 1, ssi_fp := Some f\<rparr>"
  obtain fs2 oo where o: "WEB_RequestReceived c w =
      Some (set_ssi ?s (upd_rsp (\<lambda>r. r\<lparr>dwTotal := int (length (file_content f fs))\<rparr>) (c\<lparr>options := oo, fileHandle := Some f\<rparr>)),
        w\<lparr>w_fs := fs2\<rparr>)"
    "file_valid f fs2" "file_content f fs2 = file_content f fs" "file_pos f fs2 = 0" using page_opened_form [OF assms(1-7)] by blast
  let ?c = "set_ssi ?s (upd_rsp (\<lambda>r. r\<lparr>dwTotal := int (length (file_content f fs))\<rparr>) (c\<lparr>options := oo, fileHandle := Some f\<rparr>))"
  have s: "ssi_inv ?s" "reading ?s = None" by (auto simp: ssi_inv_def reading_def zeroSSI_def)
  have "page_ready ?c (w\<lparr>w_fs := fs2\<rparr>) ?s f (file_content f fs) 0"
    using assms(8,9) s(1) o(2-4) by (simp add: page_ready_def page_at_def set_ssi_def upd_rsp_def as_ssi_def zeroSSI_def)
  then show ?thesis using o(1) s(2)
    by (intro exI [of _ ?c] exI [of _ "w\<lparr>w_fs := fs2\<rparr>"] exI [of _ ?s]) (simp add: set_ssi_def upd_rsp_def zeroSSI_def)
qed

text \<open>
  C13. A page with tags, from its request to its last byte, for a page that is not empty and smaller than \<open>2^31\<close> bytes
  and whose tags are all closed before its last 64 bytes and have names of at most 63 characters (then \<open>ssi_text\<close> is
  defined): after \<open>WEB_RequestReceived\<close> has opened it, the blocks of 113 bytes or more that \<open>WEB_ReadContent\<close> delivers,
  wherever in the send buffer they are put, join to the text of the page with every tag replaced by its value. They end:
  no more than two calls beyond the size of the page are needed.
\<close>

theorem ssi_page_rendered:
  assumes "c_str (responsePath c) 0 = Some path" and "path \<noteq> ''/''" and "c_str (extension c) 0 = Some ext" and "is_ssi_extension ext"
    and "WEB_fopen path ''rb'' (w_fs w) = Some (Some f, fs)" and "file_valid f fs" and "file_pos f fs \<le> length (file_content f fs)"
    and "requestMethod c \<in> {METHOD_GET, METHOD_POST}" and "dwOperIndex (ctxResponse c) = 0" and "dwOperStage (ctxResponse c) = 0"
    and "file_content f fs \<noteq> []" and "length (file_content f fs) < 2 ^ 31"
    and "ssi_text (w_dev w) None (file_content f fs) = Some out"
    and "length (file_content f fs) + 2 \<le> length calls"
    and "\<forall>(off, m) \<in> set calls. 113 \<le> m \<and> off + m \<le> length (sendBuffer (ctxResponse c))"
  shows "\<exists>c' w'. WEB_RequestReceived c w = Some (c', w') \<and> page_body calls c' w' = Some out"
proof -
  obtain c' w' s where o: "WEB_RequestReceived c w = Some (c', w')" "page_ready c' w' s f (file_content f fs) 0" "reading s = None"
    "cacheOffset s = 0" "w_dev w' = w_dev w" "dwOperStage (ctxResponse c') = 0" "sendBuffer (ctxResponse c') = sendBuffer (ctxResponse c)"
    using page_opened [OF assms(1-9)] assms(10) by auto
  have u: "unsent s (file_content f fs) 0 = file_content f fs" by (simp add: unsent_def o(4))
  then have r: "rest_calls s (file_content f fs) 0 = length (file_content f fs) + 2" using assms(11) by (simp add: rest_calls_def)
  have "page_body calls c' w' = Some out"
    using assms(11-15) o u r by (intro page_body_text [OF o(2)]) auto
  then show ?thesis using o(1) by blast
qed

text \<open>A page in the image with one tag, the vendor's name, and a request for it.\<close>

definition demo_ssi_fs :: "string \<Rightarrow> file_system" where
  "demo_ssi_fs page = (demo_fs False)\<lparr>image := [\<lparr>rom_name = ''/a.ssi'', rom_data = page, rom_time = 1\<rparr>],
     g_FileOpened := replicate 32 (None, 0)\<rparr>"

definition demo_ssi :: REQUEST_CONTEXT where
  "demo_ssi = (zeroContext 0)\<lparr>requestMethod := METHOD_GET, responsePath := ''/a.ssi'' @ [NUL], extension := ''ssi'' @ [NUL]\<rparr>"

lemma demo_ssi_opens: "\<exists>f fs. WEB_fopen ''/a.ssi'' ''rb'' (demo_ssi_fs page) = Some (Some f, fs) \<and> file_valid f fs \<and>
    file_pos f fs = 0 \<and> file_content f fs = page"
proof -
  have "replicate 32 (None, 0) = (None, 0) # (replicate 31 (None, 0) :: (file_info option \<times> nat) list)" by (simp add: numeral_eq_Suc)
  then have r: "WEB_fopen ''/a.ssi'' ''rb'' (demo_ssi_fs page) =
      Some (Some (Slot 0), (demo_ssi_fs page)\<lparr>g_FileOpened := (Some (ImageFile 0), 0) # replicate 31 (None, 0)\<rparr>)"
    by (simp add: WEB_fopen_def demo_ssi_fs_def demo_fs_def open_slot_def Let_def)
  show ?thesis unfolding r
    by (rule exI, rule exI, rule conjI, rule refl)
      (simp add: demo_ssi_fs_def demo_fs_def file_valid_def slot_of_def file_pos_def file_content_def info_data_def info_size_def)
qed

lemma demo_ssi_fields: "c_str (responsePath demo_ssi) 0 = Some ''/a.ssi''" "c_str (extension demo_ssi) 0 = Some ''ssi''"
  "is_ssi_extension ''ssi''" "requestMethod demo_ssi \<in> {METHOD_GET, METHOD_POST}" "dwOperIndex (ctxResponse demo_ssi) = 0"
  "dwOperStage (ctxResponse demo_ssi) = 0" "length (sendBuffer (ctxResponse demo_ssi)) = 1600"
  by (simp_all add: demo_ssi_def zeroContext_def zeroResponse_def MAX_SEND_BUF_SIZE_def TCP_MSS_def c_str_def is_ssi_extension_def Strnicmp_zero_iff)

definition demo_vendor_page :: string where
  "demo_vendor_page = ''By <!--#DEV_VENDOR-->.'' @ replicate 64 CHR ''!''"

lemma demo_vendor_text: "ssi_text (w_dev demo_world) None demo_vendor_page = Some (''By Straight.'' @ replicate 64 CHR ''!'')"
proof -
  have "tag_text ''DEV_VENDOR'' (w_dev demo_world) = Some ''Straight''"
    using strncpy_temp [of "''Straight''"] by (simp add: tag_tables GetVendor_def)
  moreover have "ssi_text (w_dev demo_world) None (''.'' @ replicate 64 CHR ''!'') = Some (''.'' @ replicate 64 CHR ''!'')"
    by (rule ssi_text_plain) simp
  ultimately have "ssi_text (w_dev demo_world) None (tagStart @ ''DEV_VENDOR'' @ tagEnd @ ''.'' @ replicate 64 CHR ''!'') =
      Some (''Straight.'' @ replicate 64 CHR ''!'')" by (subst ssi_text_tag) simp_all
  then show ?thesis by (simp add: demo_vendor_page_def ssi_text_char tagStart_def tagEnd_def)
qed

theorem ssi_page_rendered_witness:
  "\<exists>c' w'. WEB_RequestReceived demo_ssi (demo_world\<lparr>w_fs := demo_ssi_fs demo_vendor_page\<rparr>) = Some (c', w') \<and>
     page_body (replicate 100 (10, 200)) c' w' = Some (''By Straight.'' @ replicate 64 CHR ''!'')"
proof -
  obtain f fs where f: "WEB_fopen ''/a.ssi'' ''rb'' (demo_ssi_fs demo_vendor_page) = Some (Some f, fs)" "file_valid f fs"
    "file_pos f fs = 0" "file_content f fs = demo_vendor_page" using demo_ssi_opens by blast
  have l: "length demo_vendor_page = 86" by (simp add: demo_vendor_page_def)
  then have "demo_vendor_page \<noteq> []" by auto
  then show ?thesis
    using ssi_page_rendered [of demo_ssi "''/a.ssi''" "''ssi''" "demo_world\<lparr>w_fs := demo_ssi_fs demo_vendor_page\<rparr>" f fs
        "''By Straight.'' @ replicate 64 CHR ''!''" "replicate 100 (10, 200)"] f l demo_vendor_text demo_ssi_fields
    by simp
qed

section \<open>Tags that are found too late\<close>

text \<open>The scan up to a tag: what comes before it is copied, and the search for its end begins in the next call.\<close>

lemma cache_rest_length: "ssi_inv s \<Longrightarrow> length (cache_rest s k) = cacheOffset s - k"
  by (simp add: cache_rest_def ssi_inv_def)

lemma scan_to_tag:
  assumes "cache_rest s k = p @ tagStart @ q" and "CHR ''<'' \<notin> set p" and "ssiState s \<noteq> 2" and "ssi_inv s"
    and "n + length p < m" and "off + m \<le> length sb"
  shows "ssi_scan d off (int m) s sb n k = Some (s\<lparr>ssiState := 2\<rparr>, take (off + n) sb @ p @ drop (off + n + length p) sb,
     n + length p, k + length p + 5, True)"
  using assms
proof (induction p arbitrary: s sb n k)
  case Nil
  have u: "k + 5 \<le> cacheOffset s" using cache_rest_length [OF Nil(4), of k] Nil(1) by (simp add: tagStart_def)
  have i1: "ssi_inv (s\<lparr>ssiState := 1\<rparr>)" using Nil(3,4) by (auto simp: ssi_inv_def)
  have t: "Strnicmp (cache_at (s\<lparr>ssiState := 1\<rparr>) k) tagStart 5 = 0"
    using scan_start [of k "s\<lparr>ssiState := 1\<rparr>" "[]"] u i1 Nil(1) by simp
  have s1: "(if ssiState s = 0 then s\<lparr>ssiState := 1\<rparr> else s) = s\<lparr>ssiState := 1\<rparr>"
    using Nil(3,4) by (auto simp: ssi_inv_def)
  have "c_rd (cache s) k = Some CHR ''<''"
    using cache_rest_Cons [of k s] u Nil(1,4) by (auto simp: c_rd_def ssi_inv_def tagStart_def)
  then show ?case using u t s1 by (subst ssi_scan.simps) (simp add: Let_def)
next
  case (Cons x p)
  have u: "k < cacheOffset s" using cache_rest_length [OF Cons.prems(4), of k] Cons.prems(1) by simp
  have x: "cache s ! k = x" "cache_rest s (Suc k) = p @ tagStart @ q" "x \<noteq> CHR ''<''"
    using cache_rest_Cons [OF u Cons.prems(4)] Cons.prems(1,2) by auto
  let ?s = "s\<lparr>ssiState := 1\<rparr>" and ?sb = "sb[off + n := x]"
  have i1: "ssi_inv ?s" using Cons.prems(3,4) by (auto simp: ssi_inv_def)
  have s1: "(if ssiState s = 0 then s\<lparr>ssiState := 1\<rparr> else s) = ?s"
    using Cons.prems(3,4) by (auto simp: ssi_inv_def)
  have "c_rd (cache s) k = Some x" using u x(1) Cons.prems(4) by (simp add: c_rd_def ssi_inv_def)
  then have "ssi_scan d off (int m) s sb n k = ssi_scan d off (int m) ?s ?sb (Suc n) (Suc k)"
    using u s1 x(3) Cons.prems(5,6) by (subst ssi_scan.simps) (simp add: Let_def c_wr_def)
  moreover have "ssi_scan d off (int m) ?s ?sb (Suc n) (Suc k) =
      Some (?s\<lparr>ssiState := 2\<rparr>, take (off + Suc n) ?sb @ p @ drop (off + Suc n + length p) ?sb, Suc n + length p, Suc k + length p + 5, True)"
    using Cons.prems(2,5,6) x(2) i1 by (intro Cons.IH) simp_all
  moreover have "take (off + Suc n) ?sb = take (off + n) sb @ [x]"
    using Cons.prems(5,6) by (simp add: upd_conv_take_nth_drop)
  ultimately show ?case by (simp add: upd_conv_take_nth_drop)
qed

text \<open>
  The last read of a page: everything that is left is in the cache. A tag that starts there stops the scan, and the
  next call sends the rest of the cache as it is.
\<close>

lemma last_read_tag:
  assumes "page_ready c w s f page i" and "i < length page" and "length page - i \<le> 64 - cacheOffset s"
    and "ssiState s \<noteq> 2" and "unsent s page i = p @ tagStart @ q" and "CHR ''<'' \<notin> set p" and "q \<noteq> []"
    and "length p < m" and "off + m \<le> length (sendBuffer (ctxResponse c))" and "dwOperStage (ctxResponse c) = 0"
  shows "\<exists>c' w' s'. WEB_ReadContent off (int m) c w = Some (int (length p), c', w') \<and>
     sendBuffer (ctxResponse c') = take off (sendBuffer (ctxResponse c)) @ p @ drop (off + length p) (sendBuffer (ctxResponse c)) \<and>
     page_ready c' w' s' f page (length page) \<and> cacheOffset s' = length q \<and> take (length q) (cache s') = q \<and>
     dwOperStage (ctxResponse c') = 1"
proof -
  let ?r = "ctxResponse c" and ?n = "length page - i"
  have pr: "requestMethod c = METHOD_GET \<or> requestMethod c = METHOD_POST" "as_ssi (appContext ?r) = Some s" "page_at s f page i (w_fs w)"
    "cacheOffset s < 64" "dwOperIndex ?r = int i" "dwTotal ?r = int (length page)"
    using assms(1) by (simp_all add: page_ready_def)
  have inv: "ssi_inv s" "ssi_fp s = Some f" "0 < ssi s" using pr(3) by (simp_all add: page_at_def)
  have n: "min ?n (64 - cacheOffset s) = ?n" "take ?n (drop i page) = drop i page" "length (drop i page) = ?n"
    using assms(2,3) by simp_all
  obtain fs1 where rd: "WEB_fread (Some f) ?n (w_fs w) = Some (Some (drop i page), fs1)" "file_valid f fs1" "file_content f fs1 = page"
    "file_pos f fs1 = i + ?n" "c_cpy (cache s) (cacheOffset s) (drop i page) =
       Some (take (cacheOffset s) (cache s) @ drop i page @ drop (cacheOffset s + ?n) (cache s))"
    using read_step [OF pr(3) assms(2) pr(4)] unfolding n(1,2) by blast
  define s1 where "s1 = s\<lparr>cache := take (cacheOffset s) (cache s) @ drop i page @ drop (cacheOffset s + ?n) (cache s),
      cacheOffset := cacheOffset s + length (drop i page)\<rparr>"
  have s1: "ssi_inv s1" "ssiState s1 \<noteq> 2" "cacheOffset s1 = cacheOffset s + ?n" "ssi_fp s1 = Some f" "ssi s1 = ssi s"
    using inv assms(3,4) pr(4) by (auto simp: s1_def ssi_inv_def)
  have cr: "cache_rest s1 0 = p @ tagStart @ q"
    using assms(3,5) inv(1) pr(4) by (simp add: cache_rest_def s1_def unsent_def ssi_inv_def)
  let ?c = "length p + 5" and ?sb = "take off (sendBuffer ?r) @ p @ drop (off + length p) (sendBuffer ?r)" and ?s2 = "s1\<lparr>ssiState := 2\<rparr>"
  have sc: "ssi_scan (w_dev w) off (int m) s1 (sendBuffer ?r) 0 0 = Some (?s2, ?sb, length p, ?c, True)"
    using scan_to_tag [OF cr assms(6) s1(2,1), of 0 m off "sendBuffer ?r" "w_dev w"] assms(8,9) by simp
  have i2: "ssi_inv ?s2" using s1(1,2) by (auto simp: ssi_inv_def)
  have l: "cacheOffset s1 - ?c = length q" "?c \<le> cacheOffset s1"
    using cache_rest_length [OF s1(1), of 0] cr by (simp_all add: tagStart_def)
  have "cache_rest ?s2 ?c = q"
    using cache_rest_drop [of ?s2 0 "[]" "p @ tagStart @ q" ?c] cr i2 l(2) by (simp add: tagStart_def)
  then obtain ca where ca: "(if 0 < cacheOffset ?s2 - ?c then c_memmove (cache ?s2) 0 ?c (cacheOffset ?s2 - ?c) else Some (cache ?s2)) = Some ca"
    "length ca = 64" "take (length q) ca = q"
    using shift_cache [OF i2, of ?c] l by auto
  define s3 where "s3 = ?s2\<lparr>cache := ca, cacheOffset := length q\<rparr>"
  have loop: "ssi_loop (w_dev w) off (int m) s (sendBuffer ?r) 0 (int i) (int (length page)) (w_fs w) =
      Some (True, s3, ?sb, length p, int (length page), fs1)"
  proof -
    have "ssi_loop (w_dev w) off (int m) s (sendBuffer ?r) 0 (int i) (int (length page)) (w_fs w) =
      (let s3 = ?s2\<lparr>cache := ca, cacheOffset := cacheOffset ?s2 - ?c\<rparr>; next = int i + int (length (drop i page)) in
       if True then Some (True, s3, ?sb, length p, next, fs1)
       else ssi_loop (w_dev w) off (int m) s3 ?sb (length p) next (int (length page)) fs1)"
    proof (rule ssi_loop_round [OF _ pr(4) _ inv(2) _ rd(5) _ ca(1)])
      show "int i < int (length page)" using assms(2) by simp
      show "\<not> min (int (length page) - int i) (64 - int (cacheOffset s)) < 0"
        "WEB_fread (Some f) (nat (min (int (length page) - int i) (64 - int (cacheOffset s)))) (w_fs w) = Some (Some (drop i page), fs1)"
        using loop_read [OF assms(2) pr(4)] rd(1) n(1) by simp_all
      show "ssi_scan (w_dev w) off (int m) (s\<lparr>cache := take (cacheOffset s) (cache s) @ drop i page @ drop (cacheOffset s + ?n) (cache s),
          cacheOffset := cacheOffset s + length (drop i page)\<rparr>) (sendBuffer ?r) 0 0 = Some (?s2, ?sb, length p, ?c, True)"
        using sc by (simp only: s1_def)
    qed
    then show ?thesis using assms(2) l(1) by (simp add: s3_def Let_def)
  qed
  let ?d = "upd_rsp (\<lambda>r. r\<lparr>dwOperStage := next_stage s3 (int (length page)) (int (length page)) (dwOperStage r)\<rparr>)
    (set_ssi s3 (upd_rsp (\<lambda>r. r\<lparr>sendBuffer := ?sb, dwOperIndex := int (length page)\<rparr>) c))"
  have "length q < 64" using l s1(1) by (auto simp: ssi_inv_def)
  then have "ssi_inv s3" using i2 ca(2) by (simp add: s3_def ssi_inv_def)
  then have "page_ready ?d (w\<lparr>w_fs := fs1\<rparr>) s3 f page (length page)"
    using pr rd(2-4) s1(4,5) inv(3) assms(2) \<open>length q < 64\<close>
    by (simp add: page_ready_def page_at_def set_ssi_def upd_rsp_def as_ssi_def s3_def)
  moreover have "WEB_ReadContent off (int m) c w = Some (int (length p), ?d, w\<lparr>w_fs := fs1\<rparr>)"
    using pr assms(2) inv(3) loop by (auto simp: WEB_ReadContent_def Let_def set_ssi_def upd_rsp_def)
  moreover have "dwOperStage (ctxResponse ?d) = 1" "sendBuffer (ctxResponse ?d) = ?sb" "cacheOffset s3 = length q" "take (length q) (cache s3) = q"
    using assms(7,10) ca(3) s1(5) inv(3) by (simp_all add: set_ssi_def upd_rsp_def next_stage_def s3_def)
  ultimately show ?thesis by blast
qed

text \<open>
  C33. A tag near the end of a page is not replaced. A page of at most 64 bytes is read at once; when it holds a tag,
  the text before the tag is sent, and then all that follows the opening \<^verbatim>\<open><!--#\<close> as it stands in the file: the
  name, \<^verbatim>\<open>-->\<close> and the rest.
\<close>

theorem late_tag_lost:
  assumes "c_str (responsePath c) 0 = Some path" and "path \<noteq> ''/''" and "c_str (extension c) 0 = Some ext" and "is_ssi_extension ext"
    and "WEB_fopen path ''rb'' (w_fs w) = Some (Some f, fs)" and "file_valid f fs" and "file_pos f fs \<le> length (file_content f fs)"
    and "requestMethod c \<in> {METHOD_GET, METHOD_POST}" and "dwOperIndex (ctxResponse c) = 0" and "dwOperStage (ctxResponse c) = 0"
    and "file_content f fs = p @ tagStart @ q" and "length (file_content f fs) \<le> 64" and "CHR ''<'' \<notin> set p" and "q \<noteq> []"
    and "length p < m" and "off + m \<le> length (sendBuffer (ctxResponse c))" and "off' + 64 \<le> length (sendBuffer (ctxResponse c))"
  shows "\<exists>c' w'. WEB_RequestReceived c w = Some (c', w') \<and> page_body [(off, m), (off', m')] c' w' = Some (p @ q)"
proof -
  let ?page = "file_content f fs"
  obtain c1 w1 s where o: "WEB_RequestReceived c w = Some (c1, w1)" "page_ready c1 w1 s f ?page 0" "reading s = None"
    "cacheOffset s = 0" "w_dev w1 = w_dev w" "dwOperStage (ctxResponse c1) = 0" "sendBuffer (ctxResponse c1) = sendBuffer (ctxResponse c)"
    using page_opened [OF assms(1-9)] assms(10) by auto
  have u: "unsent s ?page 0 = p @ tagStart @ q" "0 < length ?page" "length ?page - 0 \<le> 64 - cacheOffset s" "ssiState s \<noteq> 2"
    using o(3,4) assms(11,12,14) by (auto simp: unsent_def reading_def split: if_splits)
  obtain c2 w2 s2 where a: "WEB_ReadContent off (int m) c1 w1 = Some (int (length p), c2, w2)"
    "sendBuffer (ctxResponse c2) = take off (sendBuffer (ctxResponse c)) @ p @ drop (off + length p) (sendBuffer (ctxResponse c))"
    "page_ready c2 w2 s2 f ?page (length ?page)" "cacheOffset s2 = length q" "take (length q) (cache s2) = q"
    "dwOperStage (ctxResponse c2) = 1"
    using last_read_tag [OF o(2) u(2-4,1) assms(13-15), of off] assms(16) o(6,7) by auto
  obtain c3 where b: "WEB_ReadContent off' (int m') c2 w2 = Some (int (length q), c3, w2)" "dwOperStage (ctxResponse c3) = STAGE_END"
    "sendBuffer (ctxResponse c3) = take off' (sendBuffer (ctxResponse c2)) @ q @ drop (off' + length q) (sendBuffer (ctxResponse c2))"
    using page_tail [OF a(3), of off' "int m'"] a(2,4,5) assms(14-17) by auto
  have "page_body [(off, m), (off', m')] c1 w1 = Some (p @ q)"
    using a(1,2,6) b assms(15-17) by (simp add: Let_def STAGE_END_def)
  then show ?thesis using o(1) by blast
qed

theorem late_tag_lost_witness:
  "\<exists>c' w'. WEB_RequestReceived demo_ssi (demo_world\<lparr>w_fs := demo_ssi_fs ''By <!--#DEV_VENDOR-->''\<rparr>) = Some (c', w') \<and>
     page_body [(10, 200), (0, 150)] c' w' = Some ''By DEV_VENDOR-->''"
proof -
  obtain f fs where f: "WEB_fopen ''/a.ssi'' ''rb'' (demo_ssi_fs ''By <!--#DEV_VENDOR-->'') = Some (Some f, fs)" "file_valid f fs"
    "file_pos f fs = 0" "file_content f fs = ''By '' @ tagStart @ ''DEV_VENDOR-->''"
    using demo_ssi_opens [of "''By <!--#DEV_VENDOR-->''"] by (auto simp: tagStart_def)
  then show ?thesis
    using late_tag_lost [of demo_ssi "''/a.ssi''" "''ssi''" "demo_world\<lparr>w_fs := demo_ssi_fs ''By <!--#DEV_VENDOR-->''\<rparr>" f fs
        "''By ''" "''DEV_VENDOR-->''" 200 10 0 150] demo_ssi_fields
    by (simp add: tagStart_def)
qed

end
