(* ===== verification/Progress.thy ===== *)
theory Progress
  imports Request
begin

text \<open>
  \<^verbatim>\<open>httpd/http_core.c\<close>, the loop of \<open>HttpRequestProc\<close>: what the handlers leave alone of a
  connection, and why the loop ends.
\<close>

section \<open>What the handlers leave alone\<close>

text \<open>The connection of a context, its receive queue and the fill level of its buffer.\<close>

definition recv_part :: "REQUEST_CONTEXT \<Rightarrow> nat option \<times> pbuf_chain option \<times> nat \<times> int \<times> int" where
  "recv_part c = (pcb c, reqBufList c, bufOffset c, request_length c, max_level c)"

lemma recv_part_upd_rsp [simp]: "recv_part (upd_rsp f c) = recv_part c"
  by (simp add: recv_part_def upd_rsp_def)

lemma recv_part_set_ssi [simp]: "recv_part (set_ssi s c) = recv_part c"
  by (simp add: set_ssi_def)

lemma recv_part_upd [simp]:
  "recv_part (c\<lparr>result := r\<rparr>) = recv_part c"
  "recv_part (c\<lparr>state := st\<rparr>) = recv_part c"
  "recv_part (c\<lparr>session := se\<rparr>) = recv_part c"
  "recv_part (c\<lparr>fileHandle := h\<rparr>) = recv_part c"
  "recv_part (c\<lparr>options := q\<rparr>) = recv_part c"
  "recv_part (c\<lparr>responsePath := p\<rparr>) = recv_part c"
  "recv_part (c\<lparr>requestPath := p\<rparr>) = recv_part c"
  "recv_part (c\<lparr>extension := p\<rparr>) = recv_part c"
  "recv_part (c\<lparr>killing := k\<rparr>) = recv_part c"
  "recv_part (c\<lparr>req_tLastReceived := t\<rparr>) = recv_part c"
  "recv_part (c\<lparr>tRequestStart := t\<rparr>) = recv_part c"
  "recv_part (c\<lparr>http_request_buffer := b\<rparr>) = recv_part c"
  "recv_part (c\<lparr>contentLength := n\<rparr>) = recv_part c"
  "recv_part (c\<lparr>contentReceived := n\<rparr>) = recv_part c"
  "recv_part (c\<lparr>handler := ha\<rparr>) = recv_part c"
  "recv_part (c\<lparr>ver := v\<rparr>) = recv_part c"
  "recv_part (c\<lparr>posQuestion := n\<rparr>) = recv_part c"
  "recv_part (c\<lparr>checkAlive := n\<rparr>) = recv_part c"
  "recv_part (c\<lparr>requestMethod := n\<rparr>) = recv_part c"
  "recv_part (c\<lparr>keepalive := n\<rparr>) = recv_part c"
  "recv_part (c\<lparr>chunked := n\<rparr>) = recv_part c"
  "recv_part (c\<lparr>expect00 := n\<rparr>) = recv_part c"
  "recv_part (c\<lparr>ifModified := n\<rparr>) = recv_part c"
  "recv_part (c\<lparr>rangeFrom := n\<rparr>) = recv_part c"
  "recv_part (c\<lparr>rangeTo := n\<rparr>) = recv_part c"
  by (simp_all add: recv_part_def)

abbreviation same_recv :: "REQUEST_CONTEXT \<Rightarrow> REQUEST_CONTEXT \<times> world \<Rightarrow> bool" where
  "same_recv c r \<equiv> recv_part (fst r) = recv_part c"

lemma WEB_OnFormHeaders_recv [simp]: "recv_part (WEB_OnFormHeaders c) = recv_part c"
  by (simp add: WEB_OnFormHeaders_def)

lemma IsKilling_recv [simp]: "recv_part (snd (IsKilling k c)) = recv_part c"
  by (simp add: IsKilling_def)

lemma redirect_to_recv: "returns (redirect_to p a c) (\<lambda>r. recv_part r = recv_part c)"
  by (simp add: redirect_to_def returns_simps)

lemma Upload_OnHeadersReceived_recv: "returns (Upload_OnHeadersReceived c w) (same_recv c)"
  by (simp add: Upload_OnHeadersReceived_def Upload_Start_def returns_simps)

lemma no_handler_recv: "returns (no_handler c w) (same_recv c)"
  by (simp add: no_handler_def returns_simps redirect_to_def)

lemma CGI_HeadersReceived_recv: "returns (CGI_HeadersReceived c w) (same_recv c)"
proof (cases "handler c")
  case (Some h)
  then show ?thesis
    using no_handler_recv [of c w] Upload_OnHeadersReceived_recv [of c w]
    by (cases h) (simp_all add: CGI_HeadersReceived_def returns_simps OnHeadersReceived_def
        Auth_OnHeaders_def Form_OnHeadersReceived_def)
qed (simp add: CGI_HeadersReceived_def no_handler_recv)

lemma WEB_OnFormReceived_recv: "returns (WEB_OnFormReceived b n c w) (\<lambda>r. recv_part (fst (snd r)) = recv_part c)"
  by (simp add: WEB_OnFormReceived_def returns_simps Let_def split_def)

lemma Upload_OnContentReceived_recv:
  "returns (Upload_OnContentReceived b n c w) (\<lambda>r. recv_part (fst (snd r)) = recv_part c)"
  by (simp add: Upload_OnContentReceived_def returns_simps Let_def split_def)

lemma Auth_OnPostData_recv: "returns (Auth_OnPostData b n c) (\<lambda>r. recv_part (snd r) = recv_part c)"
  by (simp add: Auth_OnPostData_def returns_simps Let_def)

lemma CGI_ContentReceived_recv:
  "returns (CGI_ContentReceived b n c w) (\<lambda>r. recv_part (fst (snd r)) = recv_part c)"
proof (cases "handler c")
  case (Some h)
  then show ?thesis
    using WEB_OnFormReceived_recv [of b n c w] Upload_OnContentReceived_recv [of b n c w] Auth_OnPostData_recv [of b n c]
    by (cases h) (simp_all add: CGI_ContentReceived_def returns_simps OnContentReceived_def split_def)
qed (simp add: CGI_ContentReceived_def returns_simps)

lemma ParseQueryString_recv: "returns (ParseQueryString c) (\<lambda>r. recv_part r = recv_part c)"
  by (simp add: ParseQueryString_def returns_simps Let_def)

lemma CGI_SetCgiHandler_recv: "returns (CGI_SetCgiHandler l c) (\<lambda>r. recv_part r = recv_part c)"
  by (simp add: CGI_SetCgiHandler_def returns_simps split: option.split)

lemma request_line_recv: "returns (request_line pos i c w) (\<lambda>r. recv_part (snd r) = recv_part c)"
  unfolding request_line_def Let_def returns_simps
  by (auto simp: returns_def dest!: returnsD [OF CGI_SetCgiHandler_recv] returnsD [OF ParseQueryString_recv])

lemma Upload_OnHeaderReceived_recv:
  "returns (Upload_OnHeaderReceived l c w) (\<lambda>r. recv_part (fst (snd (snd r))) = recv_part c)"
  by (simp add: Upload_OnHeaderReceived_def returns_simps Let_def)

lemma CGI_HeaderReceived_recv:
  "returns (CGI_HeaderReceived l c w) (\<lambda>r. recv_part (fst (snd (snd r))) = recv_part c)"
proof (cases "handler c")
  case (Some h)
  then show ?thesis
    using Upload_OnHeaderReceived_recv [of l c w]
    by (cases h) (simp_all add: CGI_HeaderReceived_def returns_simps OnHeaderReceived_def)
qed (simp add: CGI_HeaderReceived_def returns_simps)

lemma header_line_recv: "returns (header_line pos i c w) (same_recv c)"
  unfolding header_line_def Let_def returns_simps
  using CGI_HeaderReceived_recv [of "drop pos (http_request_buffer c)" c w]
  by (auto simp: returns_def)

lemma empty_line_recv: "returns (empty_line c) (\<lambda>r. recv_part r = recv_part c)"
  by (simp add: empty_line_def returns_simps)

lemma header_lines_recv: "returns (header_lines i pos n c w) (\<lambda>r. recv_part (fst (snd (snd r))) = recv_part c)"
proof (induction "n - i" arbitrary: i pos c w rule: less_induct)
  case less
  have IH: "recv_part (fst (snd (snd r))) = recv_part c'"
    if "header_lines (Suc i) p n c' w' = Some r" "Suc i < n" for p c' w' r
    using returnsD [OF less [of "Suc i" p c' w'] that(1)] that(2) by simp
  show ?case
    unfolding header_lines.simps [of i pos n c w] returns_simps Let_def
    by (auto simp: returns_def dest!: IH returnsD [OF request_line_recv] returnsD [OF header_line_recv] returnsD [OF empty_line_recv])
qed

lemma body_done_recv [simp]: "recv_part (fst (body_done c w)) = recv_part c"
  by (simp add: body_done_def split_def Let_def)

lemma after_header_recv: "returns (after_header c w) (same_recv c)"
  unfolding after_header_def Let_def returns_simps
  by (auto simp: returns_def split_def dest!: returnsD [OF CGI_HeadersReceived_recv] returnsD [OF redirect_to_recv])

section \<open>The loop ends\<close>

text \<open>The bytes that are received and not used yet, and what the loop keeps of the fill level and the queue.\<close>

definition waiting :: "REQUEST_CONTEXT \<Rightarrow> nat" where
  "waiting c = nat (request_length c) + (length (queued c) - bufOffset c)"

definition level_ok :: "REQUEST_CONTEXT \<Rightarrow> bool" where
  "level_ok c \<longleftrightarrow> request_length c \<le> max_level c \<and> max_level c = int MAX_REQ_BUF_SIZE \<and>
     (case reqBufList c of None \<Rightarrow> bufOffset c = 0 | Some q \<Rightarrow> bufOffset c < length (concat q))"

lemma recv_part_cong:
  "recv_part c' = recv_part c \<Longrightarrow> waiting c' = waiting c \<and> level_ok c' = level_ok c \<and>
     request_length c' = request_length c \<and> reqBufList c' = reqBufList c \<and> max_level c' = max_level c"
  by (auto simp: recv_part_def waiting_def level_ok_def queued_def split: option.splits)

lemma wf_recv_level: "wf_recv c \<Longrightarrow> level_ok c"
  by (simp add: wf_recv_def level_ok_def)

text \<open>Taking bytes out of the buffer lowers the number, unless there were none.\<close>

lemma shift_out_level:
  assumes "level_ok c" and "shift_out n c = Some c'"
  shows "level_ok c' \<and> reqBufList c' = reqBufList c \<and> max_level c' = max_level c \<and>
    request_length c' = request_length c - int n \<and> waiting c' \<le> waiting c \<and>
    (0 < n \<longrightarrow> 0 < request_length c \<longrightarrow> waiting c' < waiting c)"
  using assms
  by (auto simp: shift_out_def level_ok_def waiting_def queued_def Let_def bind_eq_Some_conv split: if_splits option.splits)

lemma put_received_shape:
  "put_received data c = Some c' \<Longrightarrow>
   \<exists>b. c' = c\<lparr>http_request_buffer := b, request_length := request_length c + int (length data)\<rparr> \<and> 0 \<le> request_length c"
  by (auto simp: put_received_def Let_def bind_eq_Some_conv split: if_splits)

lemma dequeue_level:
  assumes c: "level_ok c" and d: "dequeue c w = Some (c', w')"
  shows "level_ok c' \<and> waiting c' = waiting c \<and> (reqBufList c' \<noteq> None \<longrightarrow> request_length c' = max_level c')"
proof (cases "reqBufList c")
  case None
  with c d show ?thesis by (simp add: dequeue_def)
next
  case (Some q)
  define n where "n = min (max_level c - request_length c) (int (length (concat q)) - int (bufOffset c))"
  have off: "bufOffset c < length (concat q)" and l: "request_length c \<le> max_level c" "max_level c = int MAX_REQ_BUF_SIZE"
    using c Some by (auto simp: level_ok_def)
  show ?thesis
  proof (cases "n \<le> 0")
    case True
    then have "request_length c = max_level c" using off l by (simp add: n_def)
    with True c d Some show ?thesis by (simp add: dequeue_def Let_def n_def)
  next
    case False
    define data where "data = take (nat n) (drop (bufOffset c) (concat q))"
    have len: "length data = nat n" using False off by (auto simp: data_def n_def)
    define off2 where "off2 = bufOffset c + nat n"
    from d Some False obtain c1 where c1: "put_received data c = Some c1"
      unfolding dequeue_def by (auto simp: Let_def n_def [symmetric] data_def [symmetric] bind_eq_Some_conv)
    from put_received_shape [OF this] obtain b where
      b: "c1 = c\<lparr>http_request_buffer := b, request_length := request_length c + int (length data)\<rparr>" "0 \<le> request_length c" by blast
    have o1: "bufOffset c1 = bufOffset c" using b by simp
    have d1: "(if off2 = length (concat q)
              then Some (c1\<lparr>reqBufList := None, bufOffset := 0\<rparr>, w\<lparr>w_recved := w_recved w + length (concat q)\<rparr>)
              else do {
                (q, off, n) \<leftarrow> free_front q off2;
                Some (c1\<lparr>reqBufList := Some q, bufOffset := off\<rparr>, w\<lparr>w_recved := w_recved w + n\<rparr>) }) = Some (c', w')"
      using d False unfolding dequeue_def Some option.case Let_def n_def [symmetric] data_def [symmetric] c1 Option.bind.bind_lunit
      by (auto simp: o1 off2_def split: if_splits)
    show ?thesis
    proof (cases "off2 = length (concat q)")
      case True
      with d1 have "c' = c1\<lparr>reqBufList := None, bufOffset := 0\<rparr>" by simp
      moreover have "n = int (length (concat q)) - int (bufOffset c)"
        using True False by (auto simp: off2_def)
      moreover have "n \<le> max_level c - request_length c" by (simp add: n_def)
      ultimately show ?thesis
        using b len l off False by (simp add: level_ok_def waiting_def queued_def Some)
    next
      case neq: False
      with False off have o2: "off2 < length (concat q)" by (auto simp: off2_def n_def)
      from free_front_ok [OF this] obtain q' off' k where f: "free_front q off2 = Some (q', off', k)"
        "drop off' (concat q') = drop off2 (concat q)" "off' < length (concat q')" by blast
      have "length (concat q') - off' = length (concat q) - off2"
        using arg_cong [OF f(2), of length] by simp
      moreover have "n = max_level c - request_length c" using o2 False by (auto simp: off2_def n_def)
      ultimately show ?thesis
        using d1 neq f b len l off o2 False by (auto simp: level_ok_def waiting_def queued_def Some off2_def)
    qed
  qed
qed

text \<open>Bytes were used, or the fill level is the same.\<close>

definition used :: "REQUEST_CONTEXT \<Rightarrow> REQUEST_CONTEXT \<Rightarrow> bool" where
  "used c c' \<longleftrightarrow> level_ok c' \<and> reqBufList c' = reqBufList c \<and> max_level c' = max_level c \<and>
     waiting c' \<le> waiting c \<and> (waiting c' = waiting c \<longrightarrow> 0 < request_length c \<longrightarrow> request_length c' = request_length c)"

lemma used_trans: "used c c1 \<Longrightarrow> used c1 c2 \<Longrightarrow> used c c2"
  by (auto simp: used_def)

lemma used_recv: "level_ok c \<Longrightarrow> recv_part c' = recv_part c \<Longrightarrow> used c c'"
  using recv_part_cong [of c' c] by (auto simp: used_def)

lemma used_shift: "level_ok c \<Longrightarrow> shift_out n c = Some c' \<Longrightarrow> used c c'"
  using shift_out_level [of c n c'] by (cases "n = 0") (auto simp: used_def)

lemma start_request_recv: "recv_part (fst (start_request c w)) = recv_part c"
  by (simp add: start_request_def split_def Let_def)

lemma parse_header_used:
  assumes c: "level_ok c" and p: "parse_header sz c w = Some (a, sz', c', w')"
  shows "used c c' \<and> (state c = HTTP_STATE_HEADER_RECEIVING \<longrightarrow> 2 \<le> sz \<longrightarrow> request_length c = max_level c \<longrightarrow> waiting c' < waiting c)"
proof (cases "state c = HTTP_STATE_HEADER_RECEIVING \<and> 2 \<le> sz")
  case True
  from p True obtain pos c1 where h: "header_lines 0 0 (nat sz) c w = Some (a, pos, c1, w')"
    and s: "(if pos = 0
       then (if max_level c1 \<le> request_length c1 then shift_out (nat (request_length c1 div 2)) c1 else Some c1)
       else shift_out pos c1) = Some c'"
    by (auto simp: parse_header_def bind_eq_Some_conv)
  have "recv_part c1 = recv_part c" using returnsD [OF header_lines_recv h] by simp
  from recv_part_cong [OF this] have r: "waiting c1 = waiting c" "level_ok c1" "request_length c1 = request_length c"
    "max_level c1 = max_level c" "reqBufList c1 = reqBufList c" using c by auto
  have m: "max_level c = 800" using c by (simp add: level_ok_def MAX_REQ_BUF_SIZE_def TCP_MSS_def)
  define n where "n = (if pos = 0 then nat (request_length c div 2) else pos)"
  have n: "shift_out n c1 = Some c' \<and> (request_length c = max_level c \<longrightarrow> 0 < n) \<or> (c' = c1 \<and> request_length c < max_level c)"
    using s r m by (auto simp: n_def split: if_splits)
  then show ?thesis
    using used_shift [OF r(2), of n c'] shift_out_level [OF r(2), of n c'] r m by (auto simp: used_def)
qed (use p c in \<open>auto simp: parse_header_def used_def split: if_splits\<close>)

lemma chunk_length_used:
  assumes c: "level_ok c" and h: "chunk_length sz c = Some c'"
  shows "used c c'"
proof -
  consider "c' = c" | b k len where
    "shift_out k (c\<lparr>http_request_buffer := b, contentLength := len, contentReceived := 0,
       state := HTTP_STATE_CHUNK_RECEIVING\<rparr>) = Some c'"
  proof (cases "state c = HTTP_STATE_CHUNK_LEN_RECEIVING \<and> 2 < sz")
    case True
    show ?thesis
    proof (cases "chunk_line (http_request_buffer c) sz 0")
      case (Some k)
      show ?thesis using True h Some that by (cases k) (auto simp: chunk_length_def bind_eq_Some_conv)
    qed (use True h in \<open>simp add: chunk_length_def\<close>)
  qed (use h that in \<open>auto simp: chunk_length_def\<close>)
  then show ?thesis
  proof cases
    case 2
    have u: "used c (c\<lparr>http_request_buffer := b, contentLength := len, contentReceived := 0,
        state := HTTP_STATE_CHUNK_RECEIVING\<rparr>)" by (rule used_recv [OF c]) simp
    then have "level_ok (c\<lparr>http_request_buffer := b, contentLength := len, contentReceived := 0,
        state := HTTP_STATE_CHUNK_RECEIVING\<rparr>)" by (simp add: used_def)
    from used_trans [OF u used_shift [OF this 2]] show ?thesis .
  qed (simp add: used_recv [OF c])
qed

lemma content_done_recv: "recv_part (fst (content_done c w)) = recv_part c"
  by (simp add: content_done_def split_def Let_def)

text \<open>A further round of the loop for the body is only asked for when bytes were used.\<close>

lemma receive_body_again:
  assumes c: "level_ok c" and h: "receive_body sz c w = Some (Again, c', w')"
  shows "used c c' \<and> reqBufList c' \<noteq> None \<and> (0 < request_length c \<longrightarrow> waiting c' < waiting c)"
proof -
  from h obtain c1 n c2 w2 c3 where 1: "chunk_length sz c = Some c1"
    and 2: "CGI_ContentReceived (http_request_buffer c1) sz c1 w = Some (n, c2, w2)" "0 < n"
    and 3: "shift_out (nat n) c2 = Some c3"
    and 4: "content_done (c3\<lparr>contentReceived := contentReceived c3 + n\<rparr>) w2 = (c', w')" "reqBufList c' \<noteq> None"
    by (auto simp: receive_body_def finish_request_def bind_eq_Some_conv split_def Let_def split: if_splits)
  have u1: "used c c1" using chunk_length_used [OF c 1] .
  then have l1: "level_ok c1" by (simp add: used_def)
  have u2: "used c1 c2" using used_recv [OF l1] returnsD [OF CGI_ContentReceived_recv 2(1)] by simp
  then have l2: "level_ok c2" by (simp add: used_def)
  note u3 = used_shift [OF l2 3]
  then have l3: "level_ok c3" by (simp add: used_def)
  have u4: "used c3 c'" by (rule used_recv [OF l3]) (use content_done_recv [of "c3\<lparr>contentReceived := contentReceived c3 + n\<rparr>" w2] 4(1) in simp)
  have s: "0 < request_length c2 \<longrightarrow> waiting c3 < waiting c2" using shift_out_level [OF l2 3] 2(2) by simp
  note u = used_trans [OF u1 u2]
  have "0 < request_length c \<longrightarrow> waiting c' < waiting c"
    using u u3 u4 s by (auto simp: used_def)
  with used_trans [OF u used_trans [OF u3 u4]] 4(2) show ?thesis by simp
qed

lemma request_round_again:
  assumes c: "level_ok c" and h: "request_round c w = Some (Again, c', w')"
  shows "level_ok c' \<and> waiting c' < waiting c"
proof -
  from h obtain c1 w1 where d: "dequeue c w = Some (c1, w1)" and n0: "request_length c1 \<noteq> 0"
    by (auto simp: request_round_def bind_eq_Some_conv Let_def split: if_splits)
  define c2 w2 where "c2 = fst (start_request c1 w1)" and "w2 = snd (start_request c1 w1)"
  from h obtain a sz c3 w3 where p: "parse_header (request_length c1) c2 w2 = Some (a, sz, c3, w3)"
    and r: "(state c3 < HTTP_STATE_HEADER_DONE \<and> c' = c3 \<and> reqBufList c3 \<noteq> None) \<or>
       (\<exists>c4 w4. (if a then after_header c3 w3 else Some (c3, w3)) = Some (c4, w4) \<and> receive_body sz c4 w4 = Some (Again, c', w'))"
    unfolding request_round_def d by (auto simp: n0 Let_def split_def c2_def w2_def bind_eq_Some_conv split: if_splits)
  note dl = dequeue_level [OF c d]
  have e2: "recv_part c2 = recv_part c1" by (simp add: c2_def start_request_recv)
  note q2 = recv_part_cong [OF e2]
  then have l2: "level_ok c2" using dl by simp
  have u3: "used c2 c3" and s3: "state c2 = HTTP_STATE_HEADER_RECEIVING \<Longrightarrow> 2 \<le> request_length c1 \<Longrightarrow>
      request_length c2 = max_level c2 \<Longrightarrow> waiting c3 < waiting c2"
    using parse_header_used [OF l2 p] by auto
  have big: "max_level c1 = 800" using dl by (simp add: level_ok_def MAX_REQ_BUF_SIZE_def TCP_MSS_def)
  from r show ?thesis
  proof
    assume r: "state c3 < HTTP_STATE_HEADER_DONE \<and> c' = c3 \<and> reqBufList c3 \<noteq> None"
    then have f: "request_length c1 = 800" using u3 q2 dl big by (auto simp: used_def)
    have "state c2 = HTTP_STATE_HEADER_RECEIVING"
      using r p f by (auto simp: parse_header_def c2_def start_request_def upd_rsp_def http_states Let_def split_def split: if_splits)
    with s3 f big q2 dl u3 r show ?thesis by (auto simp: used_def)
  next
    assume "\<exists>c4 w4. (if a then after_header c3 w3 else Some (c3, w3)) = Some (c4, w4) \<and> receive_body sz c4 w4 = Some (Again, c', w')"
    then obtain c4 w4 where a4: "(if a then after_header c3 w3 else Some (c3, w3)) = Some (c4, w4)"
      and b: "receive_body sz c4 w4 = Some (Again, c', w')" by blast
    have "recv_part c4 = recv_part c3"
      using a4 returnsD [OF after_header_recv, of c3 w3 "(c4, w4)"] by (auto split: if_splits)
    with u3 have u4: "used c3 c4" using used_recv [of c3 c4] by (simp add: used_def)
    then have l4: "level_ok c4" by (simp add: used_def)
    note u = used_trans [OF u3 u4] and e = receive_body_again [OF l4 b]
    have f: "request_length c1 = 800" using e u q2 dl big by (auto simp: used_def)
    have "waiting c' < waiting c2" using e u f q2 by (auto simp: used_def)
    with e dl q2 show ?thesis by (simp add: used_def)
  qed
qed

text \<open>One round that is followed by another, and any number of them.\<close>

inductive again :: "nat \<Rightarrow> REQUEST_CONTEXT \<times> world \<Rightarrow> REQUEST_CONTEXT \<times> world \<Rightarrow> bool" where
  first: "again 0 s s"
| more: "state c < HTTP_STATE_BODY_DONE \<Longrightarrow> request_round c w = Some (Again, c', w') \<Longrightarrow>
     again n (c', w') s \<Longrightarrow> again (Suc n) (c, w) s"

lemma again_bound: "again n s s' \<Longrightarrow> level_ok (fst s) \<Longrightarrow> n + waiting (fst s') \<le> waiting (fst s)"
  by (induction rule: again.induct) (auto dest: request_round_again)

text \<open>
  C5. The loop of \<open>HttpRequestProc\<close> ends: when the fill level of the receive buffer and the
  offset in the queue are in range, each further round uses at least one received byte, so there
  are at most as many of them as bytes wait in the buffer and the queue. The loop then returns,
  unless one of these rounds does something undefined.
\<close>

theorem request_loop_ends:
  assumes "level_ok c"
  shows "(\<forall>n s. again n (c, w) s \<longrightarrow> n \<le> waiting c) \<and>
     ((\<exists>r. request_loop c w = Some r) \<or>
      (\<exists>n c' w'. again n (c, w) (c', w') \<and> state c' < HTTP_STATE_BODY_DONE \<and> request_round c' w' = None))"
proof
  show "\<forall>n s. again n (c, w) s \<longrightarrow> n \<le> waiting c" using again_bound [of _ "(c, w)"] assms by fastforce
  show "(\<exists>r. request_loop c w = Some r) \<or>
      (\<exists>n c' w'. again n (c, w) (c', w') \<and> state c' < HTTP_STATE_BODY_DONE \<and> request_round c' w' = None)"
    using assms
  proof (induction "waiting c" arbitrary: c w rule: less_induct)
    case less
    show ?case
    proof (cases "state c < HTTP_STATE_BODY_DONE")
      case True
      show ?thesis
      proof (cases "request_round c w")
        case None
        with True again.first [of "(c, w)"] show ?thesis by blast
      next
        case (Some x)
        obtain f c' w' where x: "x = (f, c', w')" by (cases x) auto
        show ?thesis
        proof (cases "f = Again")
          case True
          then have r: "request_round c w = Some (Again, c', w')" using Some x by simp
          from request_round_again [OF less.prems r] have "waiting c' < waiting c" "level_ok c'" by simp_all
          note ih = less.hyps [OF this, of w']
          have "request_loop c w = request_loop c' w'"
            by (subst request_loop.simps) (simp add: r \<open>state c < _\<close>)
          with ih again.more [OF \<open>state c < _\<close> r] show ?thesis by metis
        next
          case False
          then show ?thesis using Some x \<open>state c < _\<close> by (subst request_loop.simps) simp
        qed
      qed
    qed (subst request_loop.simps, simp)
  qed
qed

theorem request_loop_ends_witness:
  "{n. \<exists>s. again n ((zeroContext 0)\<lparr>max_level := 800, request_length := 5\<rparr>, demo_world) s} \<subseteq> {..5}"
proof -
  have 1: "level_ok ((zeroContext 0)\<lparr>max_level := 800, request_length := 5\<rparr>)"
    "waiting ((zeroContext 0)\<lparr>max_level := 800, request_length := 5\<rparr>) = 5"
    by (simp_all add: level_ok_def waiting_def queued_def zeroContext_def MAX_REQ_BUF_SIZE_def TCP_MSS_def)
  from request_loop_ends [OF 1(1), of demo_world] 1(2) show ?thesis by auto
qed

end
