(* ===== verification/Parsing.thy ===== *)
theory Parsing
  imports Request
begin

text \<open>
  \<^verbatim>\<open>httpd/http_core.c\<close>, what the parser makes of the path and of the range of a request.
\<close>

section \<open>The extension of the path\<close>

definition ext_buf :: "string \<Rightarrow> cbuf" where
  "ext_buf e = e @ replicate (8 - length e) NUL"

lemma replicate_update_same: "(replicate n x)[i := x] = replicate n x"
  by (induction n arbitrary: i) (auto split: nat.split)

lemma query_loop_base:
  assumes "CHR ''.'' \<notin> set p" and "CHR ''?'' \<notin> set p"
  shows "query_loop (p @ q) i False None 0 (ext_buf []) = query_loop q (i + length p) False None 0 (ext_buf [])"
  using assms
proof (induction p arbitrary: i)
  case (Cons x p)
  have "c_wr (ext_buf []) 0 NUL = Some (ext_buf [])" by (simp add: ext_buf_def c_wr_def numeral_eq_Suc)
  with Cons.prems Cons.IH [of "Suc i"] show ?case by (cases "x = CHR ''/''") auto
qed simp

definition plain_ext :: "string \<Rightarrow> bool" where
  "plain_ext e \<longleftrightarrow> set e \<inter> {CHR ''.'', CHR ''?'', CHR ''#'', CHR ''/''} = {}"

lemma query_loop_ext:
  assumes "plain_ext e" and "length d < 8"
  shows "query_loop (e @ q) i True None (length d) (ext_buf d) =
    (if length d + length e < 8 then query_loop q (i + length e) True None (length d + length e) (ext_buf (d @ e)) else None)"
  using assms
proof (induction e arbitrary: d i)
  case Nil
  then show ?case by simp
next
  case (Cons x e)
  then have x: "x \<noteq> CHR ''.''" "x \<noteq> CHR ''?''" "x \<noteq> CHR ''#''" "x \<noteq> CHR ''/''" and e: "plain_ext e"
    by (auto simp: plain_ext_def)
  show ?case
  proof (cases "Suc (length d) < 8")
    case True
    have "c_wr (ext_buf d) (length d) x = Some (d @ x # replicate (7 - length d) NUL)"
      using True by (simp add: ext_buf_def c_wr_def list_update_append Suc_diff_Suc numeral_eq_Suc split: nat_diff_split)
    moreover have "c_wr (d @ x # replicate (7 - length d) NUL) (length d + 1) NUL = Some (ext_buf (d @ [x]))"
      using True by (simp add: ext_buf_def c_wr_def list_update_append replicate_update_same)
    ultimately show ?thesis using Cons.IH [OF e, of "d @ [x]" "Suc i"] True x by simp
  next
    case False
    with Cons.prems have 7: "length d = 7" by simp
    have "Option.bind (c_wr (ext_buf d) 7 x) (\<lambda>ext. Option.bind (c_wr ext 8 NUL) f) = None" for f
      using 7 by (simp add: ext_buf_def c_wr_def)
    then show ?thesis using x 7 by simp
  qed
qed

lemma query_loop_rest: "query_loop q i dot (Some k) n e = Some (Some k, e)"
  by (induction q arbitrary: i) auto

text \<open>
  C35. The extension of a path without other dots is copied, letter by letter, into an array of 8
  bytes that is never compared with the length of the text: up to 7 letters are stored, and the
  array is overrun exactly by longer extensions. What follows a question mark is cut off the path.
\<close>

theorem ParseQueryString_extension:
  assumes path: "c_str (requestPath c) 0 = Some (p @ CHR ''.'' # e @ q)"
    and p: "CHR ''.'' \<notin> set p" "CHR ''?'' \<notin> set p" and e: "plain_ext e"
    and q: "q = [] \<or> hd q = CHR ''?''" and len: "length (extension c) = 8"
  shows "if length e < 8
    then \<exists>c'. ParseQueryString c = Some c' \<and> c_str (extension c') 0 = Some e \<and>
           c_str (requestPath c') 0 = Some (p @ CHR ''.'' # e) \<and>
           posQuestion c' = (if q = [] then -1 else int (length p + 1 + length e))
    else ParseQueryString c = None"
proof -
  have z: "c_memset0 (extension c) = ext_buf []" using len by (simp add: c_memset0_def ext_buf_def)
  have w: "c_wr (ext_buf []) 0 NUL = Some (ext_buf [])"
    by (simp add: ext_buf_def c_wr_def replicate_update_same)
  have "query_loop (p @ CHR ''.'' # e @ q) 0 False None 0 (ext_buf []) =
      query_loop (e @ q) (Suc (length p)) True None 0 (ext_buf [])"
    using query_loop_base [OF p, of "CHR ''.'' # e @ q" 0] w by simp
  also have "\<dots> = (if length e < 8 then query_loop q (Suc (length p) + length e) True None (length e) (ext_buf e) else None)"
    using query_loop_ext [OF e, of "[]" q] by simp
  also have "\<dots> = (if length e < 8 then Some (if q = [] then None else Some (Suc (length p) + length e), ext_buf e) else None)"
    using q by (cases q) (simp_all add: query_loop_rest)
  finally have loop: "query_loop (p @ CHR ''.'' # e @ q) 0 False None 0 (ext_buf []) =
    (if length e < 8 then Some (if q = [] then None else Some (Suc (length p) + length e), ext_buf e) else None)" .
  from c_str_split [OF path] obtain r where r: "requestPath c = p @ CHR ''.'' # e @ q @ NUL # r"
    and nz: "NUL \<notin> set (p @ CHR ''.'' # e @ q)" by auto
  have xe: "c_str (ext_buf e) 0 = Some e" if "length e < 8"
    using nz c_str_app [of e "replicate (7 - length e) NUL"] Suc_diff_le [of "length e" 7] that
    by (simp add: ext_buf_def flip: replicate_Suc)
  show ?thesis
  proof (cases "length e < 8")
    case False
    then show ?thesis unfolding ParseQueryString_def path Option.bind.bind_lunit z loop by simp
  next
    case True
    show ?thesis
    proof (cases q)
      case Nil
      with True xe r nz c_str_app [of "p @ CHR ''.'' # e" r] show ?thesis unfolding ParseQueryString_def path Option.bind.bind_lunit z loop by simp
    next
      case (Cons x q')
      have "c_wr (requestPath c) (Suc (length p) + length e) NUL = Some (p @ CHR ''.'' # e @ NUL # q' @ NUL # r)"
        by (simp add: r Cons c_wr_def list_update_append)
      moreover have "c_str (p @ CHR ''.'' # e @ NUL # q' @ NUL # r) 0 = Some (p @ CHR ''.'' # e)"
        using c_str_app [of "p @ CHR ''.'' # e" "q' @ NUL # r"] nz by simp
      ultimately show ?thesis
        using True xe Cons unfolding ParseQueryString_def path Option.bind.bind_lunit z loop by simp
    qed
  qed
qed

theorem ParseQueryString_extension_witness:
  "(\<exists>c'. ParseQueryString (demo_request ''/app/a.shtml?x=1'') = Some c' \<and> c_str (extension c') 0 = Some ''shtml'') \<and>
   ParseQueryString (demo_request ''/a.properties'') = None"
proof -
  have 1: "c_str (requestPath (demo_request ''/app/a.shtml?x=1'')) 0 = Some (''/app/a'' @ CHR ''.'' # ''shtml'' @ ''?x=1'')"
    "c_str (requestPath (demo_request ''/a.properties'')) 0 = Some (''/a'' @ CHR ''.'' # ''properties'' @ [])"
    by (simp_all add: demo_request_path)
  have 2: "length (extension (demo_request x)) = 8" for x by (simp add: demo_request_def zeroContext_def)
  show ?thesis
    using ParseQueryString_extension [OF 1(1) _ _ _ _ 2] ParseQueryString_extension [OF 1(2) _ _ _ _ 2]
    by (simp add: plain_ext_def) blast
qed

section \<open>Ranges\<close>

lemma c_strstr_first:
  assumes "x \<notin> set a"
  shows "c_strstr (a @ x # t @ r) (x # t) = Some (length a)"
  using assms by (induction a) auto

lemma digits_no: "CHR ''-'' \<notin> set (fmt_u n)" "NUL \<notin> set (fmt_u n)"
  using fmt_u_digits not_digit_special by blast+

lemma digit_not_space: "is_digit x \<Longrightarrow> \<not> is_space x"
  by (auto simp: is_digit_def is_space_def)

lemma c_atol_digits:
  assumes m: "\<forall>x \<in> set m. is_digit x" "m \<noteq> []" and v: "dec_val 0 m < 2 ^ 31" and r: "r = [] \<or> \<not> is_digit (hd r)"
  shows "c_atol (m @ r) = int (dec_val 0 m)" "c_atol (CHR ''-'' # m @ r) = - int (dec_val 0 m)"
proof -
  have e: "dec_val 0 (m @ r) = dec_val 0 m"
    using r dec_val_app_digits [OF m(1), of 0 r] by (cases r) auto
  obtain x s where x: "m = x # s" using m(2) by (cases m) auto
  with m have "is_digit x" by simp
  then have "\<not> is_space x" "x \<noteq> CHR ''-''" "x \<noteq> CHR ''+''" using digit_not_space by (auto simp: is_digit_def)
  with x e v show "c_atol (m @ r) = int (dec_val 0 m)" by (simp add: c_atol_def)
  show "c_atol (CHR ''-'' # m @ r) = - int (dec_val 0 m)"
    using e v by (simp add: c_atol_def is_space_def)
qed

text \<open>
  The range of a request: behind \<^verbatim>\<open>bytes=\<close> the first character is skipped. A range that starts
  with a single digit, such as \<^verbatim>\<open>bytes=0-499\<close>, is read as starting at minus the last byte; of a
  longer first number the leading digit is lost.
\<close>

theorem parse_range_skips_digit:
  assumes line: "c_str b pos = Some (''Range: bytes='' @ d # m @ CHR ''-'' # fmt_u n)"
    and m: "\<forall>x \<in> set m. is_digit x" "dec_val 0 m \<le> n" and n: "n < 2 ^ 31 - 1"
  shows "parse_range b pos = Some (if m = [] then - int n else int (dec_val 0 m), int n + 1)"
proof -
  define t where "t = m @ CHR ''-'' # fmt_u n"
  have 1: "c_str b (pos + 6) = Some ('' '' @ CHR ''b'' # ''ytes='' @ d # t)"
    using c_str_drop [of b pos "''Range:''" "'' bytes='' @ d # t"] line by (simp add: t_def eval_nat_numeral)
  have f: "c_strstr ('' '' @ CHR ''b'' # ''ytes='' @ d # t) ''bytes='' = Some 1"
    using c_strstr_first [of "CHR ''b''" "'' ''" "''ytes=''" "d # t"] by simp
  have 2: "c_str b (pos + 6 + 1 + 7) = Some t"
    using c_str_drop [of b pos "''Range: bytes='' @ [d]" t] line by (simp add: t_def eval_nat_numeral)
  have dash: "CHR ''-'' \<notin> set m" using m(1) not_digit_special by blast
  have g: "c_strstr t ''-'' = Some (length m)"
    using c_strstr_first [OF dash, of "[]" "fmt_u n"] by (simp add: t_def)
  have 3: "c_str b (pos + 6 + 1 + 7 + length m + 1) = Some (fmt_u n)"
    using c_str_drop [of b "pos + 6 + 1 + 7" "m @ ''-''" "fmt_u n"] 2 by (simp add: t_def)
  obtain x s where x: "fmt_u n = x # s" using fmt_u_nonempty by (cases "fmt_u n") auto
  with fmt_u_digits [of x n] have dx: "is_digit x" by simp
  have 4: "c_rd b (pos + 6 + 1 + 7 + length m + 1) = Some x" using c_str_rd 3 x by simp
  have dn: "\<forall>x \<in> set (fmt_u n). is_digit x" using fmt_u_digits by blast
  have an: "c_atol (fmt_u n @ []) = int n" "c_atol (CHR ''-'' # fmt_u n @ []) = - int n"
    using c_atol_digits [OF dn, of "[]"] n by (simp_all add: dec_val_fmt_u)
  have a: "c_atol t = (if m = [] then - int n else int (dec_val 0 m))"
    using m n an(2) c_atol_digits(1) [OF m(1), of "CHR ''-'' # fmt_u n"] by (simp add: t_def)
  have 5: "c_int (c_atol (fmt_u n) + 1) = Some (int n + 1)"
    using an(1) n by (simp add: c_int_def)
  have 6: "c_atol t < int n + 1" using a m(2) by simp
  show ?thesis
    unfolding parse_range_def 1 Option.bind.bind_lunit f option.case Let_def 2 g 4
    using dx 6 a by (simp only: if_True 3 Option.bind.bind_lunit 5 case_prod_conv)
qed

theorem parse_range_skips_digit_witness:
  "parse_range (''Range: bytes=0-499'' @ [NUL]) 0 = Some (-499, 500) \<and>
   parse_range (''Range: bytes=500-999'' @ [NUL]) 0 = Some (0, 1000)"
proof -
  have f: "fmt_u 499 = ''499''" "fmt_u 999 = ''999''" "fmt_u 0 = ''0''" by code_simp+
  have 1: "c_str (''Range: bytes=0-499'' @ [NUL]) 0 = Some (''Range: bytes='' @ CHR ''0'' # [] @ CHR ''-'' # fmt_u 499)"
    unfolding f by (simp add: c_str_def)
  have 2: "c_str (''Range: bytes=500-999'' @ [NUL]) 0 = Some (''Range: bytes='' @ CHR ''5'' # ''00'' @ CHR ''-'' # fmt_u 999)"
    unfolding f by (simp add: c_str_def)
  have v: "digit_val CHR ''0'' = 0" "is_digit CHR ''0''" by (simp_all add: is_digit_def digit_val_def)
  show ?thesis
    using parse_range_skips_digit [OF 1] parse_range_skips_digit [OF 2] by (simp add: v)
qed

end
