(* ===== verification/Delivery.thy ===== *)
theory Delivery
  imports Wellformed
begin

text \<open>
  How a body gets to the client. A handler is a source of blocks (the locale \<open>body_source\<close>: what its \<open>ReadContent\<close>
  function promises); the response engine asks it for the next block whenever the transport reports that bytes were
  acknowledged, or polls. The lemmas of the locale follow the engine through one event and then through any sequence of
  them: the blocks go to the wire in order, plain or as chunks, until the source is at its end.
\<close>

section \<open>Sending leaves the source alone\<close>

definition steady :: "REQUEST_CONTEXT \<Rightarrow> world \<Rightarrow> REQUEST_CONTEXT \<Rightarrow> world \<Rightarrow> bool" where
  "steady c w c' w' \<longleftrightarrow> same_conn c c' \<and> source_part c' = source_part c \<and> same_site w w'"

lemma steady_trans: "steady c w c1 w1 \<Longrightarrow> steady c1 w1 c2 w2 \<Longrightarrow> steady c w c2 w2"
  unfolding steady_def same_site_def by (auto dest: same_conn_trans)

lemma sendBuffered_steady: "returns (sendBuffered c w) (\<lambda>r. steady c w (fst (snd r)) (snd (snd r)))"
proof (induction "nat (bytesLeft (ctxResponse c))" arbitrary: c w rule: less_induct)
  case less
  have IH: "returns (sendBuffered c' w') (\<lambda>r. steady c w (fst (snd r)) (snd (snd r)))"
    if "bytesLeft (ctxResponse c') < bytesLeft (ctxResponse c)" "0 < bytesLeft (ctxResponse c)" "steady c w c' w'" for c' w'
    using less [of c' w'] that by (auto intro: returns_mono steady_trans)
  show ?case
    unfolding sendBuffered.simps [of c w] altcp_sndbuf_def altcp_write_def clock_defs
    by (rule IH vcg | (auto simp: steady_def same_site_def same_conn_def source_part_def upd_rsp_def split: if_splits dest!: cbuf_len; fail))+
qed

section \<open>The wire\<close>

text \<open>The bytes that the transport has taken of a connection.\<close>

definition wire_bytes :: "nat option \<Rightarrow> world \<Rightarrow> string" where
  "wire_bytes p w = concat (map snd (filter (\<lambda>x. fst x = p) (w_wire w)))"

lemma wire_bytes_app: "w_wire w' = w_wire w @ map (Pair p) bs \<Longrightarrow> wire_bytes p w' = wire_bytes p w @ concat bs"
  by (simp add: wire_bytes_def filter_map comp_def)

text \<open>With a transport that has room, sending empties the buffer.\<close>

lemma sendBuffered_ready:
  assumes "wf_send c" and "ready w"
  shows "\<exists>c' w'. sendBuffered c w = Some (True, c', w') \<and> steady c w c' w' \<and> bytesLeft (ctxResponse c') = 0 \<and>
     wire_bytes (pcb c) w' = wire_bytes (pcb c) w @ pending c \<and> ready w'"
proof -
  obtain ok c' w' bs where s: "sendBuffered c w = Some (ok, c', w')" "sent_as c w c' w' bs" "ok" "pending c' = []"
    using sendBuffered_spec [OF assms(1), of w] assms(2) by blast
  have "steady c w c' w'" using returnsD [OF sendBuffered_steady s(1)] by simp
  moreover have "bytesLeft (ctxResponse c') = 0" using s(2,4) by (auto simp: sent_as_def pending_def wf_send_def)
  moreover have "wire_bytes (pcb c) w' = wire_bytes (pcb c) w @ pending c"
    using s(2,4) wire_bytes_app [of w' w "pcb c" bs] by (simp add: sent_as_def)
  moreover have "ready w'" using assms(2) s(2) by (simp add: sent_as_def ready_def)
  ultimately show ?thesis using s(1,3) by auto
qed

section \<open>Sources of bodies\<close>

text \<open>What a block becomes on the wire: itself, or a chunk when the handler sends chunks.\<close>

definition framed :: "REQUEST_CONTEXT \<Rightarrow> bool" where
  "framed c \<longleftrightarrow> opt_set (options c) CGI_OPT_CHUNK_ENABLED"

definition piece :: "bool \<Rightarrow> bool \<Rightarrow> bool \<Rightarrow> string \<Rightarrow> string" where
  "piece chunks first final b = (if b = [] then [] else if chunks then chunk_text first final b else b)"

definition fresh_body :: "REQUEST_CONTEXT \<Rightarrow> bool" where
  "fresh_body c \<longleftrightarrow> dwOperStage (ctxResponse c) = 0 \<and> dwOperIndex (ctxResponse c) = 0"

definition at_end :: "REQUEST_CONTEXT \<Rightarrow> bool" where
  "at_end c \<longleftrightarrow> dwOperStage (ctxResponse c) = STAGE_END"

text \<open>What holds after a block: nothing is left at the end, and before it the source goes on with fewer calls.\<close>

definition goes_on :: "(REQUEST_CONTEXT \<Rightarrow> world \<Rightarrow> nat \<Rightarrow> string \<Rightarrow> bool) \<Rightarrow> REQUEST_CONTEXT \<Rightarrow> world \<Rightarrow> nat \<Rightarrow> string \<Rightarrow> bool" where
  "goes_on src c w n rest \<longleftrightarrow> (if at_end c then rest = [] else \<exists>n' < n. src c w n' rest)"

text \<open>A connection that sends with the handler \<open>h\<close>: the buffer is empty and the transport has room.\<close>

definition serves :: "cgi_id \<Rightarrow> REQUEST_CONTEXT \<Rightarrow> world \<Rightarrow> bool" where
  "serves h c w \<longleftrightarrow> handler c = Some h \<and> 0 < result c \<and> sending (ctxResponse c) \<noteq> 0 \<and> bytesLeft (ctxResponse c) = 0 \<and>
     sendMaxBlock (ctxResponse c) = 1600 \<and> length (sendBuffer (ctxResponse c)) = 1600 \<and> ready w \<and>
     state c \<in> {HTTP_STATE_SENDING_HEADER, HTTP_STATE_SENDING_BODY}"

text \<open>
  The last block: the read of an event on a connection (which has only noted the acknowledgement and the time before),
  with the 1588 bytes behind the room for the size of a chunk, delivers \<open>b\<close> and ends the body.
\<close>

definition last_block :: "(nat \<Rightarrow> int \<Rightarrow> REQUEST_CONTEXT \<Rightarrow> world \<Rightarrow> (int \<times> REQUEST_CONTEXT \<times> world) option) \<Rightarrow>
    REQUEST_CONTEXT \<Rightarrow> world \<Rightarrow> string \<Rightarrow> bool" where
  "last_block rd c w b \<longleftrightarrow> (\<exists>t w1 c2 w2. same_site w w1 \<and>
     rd 10 1588 (upd_rsp (\<lambda>r. r\<lparr>totalSent := t\<rparr>) (c\<lparr>state := HTTP_STATE_SENDING_BODY\<rparr>)) w1 = Some (int (length b), c2, w2) \<and>
     at_end c2 \<and> take (length b) (drop 10 (sendBuffer (ctxResponse c2))) = b)"

text \<open>
  What an event does that asks for a block: a block \<open>b\<close> of the body goes to the wire, and the source goes on. The one
  thing that can go wrong is the end mark behind a last block of 1584 to 1588 bytes.
\<close>

definition round_ok :: "cgi_id \<Rightarrow> (REQUEST_CONTEXT \<Rightarrow> world \<Rightarrow> nat \<Rightarrow> string \<Rightarrow> bool) \<Rightarrow> bool \<Rightarrow> REQUEST_CONTEXT \<Rightarrow> world \<Rightarrow> nat \<Rightarrow> string \<Rightarrow>
    (REQUEST_CONTEXT \<times> world) option \<Rightarrow> bool" where
  "round_ok h src p c w n rest res \<longleftrightarrow> (\<exists>b rest'. rest = b @ rest' \<and> (case res of
       None \<Rightarrow> framed c \<and> rest' = [] \<and> 1583 < length b \<and> length b \<le> 1588 \<and>
         (\<exists>rd. ReadContent h = Some rd \<and> last_block rd c w b)
     | Some (c', w') \<Rightarrow> serves h c' w' \<and> state c' = HTTP_STATE_SENDING_BODY \<and> options c' = options c \<and> pcb c' = pcb c \<and>
         \<not> fresh_body c' \<and> (fresh_body c \<longrightarrow> (b \<noteq> []) = p) \<and> goes_on src c' w' n rest' \<and> (at_end c' \<longrightarrow> b \<noteq> []) \<and>
         wire_bytes (pcb c) w' = wire_bytes (pcb c) w @ piece (framed c) (fresh_body c) (at_end c') b))"

lemma last_block_now:
  assumes "last_block rd (upd_rsp (\<lambda>r. r\<lparr>totalSent := t\<rparr>) c) w1 b" and "same_site w w1"
  shows "last_block rd c w b"
proof -
  have e: "upd_rsp (\<lambda>r. r\<lparr>totalSent := x\<rparr>) ((upd_rsp (\<lambda>r. r\<lparr>totalSent := t\<rparr>) c)\<lparr>state := y\<rparr>) =
      upd_rsp (\<lambda>r. r\<lparr>totalSent := x\<rparr>) (c\<lparr>state := y\<rparr>)" for x y by (simp add: upd_rsp_def)
  show ?thesis using assms unfolding last_block_def e same_site_def by metis
qed

lemma round_ok_now:
  assumes "round_ok h src p (upd_rsp (\<lambda>r. r\<lparr>totalSent := t\<rparr>) c) w1 n rest res"
    and "wire_bytes (pcb c) w1 = wire_bytes (pcb c) w" and "same_site w w1"
  shows "round_ok h src p c w n rest res"
proof -
  let ?c = "upd_rsp (\<lambda>r. r\<lparr>totalSent := t\<rparr>) c"
  have e: "framed ?c = framed c" "fresh_body ?c = fresh_body c" "options ?c = options c" "pcb ?c = pcb c"
    by (simp_all add: upd_rsp_def framed_def fresh_body_def)
  show ?thesis
  proof (cases res)
    case None
    with assms(1) show ?thesis unfolding round_ok_def e by (fastforce intro: last_block_now [OF _ assms(3)])
  next
    case (Some r)
    with assms(1) show ?thesis unfolding round_ok_def e assms(2) by (cases r) simp
  qed
qed

text \<open>
  The contract of the \<open>ReadContent\<close> function of a handler: \<open>src c w n rest\<close> says that the bytes \<open>rest\<close> of the body
  are still to come, in at most \<open>n\<close> calls. A call puts the next block where the engine asks for it, in whatever
  room of at least \<open>need\<close> bytes it gets, and touches nothing else of the connection.
\<close>

locale body_source =
  fixes h :: cgi_id and rd :: "nat \<Rightarrow> int \<Rightarrow> REQUEST_CONTEXT \<Rightarrow> world \<Rightarrow> (int \<times> REQUEST_CONTEXT \<times> world) option"
    and src :: "REQUEST_CONTEXT \<Rightarrow> world \<Rightarrow> nat \<Rightarrow> string \<Rightarrow> bool" and need :: nat and prompt :: bool
  assumes rd_handler: "ReadContent h = Some rd" and need_small: "need \<le> 1588"
    and src_live: "src c w n rest \<Longrightarrow> 0 < n \<and> \<not> at_end c"
    and src_cong: "src c w n rest \<Longrightarrow> source_part c' = source_part c \<Longrightarrow> same_site w w' \<Longrightarrow> src c' w' n rest"
    and rd_law: "src c w n rest \<Longrightarrow> need \<le> m \<Longrightarrow> off + m \<le> length (sendBuffer (ctxResponse c)) \<Longrightarrow>
      \<exists>b c' w' rest'. rd off (int m) c w = Some (int (length b), c', w') \<and> rest = b @ rest' \<and> length b \<le> m \<and>
        take (off + length b) (sendBuffer (ctxResponse c')) = take off (sendBuffer (ctxResponse c)) @ b \<and>
        same_conn c c' \<and> bytesLeft (ctxResponse c') = bytesLeft (ctxResponse c) \<and>
        total2Send (ctxResponse c') = total2Send (ctxResponse c) \<and> same_transport w w' \<and> \<not> fresh_body c' \<and> (fresh_body c \<longrightarrow> (b \<noteq> []) = prompt) \<and>
        goes_on src c' w' n rest' \<and> (at_end c' \<longrightarrow> b \<noteq> [])"
begin

lemma goes_on_cong: "goes_on src c w n rest \<Longrightarrow> source_part c' = source_part c \<Longrightarrow> same_site w w' \<Longrightarrow> goes_on src c' w' n rest"
  using src_cong by (metis (no_types, lifting) at_end_def goes_on_def prod.inject source_part_def)

lemma load_block:
  assumes "src c w n rest" and "serves h c w"
  shows "\<exists>b rest'. rest = b @ rest' \<and>
    ((framed c \<and> rest' = [] \<and> 1583 < length b \<and> length b \<le> 1588 \<and> (\<exists>c' w'. rd 10 1588 c w = Some (int (length b), c', w') \<and>
        at_end c' \<and> take (length b) (drop 10 (sendBuffer (ctxResponse c'))) = b) \<and> CGI_LoadContentToSend caller c w = None) \<or>
     (\<exists>c' w'. CGI_LoadContentToSend caller c w = Some (if b = [] then 0 else 1, c', w') \<and> same_conn c c' \<and>
        same_transport w w' \<and> \<not> fresh_body c' \<and> (fresh_body c \<longrightarrow> (b \<noteq> []) = prompt) \<and> goes_on src c' w' n rest' \<and> (at_end c' \<longrightarrow> b \<noteq> []) \<and> wf_send c' \<and>
        pending c' = piece (framed c) (fresh_body c) (at_end c') b))"
proof -
  have s: "handler c = Some h" "bytesLeft (ctxResponse c) = 0" "sendMaxBlock (ctxResponse c) = 1600"
    "length (sendBuffer (ctxResponse c)) = 1600" using assms(2) by (simp_all add: serves_def)
  have live: "\<not> at_end c" using src_live [OF assms(1)] by simp
  show ?thesis
  proof (cases "framed c")
    case False
    have "0 + 1598 \<le> length (sendBuffer (ctxResponse c))" "need \<le> 1598" using s(4) need_small by simp_all
    from rd_law [OF assms(1) this(2,1)] obtain b c1 w1 rest' where r: "rd 0 1598 c w = Some (int (length b), c1, w1)"
      "rest = b @ rest'" "take (length b) (sendBuffer (ctxResponse c1)) = b" "same_conn c c1" "bytesLeft (ctxResponse c1) = 0"
      "same_transport w w1" "\<not> fresh_body c1" "fresh_body c \<longrightarrow> (b \<noteq> []) = prompt" "at_end c1 \<longrightarrow> b \<noteq> []" "goes_on src c1 w1 n rest'" "length b \<le> 1598"
      using s(2) by auto
    define c' where "c' = upd_rsp (\<lambda>r. r\<lparr>bytesLeft := bytesLeft r + int (length b)\<rparr>) c1"
    have "CGI_LoadContentToSend caller c w = Some (if b = [] then 0 else 1, c', w1)"
      using s live False r(1) by (simp add: CGI_LoadContentToSend_def Let_def rd_handler at_end_def framed_def c'_def)
    moreover have "same_conn c1 c'" by (simp add: same_conn_def c'_def upd_rsp_def)
    moreover have "wf_send c'" "pending c' = b"
      using r(3,4,5,11) s(4) by (simp_all add: wf_send_def pending_def c'_def upd_rsp_def same_conn_def)
    moreover have "source_part c' = source_part c1" "fresh_body c' = fresh_body c1" "at_end c' = at_end c1"
      by (simp_all add: source_part_def c'_def upd_rsp_def fresh_body_def at_end_def)
    moreover have "piece (framed c) (fresh_body c) (at_end c1) b = b" using False by (simp add: piece_def)
    ultimately show ?thesis
      using r same_conn_trans [OF r(4)] goes_on_cong [OF r(10), of c' w1]
      by (intro exI [of _ b] exI [of _ rest'] conjI disjI2 exI [of _ c'] exI [of _ w1]) (simp_all add: same_site_def)
  next
    case True
    have "10 + 1588 \<le> length (sendBuffer (ctxResponse c))" using s(4) by simp
    from rd_law [OF assms(1) need_small this] obtain b c1 w1 rest' where r: "rd 10 1588 c w = Some (int (length b), c1, w1)"
      "rest = b @ rest'" "take (10 + length b) (sendBuffer (ctxResponse c1)) = take 10 (sendBuffer (ctxResponse c)) @ b"
      "same_conn c c1" "bytesLeft (ctxResponse c1) = 0" "same_transport w w1" "\<not> fresh_body c1" "fresh_body c \<longrightarrow> (b \<noteq> []) = prompt" "at_end c1 \<longrightarrow> b \<noteq> []"
      "goes_on src c1 w1 n rest'" "length b \<le> 1588"
      using s(2) by auto
    have l: "length (sendBuffer (ctxResponse c1)) = 1600" using r(4) s(4) by (simp add: same_conn_def)
    have "drop 10 (take (10 + length b) (sendBuffer (ctxResponse c1))) = drop 10 (take 10 (sendBuffer (ctxResponse c)) @ b)"
      using r(3) by simp
    then have d: "take (length b) (drop 10 (sendBuffer (ctxResponse c1))) = b" using s(4) by (simp add: drop_take)
    have e: "CGI_LoadContentToSend caller c w = (if b \<noteq> []
        then do { (m, sb) \<leftarrow> frame_chunk 0 (fresh_body c) (at_end c1) (length b) (sendBuffer (ctxResponse c1));
                  Some (1, upd_rsp (\<lambda>r. r\<lparr>sendBuffer := sb, bytesLeft := bytesLeft r + int m\<rparr>) c1, w1) }
        else Some (0, c1, w1))"
      using s live True r(1) by (simp add: CGI_LoadContentToSend_def Let_def rd_handler at_end_def framed_def fresh_body_def)
    show ?thesis
    proof (cases "b = []")
      case empty: True
      then have "wf_send c1" "pending c1 = []" using r(5) l by (simp_all add: wf_send_def pending_def)
      then show ?thesis using r empty e
        by (intro exI [of _ b] exI [of _ rest'] conjI disjI2 exI [of _ c1] exI [of _ w1]) (simp_all add: piece_def)
    next
      case some: False
      show ?thesis
      proof (cases "at_end c1 \<and> 1583 < length b")
        case over: True
        then have "frame_chunk 0 (fresh_body c) True (length b) (sendBuffer (ctxResponse c1)) = None"
          using l r(11) some by (intro frame_chunk_overruns) simp_all
        moreover have "rest' = []" using over r(10) by (simp add: goes_on_def)
        ultimately show ?thesis using r(1,2,11) d True over e some by (intro exI [of _ b] exI [of _ rest']) simp
      next
        case fit: False
        let ?t = "chunk_text (fresh_body c) (at_end c1) b"
        have "0 < length b" "length b < 65536"
          "0 + 10 + length b + (if at_end c1 then 7 else 0) \<le> length (sendBuffer (ctxResponse c1))"
          using some fit r(11) l by auto
        from frame_chunk_frames [OF this, of "fresh_body c"] d obtain sb where f:
          "frame_chunk 0 (fresh_body c) (at_end c1) (length b) (sendBuffer (ctxResponse c1)) = Some (length ?t, sb)"
          "length sb = 1600" "prefix ?t sb" using l by auto
        define c' where "c' = upd_rsp (\<lambda>r. r\<lparr>sendBuffer := sb, bytesLeft := bytesLeft r + int (length ?t)\<rparr>) c1"
        have "CGI_LoadContentToSend caller c w = Some (1, c', w1)" using e f(1) some by (simp add: c'_def)
        moreover have "same_conn c1 c'" using f(2) l by (simp add: same_conn_def c'_def upd_rsp_def)
        moreover have "wf_send c'" using prefix_length_le [OF f(3)] f(2) r(5) by (simp add: wf_send_def c'_def upd_rsp_def)
        moreover have "pending c' = ?t" using f(3) r(5) by (auto simp: pending_def c'_def upd_rsp_def prefix_def)
        moreover have "source_part c' = source_part c1" "fresh_body c' = fresh_body c1" "at_end c' = at_end c1"
          by (simp_all add: source_part_def c'_def upd_rsp_def fresh_body_def at_end_def)
        moreover have "piece (framed c) (fresh_body c) (at_end c1) b = ?t" using True some by (simp add: piece_def)
        ultimately show ?thesis
          using r some same_conn_trans [OF r(4)] goes_on_cong [OF r(10), of c' w1]
          by (intro exI [of _ b] exI [of _ rest'] conjI disjI2 exI [of _ c'] exI [of _ w1]) (simp_all add: same_site_def)
      qed
    qed
  qed
qed

end

context body_source
begin

text \<open>One event of the transport in the middle of a response.\<close>

lemma respond_round:
  assumes "src c w n rest" and "serves h c w" and "caller = HTTP_PROC_CALLER_SENT \<or> state c = HTTP_STATE_SENDING_BODY"
  shows "round_ok h src prompt c w n rest (HttpResponseProc caller c w)"
proof -
  have s: "handler c = Some h" "0 < result c" "sending (ctxResponse c) \<noteq> 0" "bytesLeft (ctxResponse c) = 0"
    "sendMaxBlock (ctxResponse c) = 1600" "length (sendBuffer (ctxResponse c)) = 1600" "ready w"
    "state c = HTTP_STATE_SENDING_HEADER \<or> state c = HTTP_STATE_SENDING_BODY" using assms(2) by (simp_all add: serves_def)
  define c1 where "c1 = c\<lparr>state := HTTP_STATE_SENDING_BODY\<rparr>"
  have c1: "serves h c1 w" "state c1 = HTTP_STATE_SENDING_BODY" "options c1 = options c" "pcb c1 = pcb c" "framed c1 = framed c"
    "fresh_body c1 = fresh_body c" "source_part c1 = source_part c"
    using s by (simp_all add: c1_def serves_def framed_def fresh_body_def source_part_def)
  have e: "HttpResponseProc caller c w = send_body caller c1 w"
  proof (cases "state c = HTTP_STATE_SENDING_BODY")
    case True
    then have "c1 = c" by (simp add: c1_def)
    then show ?thesis using s True by (simp add: HttpResponseProc_def Let_def http_states)
  next
    case False
    then show ?thesis using s assms(3) by (simp add: HttpResponseProc_def Let_def http_states c1_def)
  qed
  have "src c1 w n rest" using src_cong [OF assms(1) c1(7), of w] by (simp add: same_site_def)
  from load_block [OF this c1(1), of caller] obtain b rest' where b: "rest = b @ rest'"
    "(framed c1 \<and> rest' = [] \<and> 1583 < length b \<and> length b \<le> 1588 \<and> (\<exists>c' w'. rd 10 1588 c1 w = Some (int (length b), c', w') \<and>
        at_end c' \<and> take (length b) (drop 10 (sendBuffer (ctxResponse c'))) = b) \<and> CGI_LoadContentToSend caller c1 w = None) \<or>
     (\<exists>c' w'. CGI_LoadContentToSend caller c1 w = Some (if b = [] then 0 else 1, c', w') \<and> same_conn c1 c' \<and>
        same_transport w w' \<and> \<not> fresh_body c' \<and> (fresh_body c1 \<longrightarrow> (b \<noteq> []) = prompt) \<and> goes_on src c' w' n rest' \<and> (at_end c' \<longrightarrow> b \<noteq> []) \<and> wf_send c' \<and>
        pending c' = piece (framed c1) (fresh_body c1) (at_end c') b)" by blast
  show ?thesis
  proof (cases "CGI_LoadContentToSend caller c1 w")
    case None
    then have "HttpResponseProc caller c w = None" by (simp add: e send_body_def)
    moreover from None b(2) obtain c2 w2 where l: "framed c" "rest' = []" "1583 < length b" "length b \<le> 1588"
      "rd 10 1588 c1 w = Some (int (length b), c2, w2)" "at_end c2" "take (length b) (drop 10 (sendBuffer (ctxResponse c2))) = b"
      using c1(5) by auto
    have "upd_rsp (\<lambda>r. r\<lparr>totalSent := totalSent (ctxResponse c)\<rparr>) (c\<lparr>state := HTTP_STATE_SENDING_BODY\<rparr>) = c1"
      by (simp add: c1_def upd_rsp_def)
    then have "last_block rd c w b" using l(5-7) unfolding last_block_def
      by (intro exI [of _ "totalSent (ctxResponse c)"] exI [of _ w] exI [of _ c2] exI [of _ w2]) (simp add: same_site_def)
    ultimately show ?thesis using b(1) l(1-4) rd_handler unfolding round_ok_def by (intro exI [of _ b] exI [of _ rest']) auto
  next
    case (Some r)
    with b(2) obtain c2 w2 where r: "CGI_LoadContentToSend caller c1 w = Some (if b = [] then 0 else 1, c2, w2)" "same_conn c1 c2"
      "same_transport w w2" "\<not> fresh_body c2" "goes_on src c2 w2 n rest'" "at_end c2 \<longrightarrow> b \<noteq> []" "wf_send c2"
      "pending c2 = piece (framed c1) (fresh_body c1) (at_end c2) b" "fresh_body c \<longrightarrow> (b \<noteq> []) = prompt" using c1(6) by auto
    have w2: "ready w2" "wire_bytes p w2 = wire_bytes p w" for p
      using r(3) s(7) by (simp_all add: same_transport_def ready_def wire_bytes_def)
    have f: "pcb c2 = pcb c" "options c2 = options c" "state c2 = HTTP_STATE_SENDING_BODY" "handler c2 = Some h" "0 < result c2"
      using same_conn_fields [OF r(2)] c1 by (simp_all add: serves_def)
    have f2: "sendMaxBlock (ctxResponse c2) = 1600" "length (sendBuffer (ctxResponse c2)) = 1600" "sending (ctxResponse c2) \<noteq> 0"
      using r(2) c1(1) by (simp_all add: same_conn_def serves_def)
    show ?thesis
    proof (cases "b = []")
      case True
      then have "pending c2 = []" using r(8) by (simp add: piece_def)
      then have "bytesLeft (ctxResponse c2) = 0" using r(7) f2(2) by (auto simp: pending_def wf_send_def)
      then have "serves h c2 w2" using f f2 w2(1) by (simp add: serves_def)
      moreover have "HttpResponseProc caller c w = Some (c2, w2)" using True r(1) by (simp add: e send_body_def)
      ultimately show ?thesis using b(1) r f w2(2) True
        unfolding round_ok_def by (intro exI [of _ b] exI [of _ rest']) (simp add: piece_def)
    next
      case False
      obtain c3 w3 where t: "sendBuffered c2 w2 = Some (True, c3, w3)" "steady c2 w2 c3 w3" "bytesLeft (ctxResponse c3) = 0"
        "wire_bytes (pcb c2) w3 = wire_bytes (pcb c2) w2 @ pending c2" "ready w3"
        using sendBuffered_ready [OF r(7) w2(1)] by blast
      define c' where "c' = upd_rsp (\<lambda>r. r\<lparr>sending := 1\<rparr>) c3"
      have h: "HttpResponseProc caller c w = Some (c', w3)" using False r(1) t(1) by (simp add: e send_body_def c'_def)
      have c3: "same_conn c2 c3" "source_part c3 = source_part c2" "same_site w2 w3" using t(2) by (simp_all add: steady_def)
      have sp: "source_part c' = source_part c2" using c3(2) by (simp add: c'_def upd_rsp_def source_part_def)
      then have p: "fresh_body c' = fresh_body c2" "at_end c' = at_end c2"
        by (auto simp: source_part_def fresh_body_def at_end_def)
      have "serves h c' w3" using same_conn_fields [OF c3(1)] c3(1) f f2 t(3,5)
        by (simp add: serves_def c'_def upd_rsp_def same_conn_def)
      moreover have "state c' = HTTP_STATE_SENDING_BODY" "options c' = options c" "pcb c' = pcb c"
        using same_conn_fields [OF c3(1)] f by (simp_all add: c'_def upd_rsp_def)
      moreover have "goes_on src c' w3 n rest'" by (rule goes_on_cong [OF r(5) sp c3(3)])
      ultimately show ?thesis using b(1) h r(4,6,8,9) p t(4) w2(2) f(1) c1(5,6)
        unfolding round_ok_def by (intro exI [of _ b] exI [of _ rest']) simp
    qed
  qed
qed

end

section \<open>The events of a response\<close>

text \<open>
  While a response is sent, the transport reports that bytes were acknowledged, however many at a time, or it polls.
  \<open>Poll\<close> stands for a poll that finds the connection within its time-out.
\<close>

datatype tx_event = Acked nat | Poll

definition tx_step :: "tx_event \<Rightarrow> REQUEST_CONTEXT \<Rightarrow> world \<Rightarrow> (REQUEST_CONTEXT \<times> world) option" where
  "tx_step e c w = (case e of
       Acked k \<Rightarrow> sent_event k c w
     | Poll \<Rightarrow> HttpRequestProc HTTP_PROC_CALLER_POLL c w)"

fun tx_run :: "tx_event list \<Rightarrow> REQUEST_CONTEXT \<Rightarrow> world \<Rightarrow> (REQUEST_CONTEXT \<times> world) option" where
  "tx_run [] c w = Some (c, w)"
| "tx_run (e # es) c w = do { (c, w) \<leftarrow> tx_step e c w; tx_run es c w }"

definition acks :: "tx_event list \<Rightarrow> nat" where
  "acks es = length (filter (\<lambda>e. e \<noteq> Poll) es)"

lemma acks_simps [simp]: "acks [] = 0" "acks (Acked k # es) = Suc (acks es)" "acks (Poll # es) = acks es"
  by (simp_all add: acks_def)

lemma sending_loop: "HTTP_STATE_BODY_DONE \<le> state c \<Longrightarrow> request_loop c w = Some (Leave, c, w)"
  by (subst request_loop.simps) simp

lemma sending_proc:
  assumes "HTTP_STATE_BODY_DONE \<le> state c"
  shows "HttpRequestProc caller c w =
    do { (c, w) \<leftarrow> HttpResponseProc caller c w;
         if state c = HTTP_STATE_REQUEST_END
         then (if 0 < peer_closing c then CloseHttpContext c w
               else if 0 < keepalive c then ResetHttpContext c w else CloseHttpContext c w)
         else Some (c, w) }"
  using assms by (simp add: HttpRequestProc_def sending_loop)

lemma session_stamp_same: "same_site w (session_stamp f c w)" "same_transport w (session_stamp f c w)"
  by (auto simp: same_site_def same_transport_def session_stamp_def LWIP_GetTickCount_def split: option.split)

text \<open>
  The response stops for the end mark: the event behind the first \<open>j\<close> is undefined, and it is the one that loads the
  last block \<open>b\<close> of the body, of 1584 to 1588 bytes.
\<close>

definition stops_at_end :: "(nat \<Rightarrow> int \<Rightarrow> REQUEST_CONTEXT \<Rightarrow> world \<Rightarrow> (int \<times> REQUEST_CONTEXT \<times> world) option) \<Rightarrow>
    (nat \<Rightarrow> (REQUEST_CONTEXT \<times> world) option) \<Rightarrow> nat \<Rightarrow> string \<Rightarrow> bool" where
  "stops_at_end rd run k body \<longleftrightarrow> (\<exists>j c w sent b. k = Suc j \<and> run j = Some (c, w) \<and> run k = None \<and>
     body = sent @ b \<and> 1583 < length b \<and> length b \<le> 1588 \<and> last_block rd c w b)"

lemma stops_at_end_Suc:
  assumes "stops_at_end rd run k body" and "\<And>j. run' (Suc j) = run j"
  shows "stops_at_end rd run' (Suc k) (b @ body)"
  using assms(1) unfolding stops_at_end_def by (metis append_assoc assms(2))

text \<open>A body on the wire: its blocks, or their chunks with the end mark.\<close>

definition on_wire :: "bool \<Rightarrow> REQUEST_CONTEXT \<Rightarrow> string list \<Rightarrow> string" where
  "on_wire p c ds = (if framed c then chunk_stream (p \<and> fresh_body c) ds else concat ds)"

context body_source
begin

lemma tx_round:
  assumes "src c w n rest" and "serves h c w"
  shows "(e = Poll \<and> tx_step e c w = Some (c, w)) \<or> round_ok h src prompt c w n rest (tx_step e c w)"
proof -
  have step: "HttpRequestProc caller c1 w1 = HttpResponseProc caller c1 w1"
    if r: "round_ok h src prompt c1 w1 n rest (HttpResponseProc caller c1 w1)" and "HTTP_STATE_BODY_DONE \<le> state c1" for caller c1 w1
  proof (cases "HttpResponseProc caller c1 w1")
    case None
    then show ?thesis by (simp add: sending_proc [OF that(2)])
  next
    case (Some r)
    obtain c' w' where "r = (c', w')" by (cases r)
    with r Some have "state c' = HTTP_STATE_SENDING_BODY" by (auto simp: round_ok_def)
    with Some \<open>r = _\<close> show ?thesis by (simp add: sending_proc [OF that(2)] http_states)
  qed
  have st: "HTTP_STATE_BODY_DONE \<le> state c" using assms(2) by (auto simp: serves_def http_states)
  show ?thesis
  proof (cases e)
    case Poll
    show ?thesis
    proof (cases "state c = HTTP_STATE_SENDING_BODY")
      case False
      then have "HttpResponseProc HTTP_PROC_CALLER_POLL c w = Some (c, w)"
        using assms(2) by (simp add: HttpResponseProc_def serves_def http_states Let_def)
      then show ?thesis using Poll False assms(2) by (simp add: tx_step_def sending_proc [OF st] serves_def http_states)
    next
      case True
      have r: "round_ok h src prompt c w n rest (HttpResponseProc HTTP_PROC_CALLER_POLL c w)"
        using respond_round [OF assms] True by blast
      then show ?thesis using Poll step [OF r st] by (simp add: tx_step_def)
    qed
  next
    case (Acked k)
    define c1 where "c1 = upd_rsp (\<lambda>r. r\<lparr>totalSent := totalSent r + int k\<rparr>) c"
    define w1 where "w1 = session_stamp SessionSent c w"
    have w1: "same_site w w1" "same_transport w w1" by (simp_all add: w1_def session_stamp_same)
    then have w1': "ready w1 = ready w" "wire_bytes p w1 = wire_bytes p w" for p
      by (simp_all add: same_transport_def ready_def wire_bytes_def)
    have c1: "serves h c1 w1" "source_part c1 = source_part c" "options c1 = options c" "pcb c1 = pcb c" "framed c1 = framed c"
      "fresh_body c1 = fresh_body c" "HTTP_STATE_BODY_DONE \<le> state c1"
      using assms(2) w1' by (auto simp: c1_def upd_rsp_def serves_def source_part_def framed_def fresh_body_def http_states)
    have "src c1 w1 n rest" using src_cong [OF assms(1) c1(2) w1(1)] .
    then have r: "round_ok h src prompt c1 w1 n rest (HttpResponseProc HTTP_PROC_CALLER_SENT c1 w1)"
      using respond_round [OF _ c1(1)] by blast
    have e: "tx_step e c w = do { (c, w) \<leftarrow> HttpResponseProc HTTP_PROC_CALLER_SENT c1 w1; (closed, c, w) \<leftarrow> handle_errors (-1) c w; Some (c, w) }"
      by (simp add: tx_step_def Acked sent_event_def c1_def [symmetric] w1_def [symmetric] Let_def step [OF r c1(7)])
    have "tx_step e c w = HttpResponseProc HTTP_PROC_CALLER_SENT c1 w1"
    proof (cases "HttpResponseProc HTTP_PROC_CALLER_SENT c1 w1")
      case None
      then show ?thesis by (simp add: e)
    next
      case (Some q)
      obtain c' w' where q: "q = (c', w')" by (cases q)
      with r Some have "0 < result c'" by (auto simp: round_ok_def serves_def)
      then have "handle_errors (-1) c' w' = Some (False, c', w')" by (simp add: handle_errors_def)
      then show ?thesis using Some q by (simp add: e)
    qed
    then show ?thesis using round_ok_now [of h src prompt "totalSent (ctxResponse c) + int k" c w1] r w1'(2) w1(1)
      by (simp add: c1_def upd_rsp_def)
  qed
qed

text \<open>
  All of a body: after some of the events the last block is on its way, and what is on the wire are the blocks, or
  their chunks with the end mark. The one thing that can go wrong is the end mark behind a block that fills the buffer.
\<close>

lemma body_delivered:
  assumes "src c w n rest" and "serves h c w" and "n \<le> acks es"
  shows "\<exists>k \<le> length es.
    (framed c \<and> stops_at_end rd (\<lambda>j. tx_run (take j es) c w) k rest) \<or>
    (\<exists>c' w' ds. tx_run (take k es) c w = Some (c', w') \<and> at_end c' \<and> serves h c' w' \<and> ds \<noteq> [] \<and> [] \<notin> set ds \<and> concat ds = rest \<and>
       wire_bytes (pcb c) w' = wire_bytes (pcb c) w @ on_wire prompt c ds)"
  using assms
proof (induction es arbitrary: c w n rest)
  case Nil
  then show ?case using src_live by fastforce
next
  case (Cons e es)
  have ih: ?case if s: "tx_step e c w = Some (c, w)" "e = Poll"
  proof -
    have "n \<le> acks es" using Cons.prems(3) that by simp
    from Cons.IH [OF Cons.prems(1,2) this] obtain k where "k \<le> length es"
      "(framed c \<and> stops_at_end rd (\<lambda>j. tx_run (take j es) c w) k rest) \<or>
       (\<exists>c' w' ds. tx_run (take k es) c w = Some (c', w') \<and> at_end c' \<and> serves h c' w' \<and> ds \<noteq> [] \<and> [] \<notin> set ds \<and> concat ds = rest \<and>
         wire_bytes (pcb c) w' = wire_bytes (pcb c) w @ on_wire prompt c ds)" by blast
    moreover have "tx_run (take (Suc j) (e # es)) c w = tx_run (take j es) c w" for j using s by simp
    ultimately show ?thesis
      using stops_at_end_Suc [of rd "\<lambda>j. tx_run (take j es) c w" k rest "\<lambda>j. tx_run (take j (e # es)) c w" "[]"]
      by (intro exI [of _ "Suc k"]) auto
  qed
  show ?case
  proof (cases "e = Poll \<and> tx_step e c w = Some (c, w)")
    case True
    then show ?thesis by (intro ih) blast+
  next
    case False
    then have r: "round_ok h src prompt c w n rest (tx_step e c w)" using tx_round [OF Cons.prems(1,2)] by blast
    show ?thesis
    proof (cases "tx_step e c w")
      case None
      with r rd_handler obtain b where "framed c" "rest = [] @ b" "1583 < length b" "length b \<le> 1588" "last_block rd c w b"
        by (auto simp: round_ok_def)
      then show ?thesis using None unfolding stops_at_end_def
        by (intro exI [of _ 1] conjI disjI1 exI [of _ 0] exI [of _ c] exI [of _ w] exI [of _ "[]"] exI [of _ b]) simp_all
    next
      case (Some q)
      obtain c1 w1 where q: "q = (c1, w1)" by (cases q)
      from r Some q obtain b rest' where b: "rest = b @ rest'" "serves h c1 w1" "options c1 = options c" "pcb c1 = pcb c"
        "\<not> fresh_body c1" "fresh_body c \<longrightarrow> (b \<noteq> []) = prompt" "goes_on src c1 w1 n rest'" "at_end c1 \<longrightarrow> b \<noteq> []"
        "wire_bytes (pcb c) w1 = wire_bytes (pcb c) w @ piece (framed c) (fresh_body c) (at_end c1) b"
        by (auto simp: round_ok_def)
      have fr: "framed c1 = framed c" using b(3) by (simp add: framed_def)
      show ?thesis
      proof (cases "at_end c1")
        case True
        then have "rest' = []" "b \<noteq> []" using b(7,8) by (simp_all add: goes_on_def)
        then show ?thesis using b True Some q
          by (intro exI [of _ 1] conjI disjI2 exI [of _ c1] exI [of _ w1] exI [of _ "[b]"])
            (cases "fresh_body c"; simp add: on_wire_def piece_def)+
      next
        case more: False
        then obtain n' where n': "n' < n" "src c1 w1 n' rest'" using b(7) by (auto simp: goes_on_def)
        have "n' \<le> acks es" using n'(1) Cons.prems(3) by (cases e) simp_all
        from Cons.IH [OF n'(2) b(2) this] obtain k where k: "k \<le> length es"
          "(framed c1 \<and> stops_at_end rd (\<lambda>j. tx_run (take j es) c1 w1) k rest') \<or>
           (\<exists>c' w' ds. tx_run (take k es) c1 w1 = Some (c', w') \<and> at_end c' \<and> serves h c' w' \<and> ds \<noteq> [] \<and> [] \<notin> set ds \<and> concat ds = rest' \<and>
             wire_bytes (pcb c1) w' = wire_bytes (pcb c1) w1 @ on_wire prompt c1 ds)" by blast
        have run: "tx_run (take (Suc j) (e # es)) c w = tx_run (take j es) c1 w1" for j using Some q by simp
        from k(2) show ?thesis
        proof
          assume "framed c1 \<and> stops_at_end rd (\<lambda>j. tx_run (take j es) c1 w1) k rest'"
          then show ?thesis using k(1) b(1) fr
              stops_at_end_Suc [of rd "\<lambda>j. tx_run (take j es) c1 w1" k rest' "\<lambda>j. tx_run (take j (e # es)) c w" b] run
            by (intro exI [of _ "Suc k"]) simp
        next
          assume "\<exists>c' w' ds. tx_run (take k es) c1 w1 = Some (c', w') \<and> at_end c' \<and> serves h c' w' \<and> ds \<noteq> [] \<and> [] \<notin> set ds \<and> concat ds = rest' \<and>
            wire_bytes (pcb c1) w' = wire_bytes (pcb c1) w1 @ on_wire prompt c1 ds"
          then obtain c' w' ds where d: "tx_run (take k es) c1 w1 = Some (c', w')" "at_end c'" "serves h c' w'" "ds \<noteq> []"
            "[] \<notin> set ds" "concat ds = rest'" "wire_bytes (pcb c1) w' = wire_bytes (pcb c1) w1 @ on_wire prompt c1 ds" by auto
          define ds' where "ds' = (if b = [] then ds else b # ds)"
          have "wire_bytes (pcb c) w' = wire_bytes (pcb c) w @ on_wire prompt c ds'"
            using b(4-6,9) d(4,7) fr more by (cases "fresh_body c") (auto simp: on_wire_def piece_def ds'_def)
          moreover have "ds' \<noteq> []" "[] \<notin> set ds'" "concat ds' = rest" using d b(1) by (auto simp: ds'_def)
          ultimately show ?thesis using run d k(1)
            by (intro exI [of _ "Suc k"] conjI disjI2 exI [of _ c'] exI [of _ w'] exI [of _ ds']) simp_all
        qed
      qed
    qed
  qed
qed

text \<open>The two forms of a response: the bytes themselves, and chunks that a client decodes.\<close>

lemma plain_delivered:
  assumes "src c w n rest" and "serves h c w" and "n \<le> acks es" and "\<not> framed c"
  shows "\<exists>k \<le> length es. \<exists>c' w'. tx_run (take k es) c w = Some (c', w') \<and> at_end c' \<and>
    wire_bytes (pcb c) w' = wire_bytes (pcb c) w @ rest"
  using body_delivered [OF assms(1-3)] assms(4) by (fastforce simp: on_wire_def)

lemma chunks_delivered:
  assumes "src c w n rest" and "serves h c w" and "n \<le> acks es" and "framed c" and "fresh_body c"
  shows "\<exists>k \<le> length es. stops_at_end rd (\<lambda>j. tx_run (take j es) c w) k rest \<or>
    (\<exists>c' w' t. tx_run (take k es) c w = Some (c', w') \<and> at_end c' \<and>
       wire_bytes (pcb c) w' = wire_bytes (pcb c) w @ (if prompt then [] else CRLF) @ t \<and> decode_chunked t = Some rest)"
proof -
  obtain k where k: "k \<le> length es" "(framed c \<and> stops_at_end rd (\<lambda>j. tx_run (take j es) c w) k rest) \<or>
    (\<exists>c' w' ds. tx_run (take k es) c w = Some (c', w') \<and> at_end c' \<and> serves h c' w' \<and> ds \<noteq> [] \<and> [] \<notin> set ds \<and> concat ds = rest \<and>
       wire_bytes (pcb c) w' = wire_bytes (pcb c) w @ on_wire prompt c ds)" using body_delivered [OF assms(1-3)] by blast
  from k(2) show ?thesis
  proof
    assume "framed c \<and> stops_at_end rd (\<lambda>j. tx_run (take j es) c w) k rest"
    then show ?thesis using k(1) by blast
  next
    assume "\<exists>c' w' ds. tx_run (take k es) c w = Some (c', w') \<and> at_end c' \<and> serves h c' w' \<and> ds \<noteq> [] \<and> [] \<notin> set ds \<and> concat ds = rest \<and>
       wire_bytes (pcb c) w' = wire_bytes (pcb c) w @ on_wire prompt c ds"
    then obtain c' w' ds where d: "tx_run (take k es) c w = Some (c', w')" "at_end c'" "ds \<noteq> []" "[] \<notin> set ds" "concat ds = rest"
      "wire_bytes (pcb c) w' = wire_bytes (pcb c) w @ on_wire prompt c ds" by auto
    have "\<forall>d \<in> set ds. d \<noteq> []" using d(4) by auto
    from decode_stream [OF this d(3), of prompt] obtain t where t: "chunk_stream prompt ds = (if prompt then [] else CRLF) @ t" "decode_chunked t = Some rest"
      using d(5) by auto
    then show ?thesis using d k(1) assms(4,5)
      by (intro exI [of _ k] conjI disjI2 exI [of _ c'] exI [of _ w'] exI [of _ t]) (simp_all add: on_wire_def)
  qed
qed

end

end
