(* ===== verification/Bodies.thy ===== *)
theory Bodies
  imports Delivery Ssi
begin

text \<open>
  The sources of bodies: a file as it is, a page whose tags are replaced, and the device description. Each is an
  interpretation of \<open>body_source\<close> at the handlers that send it.
\<close>

section \<open>Files as bodies\<close>

text \<open>A file that is sent as it is: \<open>rest\<close> is what lies behind its position.\<close>

definition file_src :: "REQUEST_CONTEXT \<Rightarrow> world \<Rightarrow> nat \<Rightarrow> string \<Rightarrow> bool" where
  "file_src c w n rest \<longleftrightarrow> (\<exists>s f. as_ssi (appContext (ctxResponse c)) = Some s \<and> ssi s = 0 \<and> ssi_fp s = Some f \<and>
     file_valid f (w_fs w) \<and> file_pos f (w_fs w) \<le> length (file_content f (w_fs w)) \<and>
     drop (file_pos f (w_fs w)) (file_content f (w_fs w)) = rest) \<and>
     requestMethod c \<in> {METHOD_GET, METHOD_POST} \<and> rest \<noteq> [] \<and> length rest \<le> n \<and> 0 \<le> dwOperIndex (ctxResponse c) \<and>
     dwTotal (ctxResponse c) = dwOperIndex (ctxResponse c) + int (length rest) \<and>
     unat (dwOperStage (ctxResponse c)) + n < 2 ^ 32 - 1"

lemma file_src_live: "file_src c w n rest \<Longrightarrow> 0 < n \<and> \<not> at_end c"
  by (cases n) (auto simp: file_src_def at_end_def STAGE_END_def)

lemma file_src_cong: "file_src c w n rest \<Longrightarrow> source_part c' = source_part c \<Longrightarrow> same_site w w' \<Longrightarrow> file_src c' w' n rest"
  by (simp add: file_src_def source_part_def same_site_def)

lemma file_rd_law:
  assumes "file_src c w n rest" and "1 \<le> m" and "off + m \<le> length (sendBuffer (ctxResponse c))"
  shows "\<exists>b c' w' rest'. WEB_ReadContent off (int m) c w = Some (int (length b), c', w') \<and> rest = b @ rest' \<and> length b \<le> m \<and>
    take (off + length b) (sendBuffer (ctxResponse c')) = take off (sendBuffer (ctxResponse c)) @ b \<and>
    same_conn c c' \<and> bytesLeft (ctxResponse c') = bytesLeft (ctxResponse c) \<and>
    total2Send (ctxResponse c') = total2Send (ctxResponse c) \<and> same_transport w w' \<and> \<not> fresh_body c' \<and> (fresh_body c \<longrightarrow> b \<noteq> []) \<and>
    goes_on file_src c' w' n rest' \<and> (at_end c' \<longrightarrow> b \<noteq> [])"
proof -
  let ?r = "ctxResponse c" and ?fs = "w_fs w"
  obtain s f where s: "as_ssi (appContext ?r) = Some s" "ssi s = 0" "ssi_fp s = Some f" "file_valid f ?fs"
    "file_pos f ?fs \<le> length (file_content f ?fs)" "drop (file_pos f ?fs) (file_content f ?fs) = rest"
    and g: "requestMethod c = METHOD_GET \<or> requestMethod c = METHOD_POST" "rest \<noteq> []" "length rest \<le> n" "0 \<le> dwOperIndex ?r"
      "dwTotal ?r = dwOperIndex ?r + int (length rest)" "unat (dwOperStage ?r) + n < 2 ^ 32 - 1"
    using assms(1) by (auto simp: file_src_def)
  define k where "k = min (length rest) m"
  define b where "b = take k rest"
  have k: "0 < k" "k \<le> m" "k \<le> length rest" using g(2) assms(2) by (simp_all add: k_def)
  have lb: "length b = k" "b \<noteq> []" using k by (auto simp: b_def)
  have mr: "min (dwTotal ?r - dwOperIndex ?r) (int m) = int k" using g(5) by (simp add: k_def)
  obtain fs1 where rd: "WEB_fread (Some f) k ?fs = Some (Some b, fs1)" "file_valid f fs1" "file_content f fs1 = file_content f ?fs"
    "file_pos f fs1 = min (file_pos f ?fs + k) (length (file_content f ?fs))"
    using web_file.rd_law [OF s(4,5), of k] by (auto simp: b_def s(6))
  have ps: "file_pos f fs1 = file_pos f ?fs + k" using rd(4) k(3) s(5,6) by auto
  let ?sb = "take off (sendBuffer ?r) @ b @ drop (off + k) (sendBuffer ?r)" and ?i = "dwOperIndex ?r + int k"
  let ?st = "next_stage s ?i (dwTotal ?r) (dwOperStage ?r)"
  define c' where "c' = upd_rsp (\<lambda>r. r\<lparr>sendBuffer := ?sb, dwOperIndex := ?i, dwOperStage := ?st\<rparr>) c"
  define w' where "w' = w\<lparr>w_fs := fs1\<rparr>"
  have cp: "c_cpy (sendBuffer ?r) off b = Some ?sb" using assms(3) k(2) lb(1) by (simp add: c_cpy_def)
  have e: "WEB_ReadContent off (int m) c w = Some (int (length b), c', w')"
    using g(1,2,5) s(1-3) mr rd(1) cp lb by (auto simp: WEB_ReadContent_def Let_def upd_rsp_def c'_def w'_def)
  have st: "dwOperStage (ctxResponse c') = (if k = length rest then STAGE_END else dwOperStage ?r + 1)"
    using s(2) g(5) k(3) by (simp add: c'_def upd_rsp_def next_stage_def)
  have u: "unat (dwOperStage ?r + 1) = unat (dwOperStage ?r) + 1" using g(6) by (simp add: unat_word_ariths)
  have ne: "dwOperStage ?r + 1 \<noteq> STAGE_END"
  proof
    assume "dwOperStage ?r + 1 = STAGE_END"
    then have "unat (dwOperStage ?r) + 1 = unat STAGE_END" using u by simp
    then show False using g(2,3,6) by (cases n) (simp_all add: STAGE_END_def)
  qed
  have go: "goes_on file_src c' w' n (drop k rest)"
  proof (cases "k = length rest")
    case True
    then show ?thesis using st by (simp add: goes_on_def at_end_def)
  next
    case False
    have d: "drop (file_pos f ?fs + k) (file_content f ?fs) = drop k rest" using s(6) by (simp add: add.commute flip: drop_drop)
    have p: "file_pos f ?fs + k \<le> length (file_content f ?fs)" using ps rd(4) by simp
    have "file_src c' w' (n - 1) (drop k rest)"
      unfolding file_src_def
    proof (intro conjI exI [of _ s] exI [of _ f])
      show "as_ssi (appContext (ctxResponse c')) = Some s" using s(1) by (simp add: c'_def upd_rsp_def)
      show "unat (dwOperStage (ctxResponse c')) + (n - 1) < 2 ^ 32 - 1" using st u g(2,3,6) False by (cases n) simp_all
      show "length (drop k rest) \<le> n - 1" using g(3) k by simp
    qed (use s rd g k False p d ps in \<open>auto simp: c'_def w'_def upd_rsp_def\<close>)
    then show ?thesis using st ne False g(3) k(1,3) by (auto simp: goes_on_def at_end_def intro!: exI [of _ "n - 1"])
  qed
  have "same_conn c c'" using assms(3) k lb(1) by (simp add: same_conn_def c'_def upd_rsp_def)
  moreover have "take (off + length b) (sendBuffer (ctxResponse c')) = take off (sendBuffer ?r) @ b"
    using assms(3) lb(1) by (simp add: c'_def upd_rsp_def)
  moreover have "\<not> fresh_body c'" using g(4) k(1) by (simp add: fresh_body_def c'_def upd_rsp_def)
  moreover have "same_transport w w'" by (simp add: same_transport_def w'_def)
  ultimately show ?thesis using e go lb k
    by (intro exI [of _ b] exI [of _ c'] exI [of _ w'] exI [of _ "drop k rest"]) (simp add: b_def c'_def upd_rsp_def)
qed

interpretation auth_file: body_source g_cgiAuth WEB_ReadContent file_src 1 True
  using file_src_live file_src_cong file_rd_law by unfold_locales (simp_all add: ReadContent_def)

interpretation app_file: body_source g_cgiWebApp WEB_ReadContent file_src 1 True
  using file_src_live file_src_cong file_rd_law by unfold_locales (simp_all add: ReadContent_def)

section \<open>Pages with tags as bodies\<close>

text \<open>The text of something is something.\<close>

lemma ssi_text_nonempty:
  assumes "ssi_text d st t = Some out" and "t \<noteq> []"
  shows "out \<noteq> []"
  using assms
proof (induction d st t arbitrary: out rule: ssi_text.induct)
  case (1 d t)
  show ?case
  proof (cases "prefix tagStart t")
    case True
    then have s: "ssi_text d (Some []) (drop 5 t) = Some out" using 1(3,4) by (simp add: ssi_text.simps(1))
    have "drop 5 t \<noteq> []" using ssi_text_end(1) [OF s] by fastforce
    then show ?thesis using 1(1) [OF 1(4) True s] by simp
  next
    case False
    then show ?thesis using 1(3,4) by (auto simp: ssi_text.simps(1) [of d t])
  qed
next
  case (2 d nm t)
  have l: "64 \<le> length t" using 2(3) by (simp add: ssi_text.simps(2) split: if_splits)
  show ?case
  proof (cases "prefix tagEnd t")
    case True
    have "drop 3 t \<noteq> []" using l by auto
    then show ?thesis using 2(1,3) True l by (auto simp: ssi_text.simps(2) bind_eq_Some_conv split: if_splits)
  next
    case False
    have "tl t \<noteq> []" using l by (cases t) auto
    then show ?thesis using 2(2,3) False l by (auto simp: ssi_text.simps(2) [of d nm t] split: if_splits)
  qed
qed

text \<open>A page that does not begin with a tag gives a first block that is not empty.\<close>

lemma scan_first:
  assumes "scan_pre d off m r s sb 0 0 out" and "5 \<le> cacheOffset s" and "ssiState s \<noteq> 2" and "\<not> prefix tagStart (cache_rest s 0 @ r)"
  shows "\<exists>s' sb' n' k' flush. ssi_scan d off (int m) s sb 0 0 = Some (s', sb', n', k', flush) \<and> 0 < n'"
proof -
  note pre = assms(1) [unfolded scan_pre_def]
  have inv: "ssi_inv s" and k: "0 < cacheOffset s" using pre assms(2) by simp_all
  define x where "x = cache s ! 0"
  have rd: "c_rd (cache s) 0 = Some x" using k inv by (simp add: x_def c_rd_def ssi_inv_def)
  have u: "cache_rest s 0 = x # cache_rest s (Suc 0)" unfolding x_def by (rule cache_rest_Cons [OF k inv])
  define s1 where "s1 = s\<lparr>ssiState := 1\<rparr>"
  have s1: "(if ssiState s = 0 then s\<lparr>ssiState := 1\<rparr> else s) = s1" "ssiState s1 = 1" "ssi_inv s1" "reading s1 = None" "cacheOffset s1 = cacheOffset s"
    "cache s1 = cache s"
    using assms(3) inv by (auto simp: s1_def ssi_inv_def reading_def)
  have ca: "cache_at s1 0 = cache_at s 0" by (simp add: cache_at_def s1_def)
  have no: "x \<noteq> CHR ''<'' \<or> Strnicmp (cache_at s 0) tagStart 5 \<noteq> 0"
    using scan_start [of 0 s r] assms(2,4) inv by auto
  let ?sb = "take off sb @ [x] @ drop (off + length [x]) sb"
  have w: "c_wr sb off x = Some ?sb" using pre by (simp add: c_wr_def upd_conv_take_nth_drop)
  have sc: "ssi_scan d off (int m) s sb 0 0 = (if int m \<le> 1 then Some (s1, ?sb, 1, 1, True) else ssi_scan d off (int m) s1 ?sb 1 1)"
    using k s1(1,2,5,6) rd no assms(2) w by (subst ssi_scan.simps) (simp add: Let_def ca)
  have "ssi_text d None (cache_rest s 0 @ r) = Some out" using pre assms(3) by (simp add: reading_def)
  then obtain out1 where o: "ssi_text d None (cache_rest s (Suc 0) @ r) = Some out1"
    using assms(4) u by (auto simp: ssi_text.simps(1) [of d "x # t" for t])
  have "scan_pre d off m r s1 ?sb 1 1 out1"
    using pre s1 o assms(2) by (auto simp: scan_pre_def s1_def)
  from ssi_scan_spec [OF this] show ?thesis using pre unfolding sc scan_ok_def by auto
qed

text \<open>Scanner and loop only add to the block.\<close>

lemma add_tag_char_offset: "add_tag_char x s = Some s' \<Longrightarrow> cacheOffset s' = cacheOffset s"
  by (auto simp: add_tag_char_def bind_eq_Some_conv)

lemma ssi_scan_grows: "ssi_scan d off m s sb n k = Some (s', sb', n', k', flush) \<Longrightarrow> n \<le> n'"
proof (induction "cacheOffset s - k" arbitrary: s sb n k rule: less_induct)
  case less
  have IH: "n2 \<le> n'" if "ssi_scan d off m s2 sb2 n2 k2 = Some (s', sb', n', k', flush)" "cacheOffset s2 = cacheOffset s" "k < k2"
    "k < cacheOffset s" for s2 sb2 n2 k2
    using less(1) [OF _ that(1)] that(2-4) by simp
  show ?case using less(2) unfolding ssi_scan.simps [of d off m s sb n k]
    by (auto simp: Let_def bind_eq_Some_conv split: if_splits prod.splits dest!: add_tag_char_offset dest: IH)
qed

lemma ssi_loop_grows:
  assumes "ssi_loop d off m s sb n i tot fs = Some r"
  shows "n \<le> fst (snd (snd (snd r)))"
proof (rule ssi_loop.raw_induct [where P = "\<lambda>d off m s sb n i tot fs r. n \<le> fst (snd (snd (snd r)))", OF _ assms], goal_cases)
  case (1 loop d off m s sb n i tot fs y)
  have IH: "returns (loop d off m s2 sb2 n2 i2 tot fs2) (\<lambda>y. n \<le> fst (snd (snd (snd y))))" if "n \<le> n2" for s2 sb2 n2 i2 fs2
    using 1(1) that by (force intro: returnsI order_trans)
  have scan: "returns (ssi_scan d off m s2 sb n 0) (\<lambda>r. n \<le> fst (snd (snd r)))" for s2
    by (rule returnsI) (auto dest: ssi_scan_grows)
  have "returns (Some y) (\<lambda>y. n \<le> fst (snd (snd (snd y))))"
    unfolding 1(2) [symmetric] Let_def
    by (rule IH TrueI returns_NoneI returns_SomeI returns_ifI returns_optionI returns_prodI returns_bindI [OF scan] returns_bind_any | (simp; fail))+
  then show ?case by (simp add: returns_simps)
qed

lemma first_block:
  assumes "page_ready c w s f page 0" and "reading s = None" and "cacheOffset s = 0" and "5 \<le> length page"
    and "ssi_text (w_dev w) None page = Some out" and "113 \<le> m"
    and "off + m \<le> length (sendBuffer (ctxResponse c))" and "WEB_ReadContent off (int m) c w = Some (n, c', w')"
  shows "n = 0 \<longleftrightarrow> prefix tagStart page"
proof -
  let ?r = "ctxResponse c" and ?d = "w_dev w"
  have pr: "requestMethod c = METHOD_GET \<or> requestMethod c = METHOD_POST" "as_ssi (appContext ?r) = Some s" "page_at s f page 0 (w_fs w)"
    "dwOperIndex ?r = 0" "dwTotal ?r = int (length page)" "0 < ssi s" "ssi_inv s" "ssi_fp s = Some f"
    using assms(1) by (simp_all add: page_ready_def page_at_def)
  have st: "ssiState s \<noteq> 2" using assms(2) by (auto simp: reading_def split: if_splits)
  have un: "unsent s page 0 = page" using assms(3) by (simp add: unsent_def)
  have len: "0 < length page" using assms(4) by linarith
  have "block_ok ?d off m page f out s (sendBuffer ?r) 0 0
      (ssi_loop ?d off (int m) s (sendBuffer ?r) 0 (int 0) (int (length page)) (w_fs w))"
    using assms(2,3,5-7) un len pr(3) st by (intro ssi_loop_spec) simp_all
  then obtain s' sb' and b :: string and j fs' where "ssi_loop ?d off (int m) s (sendBuffer ?r) 0 (int 0) (int (length page)) (w_fs w) =
      Some (True, s', sb', 0 + length b, int j, fs')" unfolding block_ok_def by blast
  then have l: "ssi_loop ?d off (int m) s (sendBuffer ?r) 0 0 (int (length page)) (w_fs w) = Some (True, s', sb', length b, int j, fs')"
    by simp
  have n: "n = int (length b)" using assms(8) pr len by (auto simp: WEB_ReadContent_def Let_def l)
  define k where "k = min (length page) 64"
  obtain fs1 where rd: "WEB_fread (Some f) k (w_fs w) = Some (Some (take k page), fs1)"
    "c_cpy (cache s) 0 (take k page) = Some (take k page @ drop k (cache s))"
    using read_step [OF pr(3) len] assms(3) by (auto simp: k_def)
  define s1 where "s1 = s\<lparr>cache := take k page @ drop k (cache s), cacheOffset := length (take k page)\<rparr>"
  have lk: "length (take k page) = k" "5 \<le> k" "k \<le> 64" using assms(4) by (simp_all add: k_def)
  have s1: "ssi_inv s1" "cacheOffset s1 = k" "ssiState s1 \<noteq> 2" "reading s1 = None"
    using pr(7) lk st by (auto simp: s1_def ssi_inv_def reading_def)
  have cr: "cache_rest s1 0 @ drop k page = page" using lk by (simp add: cache_rest_def s1_def)
  have sp: "scan_pre ?d off m (drop k page) s1 (sendBuffer ?r) 0 0 out"
    using s1 cr assms(5-7) by (simp add: scan_pre_def)
  have pre: "prefix tagStart (cache_rest s1 0) \<longleftrightarrow> prefix tagStart page"
  proof -
    have p: "prefix tagStart xs \<longleftrightarrow> take 5 xs = tagStart" for xs :: string
      by (auto simp: tagStart_def prefix_def) (metis append_Cons append_Nil append_take_drop_id)
    have "take 5 (cache_rest s1 0 @ drop k page) = take 5 (cache_rest s1 0)"
      using lk(2) s1(2) cache_rest_length [OF s1(1), of 0] by simp
    then show ?thesis unfolding p cr by simp
  qed
  have "\<exists>s2 sb2 n2 c2 flush. ssi_scan ?d off (int m) s1 (sendBuffer ?r) 0 0 = Some (s2, sb2, n2, c2, flush) \<and>
      (if prefix tagStart page then n2 = 0 \<and> flush else 0 < n2)"
  proof (cases "prefix tagStart page")
    case False
    then show ?thesis using scan_first [OF sp] s1(2,3) lk(2) cr by (simp; blast)
  next
    case True
    then obtain q where "cache_rest s1 0 = [] @ tagStart @ q" using pre by (auto simp: prefix_def)
    from scan_to_tag [OF this _ s1(3,1), of 0 m off "sendBuffer ?r" ?d] assms(6,7) True show ?thesis by simp blast
  qed
  then obtain s2 sb2 n2 c2 flush where
    sc: "ssi_scan ?d off (int m) s1 (sendBuffer ?r) 0 0 = Some (s2, sb2, n2, c2, flush)"
      "if prefix tagStart page then n2 = 0 \<and> flush else 0 < n2" by blast
  have i2: "ssi_inv s2" "c2 \<le> cacheOffset s2"
    using ssi_scan_spec [OF sp] unfolding sc(1) scan_ok_def by auto
  obtain ca where ca: "(if 0 < cacheOffset s2 - c2 then c_memmove (cache s2) 0 c2 (cacheOffset s2 - c2) else Some (cache s2)) = Some ca"
    using shift_cache [OF i2] by blast
  have "ssi_loop ?d off (int m) s (sendBuffer ?r) 0 0 (int (length page)) (w_fs w) =
    (let s3 = s2\<lparr>cache := ca, cacheOffset := cacheOffset s2 - c2\<rparr>; next = 0 + int (length (take k page)) in
     if flush then Some (True, s3, sb2, n2, next, fs1) else ssi_loop ?d off (int m) s3 sb2 n2 next (int (length page)) fs1)"
  proof (rule ssi_loop_round [OF _ _ _ pr(8) _ _ _ ca])
    show "WEB_fread (Some f) (nat (min (int (length page) - 0) (64 - int (cacheOffset s)))) (w_fs w) = Some (Some (take k page), fs1)"
      using rd(1) by (simp add: assms(3) k_def min_def split: if_splits)
    show "c_cpy (cache s) (cacheOffset s) (take k page) = Some (take k page @ drop k (cache s))" using rd(2) assms(3) by simp
    show "ssi_scan ?d off (int m) (s\<lparr>cache := take k page @ drop k (cache s), cacheOffset := cacheOffset s + length (take k page)\<rparr>)
        (sendBuffer ?r) 0 0 = Some (s2, sb2, n2, c2, flush)"
      using sc(1) assms(3) by (simp add: s1_def)
  qed (use len assms(3) in simp_all)
  then have "n2 \<le> length b" "flush \<longrightarrow> n2 = length b"
    using l by (auto simp: Let_def split: if_splits dest!: ssi_loop_grows [OF sym])
  then show ?thesis using n sc(2) by (auto split: if_splits)
qed

text \<open>
  A page with tags: \<open>rest\<close> is the text of what is not sent yet. The page must be as long as a tag start; when it
  begins with one (\<open>\<not> p\<close>), its first block is empty.
\<close>

definition page_src :: "bool \<Rightarrow> REQUEST_CONTEXT \<Rightarrow> world \<Rightarrow> nat \<Rightarrow> string \<Rightarrow> bool" where
  "page_src p c w n rest \<longleftrightarrow> (\<exists>s f page i. page_ready c w s f page i \<and> ssi_text (w_dev w) (reading s) (unsent s page i) = Some rest \<and>
     (i = length page \<longrightarrow> 0 < cacheOffset s) \<and> rest_calls s page i \<le> n \<and> unat (dwOperStage (ctxResponse c)) + n < 2 ^ 32 - 1 \<and>
     (fresh_body c \<longrightarrow> i = 0 \<and> reading s = None \<and> cacheOffset s = 0 \<and> 5 \<le> length page \<and> prefix tagStart page = (\<not> p)))"

lemma page_src_live: "page_src p c w n rest \<Longrightarrow> 0 < n \<and> \<not> at_end c"
  by (auto simp: page_src_def at_end_def STAGE_END_def rest_calls_def split: if_splits)

lemma page_ready_cong:
  "page_ready c w s f page i \<Longrightarrow> source_part c' = source_part c \<Longrightarrow> same_site w w' \<Longrightarrow> page_ready c' w' s f page i"
  by (simp add: page_ready_def source_part_def same_site_def)

lemma page_src_cong: "page_src p c w n rest \<Longrightarrow> source_part c' = source_part c \<Longrightarrow> same_site w w' \<Longrightarrow> page_src p c' w' n rest"
  unfolding page_src_def
  by (elim exE, intro exI) (auto intro: page_ready_cong simp: same_site_def source_part_def fresh_body_def)

lemma unsent_empty: "page_ready c w s f page i \<Longrightarrow> unsent s page i = [] \<longleftrightarrow> i = length page \<and> cacheOffset s = 0"
  by (auto simp: page_ready_def page_at_def ssi_inv_def unsent_def)

lemma page_rd_law:
  assumes "page_src p c w n rest" and "113 \<le> m" and "off + m \<le> length (sendBuffer (ctxResponse c))"
  shows "\<exists>b c' w' rest'. WEB_ReadContent off (int m) c w = Some (int (length b), c', w') \<and> rest = b @ rest' \<and> length b \<le> m \<and>
    take (off + length b) (sendBuffer (ctxResponse c')) = take off (sendBuffer (ctxResponse c)) @ b \<and>
    same_conn c c' \<and> bytesLeft (ctxResponse c') = bytesLeft (ctxResponse c) \<and>
    total2Send (ctxResponse c') = total2Send (ctxResponse c) \<and> same_transport w w' \<and> \<not> fresh_body c' \<and> (fresh_body c \<longrightarrow> (b \<noteq> []) = p) \<and>
    goes_on (page_src p) c' w' n rest' \<and> (at_end c' \<longrightarrow> b \<noteq> [])"
proof -
  obtain s f page i where s: "page_ready c w s f page i" "ssi_text (w_dev w) (reading s) (unsent s page i) = Some rest"
    "i = length page \<longrightarrow> 0 < cacheOffset s" "rest_calls s page i \<le> n" "unat (dwOperStage (ctxResponse c)) + n < 2 ^ 32 - 1"
    "fresh_body c \<longrightarrow> i = 0 \<and> reading s = None \<and> cacheOffset s = 0 \<and> 5 \<le> length page \<and> prefix tagStart page = (\<not> p)"
    using assms(1) unfolding page_src_def by blast
  have i: "i \<le> length page" using s(1) by (simp add: page_ready_def page_at_def)
  have n: "0 < n" using page_src_live [OF assms(1)] by simp
  have some: "rest \<noteq> []" using ssi_text_nonempty [OF s(2)] unsent_empty [OF s(1)] s(3) by auto
  have u: "unat (dwOperStage (ctxResponse c) + 1) = unat (dwOperStage (ctxResponse c)) + 1" using s(5) n by (simp add: unat_word_ariths)
  have one: "dwOperStage (ctxResponse c) + 1 \<noteq> 0" "dwOperStage (ctxResponse c) + 1 \<noteq> STAGE_END"
    using u s(5) n by (auto simp: STAGE_END_def dest: arg_cong [where f = unat])
  show ?thesis
  proof (cases "i = length page")
    case True
    have "off + 64 \<le> length (sendBuffer (ctxResponse c))" using assms(2,3) by simp
    from page_end [of c w s f page off rest "int m"] s(1-3) True this obtain c' where e:
      "WEB_ReadContent off (int m) c w = Some (int (length rest), c', w)" "dwOperStage (ctxResponse c') = STAGE_END" "same_conn c c'"
      "bytesLeft (ctxResponse c') = bytesLeft (ctxResponse c)" "total2Send (ctxResponse c') = total2Send (ctxResponse c)"
      "sendBuffer (ctxResponse c') = take off (sendBuffer (ctxResponse c)) @ rest @ drop (off + length rest) (sendBuffer (ctxResponse c))"
      by auto
    have "length (unsent s page i) < 64" using s(1) True by (simp add: unsent_def page_ready_def page_at_def ssi_inv_def)
    then have "length rest < 64" using ssi_text_end(2) [OF s(2)] by simp
    moreover have "take (off + length rest) (sendBuffer (ctxResponse c')) = take off (sendBuffer (ctxResponse c)) @ rest"
      using e(6) assms(2,3) by simp
    moreover have "\<not> fresh_body c" "\<not> fresh_body c'" using s(6) True e(2) by (auto simp: fresh_body_def STAGE_END_def)
    ultimately show ?thesis using e(1-5) some assms(2)
      by (intro exI [of _ rest] exI [of _ c'] exI [of _ w] exI [of _ "[]"]) (simp add: goes_on_def at_end_def same_transport_def)
  next
    case False
    then have lt: "i < length page" using i by simp
    from page_block [OF s(1) lt s(2) assms(2,3)] obtain b c' w' s' j out' where e:
      "WEB_ReadContent off (int m) c w = Some (int (length b), c', w')" "rest = b @ out'"
      "sendBuffer (ctxResponse c') = take off (sendBuffer (ctxResponse c)) @ b @ drop (off + length b) (sendBuffer (ctxResponse c))"
      "length b \<le> m" "page_ready c' w' s' f page j" "w_dev w' = w_dev w" "same_conn c c'"
      "bytesLeft (ctxResponse c') = bytesLeft (ctxResponse c)" "total2Send (ctxResponse c') = total2Send (ctxResponse c)"
      "same_transport w w'" "ssi_text (w_dev w) (reading s') (unsent s' page j) = Some out'"
      "j = length page \<or> length (unsent s' page j) < length (unsent s page i)"
      "dwOperStage (ctxResponse c') = (if j = length page \<and> cacheOffset s' = 0 then STAGE_END else dwOperStage (ctxResponse c) + 1)"
      by blast
    have end': "at_end c' \<longleftrightarrow> j = length page \<and> cacheOffset s' = 0" using e(13) one by (simp add: at_end_def)
    have nf: "\<not> fresh_body c'" using e(13) one by (simp add: fresh_body_def STAGE_END_def)
    have fb: "(b \<noteq> []) = p" if "fresh_body c"
      using first_block [of c w s f page rest m off "int (length b)" c' w'] s(1,2,6) that e(1) assms(2,3) by (auto simp: unsent_def)
    have go: "goes_on (page_src p) c' w' n out'"
    proof (cases "at_end c'")
      case True
      then have "unsent s' page j = []" using end' unsent_empty [OF e(5)] by simp
      then show ?thesis using True ssi_text_end(2) [OF e(11)] by (simp add: goes_on_def)
    next
      case more: False
      have "rest_calls s' page j \<le> n - 1" using e(12) s(4) False by (auto simp: rest_calls_def split: if_splits)
      then have "page_src p c' w' (n - 1) out'"
        unfolding page_src_def using e(5,6,11,13) more end' nf s(5) u n
        by (intro exI [of _ s'] exI [of _ f] exI [of _ page] exI [of _ j]) auto
      then show ?thesis using more n by (auto simp: goes_on_def intro!: exI [of _ "n - 1"])
    qed
    have "at_end c' \<longrightarrow> b \<noteq> []"
    proof
      assume a: "at_end c'"
      then have "out' = []" using go by (simp add: goes_on_def)
      then show "b \<noteq> []" using some e(2) by simp
    qed
    moreover have "take (off + length b) (sendBuffer (ctxResponse c')) = take off (sendBuffer (ctxResponse c)) @ b"
      using e(3,4) assms(3) by simp
    ultimately show ?thesis using e(1,2,4,7-10) nf fb go
      by (intro exI [of _ b] exI [of _ c'] exI [of _ w'] exI [of _ out']) simp
  qed
qed

interpretation app_page: body_source g_cgiWebApp WEB_ReadContent "page_src p" 113 p for p
  using page_src_live page_src_cong page_rd_law by unfold_locales (simp_all add: ReadContent_def)

interpretation form_page: body_source g_cgiForm WEB_ReadContent "page_src p" 113 p for p
  using page_src_live page_src_cong page_rd_law by unfold_locales (simp_all add: ReadContent_def)

section \<open>The device description as a body\<close>

lemma c_strcpy_keeps: "c_strcpy b i s = Some b' \<Longrightarrow> k \<le> i \<Longrightarrow> take k b' = take k b"
  by (auto simp: c_strcpy_def c_cpy_def split: if_splits)

lemma ssdp_stages_keeps:
  "ssdp_stages base m xs sb off stage = Some (ok, sb', n, st) \<Longrightarrow> length sb' = length sb \<and> take base sb' = take base sb"
  by (induction xs arbitrary: sb off stage)
    (auto simp: bind_eq_Some_conv c_strcpy_keeps split: if_splits dest: cbuf_len)

lemma SSDP_Sending_frame:
  assumes "SSDP_Sending base m c w = Some (n, c', w')" and "requestMethod c = METHOD_GET" and "\<not> at_end c"
  shows "0 \<le> n \<and> w' = w \<and> same_conn c c' \<and> bytesLeft (ctxResponse c') = bytesLeft (ctxResponse c) \<and>
    total2Send (ctxResponse c') = total2Send (ctxResponse c) \<and> dwOperIndex (ctxResponse c') = dwOperIndex (ctxResponse c) \<and>
    take base (sendBuffer (ctxResponse c')) = take base (sendBuffer (ctxResponse c))"
proof -
  obtain sb complete sb' k stage where e: "c_wr (sendBuffer (ctxResponse c)) base NUL = Some sb"
    "ssdp_stages base m (drop (unat (dwOperStage (ctxResponse c))) (ssdp_pieces (w_dev w))) sb 0 (dwOperStage (ctxResponse c)) =
       Some (complete, sb', k, stage)" "n = int k" "w' = w"
    "c' = upd_rsp (\<lambda>r. r\<lparr>sendBuffer := sb', dwOperStage := (if complete then STAGE_END else stage)\<rparr>)
       (upd_rsp (\<lambda>r. r\<lparr>sendBuffer := sb\<rparr>) c)"
  proof (cases "c_wr (sendBuffer (ctxResponse c)) base NUL")
    case None
    then show ?thesis using assms by (simp add: SSDP_Sending_def)
  next
    case (Some sb)
    with assms have s: "dwOperStage (ctxResponse (upd_rsp (\<lambda>r. r\<lparr>sendBuffer := sb\<rparr>) c)) = dwOperStage (ctxResponse c)"
      "dwOperStage (ctxResponse c) \<noteq> STAGE_END" by (simp_all add: upd_rsp_def at_end_def)
    from assms(1,2) that [OF Some] show ?thesis
      unfolding SSDP_Sending_def Some Option.bind.bind_lunit Let_def s(1) by (auto simp: s(2) bind_eq_Some_conv)
  qed
  have "length sb = length (sendBuffer (ctxResponse c))" "take base sb = take base (sendBuffer (ctxResponse c))"
    using e(1) by (auto simp: c_wr_def split: if_splits)
  then show ?thesis using ssdp_stages_keeps [OF e(2)] e(3-5) by (simp add: same_conn_def upd_rsp_def)
qed

lemma ssdp_pieces_nonempty: "x \<in> set (ssdp_pieces d) \<Longrightarrow> x \<noteq> []"
  by (auto simp: ssdp_pieces_def Let_def)

definition xml_src :: "REQUEST_CONTEXT \<Rightarrow> world \<Rightarrow> nat \<Rightarrow> string \<Rightarrow> bool" where
  "xml_src c w n rest \<longleftrightarrow> requestMethod c = METHOD_GET \<and> (\<exists>k < 17. dwOperStage (ctxResponse c) = of_nat k \<and>
     rest = concat (drop k (ssdp_pieces (w_dev w))) \<and> 17 \<le> n + k)"

lemma small_stage: "k \<le> 17 \<Longrightarrow> (of_nat k :: u32) \<noteq> STAGE_END" "0 < k \<Longrightarrow> k \<le> 17 \<Longrightarrow> (of_nat k :: u32) \<noteq> 0"
  by (auto simp: STAGE_END_def unsigned_of_nat take_bit_nat_eq_self word_unat_eq_iff)

lemma xml_src_live: "xml_src c w n rest \<Longrightarrow> 0 < n \<and> \<not> at_end c"
  by (auto simp: xml_src_def at_end_def dest: small_stage(1) [OF less_imp_le])

lemma xml_src_cong: "xml_src c w n rest \<Longrightarrow> source_part c' = source_part c \<Longrightarrow> same_site w w' \<Longrightarrow> xml_src c' w' n rest"
  by (simp add: xml_src_def source_part_def same_site_def)

lemma xml_rd_law:
  assumes "xml_src c w n rest" and "128 \<le> m" and "off + m \<le> length (sendBuffer (ctxResponse c))"
  shows "\<exists>b c' w' rest'. SSDP_Sending off (int m) c w = Some (int (length b), c', w') \<and> rest = b @ rest' \<and> length b \<le> m \<and>
    take (off + length b) (sendBuffer (ctxResponse c')) = take off (sendBuffer (ctxResponse c)) @ b \<and>
    same_conn c c' \<and> bytesLeft (ctxResponse c') = bytesLeft (ctxResponse c) \<and>
    total2Send (ctxResponse c') = total2Send (ctxResponse c) \<and> same_transport w w' \<and> \<not> fresh_body c' \<and> (fresh_body c \<longrightarrow> b \<noteq> []) \<and>
    goes_on xml_src c' w' n rest' \<and> (at_end c' \<longrightarrow> b \<noteq> [])"
proof -
  obtain k where k: "requestMethod c = METHOD_GET" "k < 17" "dwOperStage (ctxResponse c) = of_nat k"
    "rest = concat (drop k (ssdp_pieces (w_dev w)))" "17 \<le> n + k" using assms(1) by (auto simp: xml_src_def)
  have "int off + int m \<le> int (length (sendBuffer (ctxResponse c)))" "128 \<le> int m" using assms(2,3) by linarith+
  from SSDP_Sending_block [OF k(1,3,2) this, of w] obtain i c' j where e: "SSDP_Sending off (int m) c w = Some (i, c', w)" "k < j" "j \<le> 17"
    "0 \<le> i" "i \<le> int m" "off + nat i \<le> length (sendBuffer (ctxResponse c'))"
    "take (nat i) (drop off (sendBuffer (ctxResponse c'))) @ concat (drop j (ssdp_pieces (w_dev w))) = rest"
    "dwOperStage (ctxResponse c') = (if j = 17 then STAGE_END else of_nat j)" "requestMethod c' = METHOD_GET"
    "length (sendBuffer (ctxResponse c')) = length (sendBuffer (ctxResponse c))" unfolding k(4) by blast
  have "\<not> at_end c" using small_stage(1) k(2,3) by (simp add: at_end_def)
  note f = SSDP_Sending_frame [OF e(1) k(1) this]
  define b where "b = take (nat i) (drop off (sendBuffer (ctxResponse c')))"
  have b: "length b = nat i" "int (length b) = i" using e(4,6) by (simp_all add: b_def)
  let ?P = "ssdp_pieces (w_dev w)"
  have "drop k ?P = ?P ! k # drop (Suc k) ?P" using k(2) ssdp_pieces_ok(2) [of "w_dev w"] by (simp add: Cons_nth_drop_Suc)
  moreover have "drop (Suc k) ?P = take (j - Suc k) (drop (Suc k) ?P) @ drop j ?P"
    using e(2) append_take_drop_id [of "j - Suc k" "drop (Suc k) ?P"] by simp
  ultimately have "b @ concat (drop j ?P) = (?P ! k @ concat (take (j - Suc k) (drop (Suc k) ?P))) @ concat (drop j ?P)"
    using e(7) k(4) by (metis append.assoc b_def concat.simps(2) concat_append)
  then have "b = ?P ! k @ concat (take (j - Suc k) (drop (Suc k) ?P))" by (simp only: append_same_eq)
  then have some: "b \<noteq> []" using ssdp_pieces_nonempty [of "?P ! k" "w_dev w"] k(2) ssdp_pieces_ok(2) [of "w_dev w"] by auto
  have "take (off + length b) (sendBuffer (ctxResponse c')) = take off (sendBuffer (ctxResponse c)) @ b"
    using f b(1) by (simp add: take_add b_def)
  moreover have "\<not> fresh_body c'" using small_stage(2) [of j] e(2,3,8) by (auto simp: fresh_body_def STAGE_END_def)
  moreover have "goes_on xml_src c' w n (concat (drop j ?P))"
  proof (cases "j = 17")
    case True
    then show ?thesis using e(8) ssdp_pieces_ok(2) [of "w_dev w"] by (simp add: goes_on_def at_end_def)
  next
    case False
    then have "xml_src c' w (n - (j - k)) (concat (drop j ?P))"
      unfolding xml_src_def using e(2,3,8,9) k(5) by (intro conjI exI [of _ j]) auto
    moreover have "n - (j - k) < n" using e(2) k(2,5) by arith
    moreover have "\<not> at_end c'" using e(3,8) False small_stage(1) by (simp add: at_end_def)
    ultimately show ?thesis by (auto simp: goes_on_def)
  qed
  ultimately show ?thesis using e(1,5,7) f b some
    by (intro exI [of _ b] exI [of _ c'] exI [of _ w] exI [of _ "concat (drop j ?P)"]) (simp add: b_def [symmetric] same_transport_def)
qed

interpretation description: body_source g_cgiSSDP SSDP_Sending xml_src 128 True
  using xml_src_live xml_src_cong xml_rd_law by unfold_locales (simp_all add: ReadContent_def)

end
