(* ===== verification/Wire.thy ===== *)
theory Wire
  imports Bodies
begin

text \<open>
  Whole responses: the header that the first call of the engine sends, and behind it the body, from the complete request to
  the last byte on the wire.
\<close>

section \<open>Headers\<close>

lemma strcat_str:
  assumes "c_str b 0 = Some s" and "NUL \<notin> set t" and "length s + length t < length b"
  shows "\<exists>b'. c_strcat b t = Some b' \<and> c_str b' 0 = Some (s @ t) \<and> length b' = length b"
  using c_strcpy_append [of b 0 s t] assms by (simp add: c_strcat_def)

lemma strcpy_str:
  assumes "NUL \<notin> set t" and "length t < length b"
  shows "\<exists>b'. c_strcpy b 0 t = Some b' \<and> c_str b' 0 = Some t \<and> length b' = length b"
  using assms by (auto simp: c_strcpy_def c_cpy_def c_str_app)

lemma gmt4http_text:
  assumes "t < 32503680000"
  shows "length (gmt4http t) = 29 \<and> NUL \<notin> set (gmt4http t)"
proof -
  obtain n m d where g: "gmtime t = \<lparr>tm_sec = int (t mod 86400 mod 60), tm_min = int (t mod 86400 div 60 mod 60),
      tm_hour = int (t mod 86400 div 3600), tm_mday = int d + 1, tm_mon = int m, tm_year = int (70 + n),
      tm_wday = int ((4 + t div 86400) mod 7)\<rparr>" and b: "m < 12" "d < 31" "n \<le> 1030"
    using assms by (rule gmtime_fields)
  have small: "t mod 86400 mod 60 < 60" "t mod 86400 div 60 mod 60 < 60" "t mod 86400 div 3600 < 24"
    by (simp_all add: less_mult_imp_div_less)
  have s: "gmt4http t = wday_name ! ((4 + t div 86400) mod 7) @ '', '' @ two_digits (int (Suc d)) @ '' '' @ mon_name ! m @ '' '' @
      fmt_u (1970 + n) @ '' '' @ two_digits (int (t mod 86400 div 3600)) @ '':'' @ two_digits (int (t mod 86400 div 60 mod 60)) @ '':'' @
      two_digits (int (t mod 86400 mod 60)) @ '' GMT''"
    by (simp add: gmt4http_def g fmt_d_def add.commute nat_add_distrib)
  have "length (gmt4http t) = 29" using b small
    by (simp add: s length_names length_two_digits length_fmt_u_4 del: of_nat_Suc)
  moreover have "NUL \<notin> set (gmt4http t)"
    using b by (simp add: s NUL_notin_names two_digits_nat NUL_notin_fmt_nat fmt_u_def del: of_nat_Suc)
  ultimately show ?thesis ..
qed

text \<open>The lines that every header ends with.\<close>

definition head_end :: "world \<Rightarrow> string" where
  "head_end w = ''Date: '' @ gmt4http (w_time w) @ CRLF @ ''Server: '' @ SERVER_HEADER @ CRLF @ CRLF"

lemma date_line:
  assumes "w_time w < 32503680000"
  shows "\<exists>date b2 b3. c_strncpy (replicate 40 NUL) 0 ''Date: '' 10 = Some date \<and> getClock w 32 = Some (gmt4http (w_time w)) \<and>
     c_strcpy date 6 (gmt4http (w_time w)) = Some b2 \<and> c_strcat b2 CRLF = Some b3 \<and> c_str b3 0 = Some (''Date: '' @ gmt4http (w_time w) @ CRLF)"
proof -
  note g = gmt4http_text [OF assms]
  have "c_strncpy (replicate 40 NUL) 0 ''Date: '' 10 = Some (''Date: '' @ replicate 34 NUL)" by code_simp
  moreover have "c_str (''Date: '' @ replicate 34 NUL) 0 = Some ''Date: ''" by code_simp
  ultimately obtain d where d: "c_strncpy (replicate 40 NUL) 0 ''Date: '' 10 = Some d" "c_str d 0 = Some ''Date: ''" "length d = 40" by auto
  obtain b2 where b2: "c_strcpy d 6 (gmt4http (w_time w)) = Some b2" "c_str b2 0 = Some (''Date: '' @ gmt4http (w_time w))" "length b2 = 40"
    using c_strcpy_append [OF d(2), of "gmt4http (w_time w)"] d(3) g by (auto simp: eval_nat_numeral)
  obtain b3 where "c_strcat b2 CRLF = Some b3" "c_str b3 0 = Some ((''Date: '' @ gmt4http (w_time w)) @ CRLF)"
    using strcat_str [OF b2(2), of CRLF] b2(3) g by auto
  with d(1) b2(1) show ?thesis using g by (intro exI conjI) (auto simp: getClock_def)
qed

lemma response_head:
  assumes "result c \<noteq> CODE_REDIRECT" and "handler c = Some h" and "SetResponseHeaders h = Some f"
    and "c_str (responsePath c) 0 = Some rp" and "0 < length (sendBuffer (ctxResponse c))"
    and "f info (upd_rsp (\<lambda>r. r\<lparr>sendBuffer := (sendBuffer r)[0 := NUL]\<rparr>) c) w = Some (upd_rsp (\<lambda>r. r\<lparr>sendBuffer := sb\<rparr>) c, w)"
    and "c_str sb 0 = Some hd0" and "hd0 \<noteq> []" and "length hd0 + 65 < length sb" and "w_time w < 32503680000"
  shows "\<exists>sb'. CGI_SetResponseHeaders info c w =
      Some (upd_rsp (\<lambda>r. r\<lparr>sendBuffer := sb', bytesLeft := int (length (hd0 @ head_end w))\<rparr>) c, w) \<and>
    c_str sb' 0 = Some (hd0 @ head_end w) \<and> length sb' = length sb"
proof -
  note g = gmt4http_text [OF assms(10)]
  obtain date b2 b3 where d: "c_strncpy (replicate 40 NUL) 0 ''Date: '' 10 = Some date" "getClock w 32 = Some (gmt4http (w_time w))"
    "c_strcpy date 6 (gmt4http (w_time w)) = Some b2" "c_strcat b2 CRLF = Some b3" "c_str b3 0 = Some (''Date: '' @ gmt4http (w_time w) @ CRLF)"
    using date_line [OF assms(10)] by blast
  obtain x hd1 where hd: "hd0 = x # hd1" using assms(8) by (cases hd0) auto
  have x: "x \<noteq> NUL" "c_rd sb 0 = Some x" using c_str_Some_no_NUL [OF assms(7)] assms(7) hd by (auto intro: c_str_rd)
  obtain s1 where s1: "c_strcat sb (''Date: '' @ gmt4http (w_time w) @ CRLF) = Some s1"
    "c_str s1 0 = Some (hd0 @ ''Date: '' @ gmt4http (w_time w) @ CRLF)" "length s1 = length sb"
    using strcat_str [OF assms(7), of "''Date: '' @ gmt4http (w_time w) @ CRLF"] assms(9) g by auto
  obtain s2 where s2: "c_strcat s1 ''Server: '' = Some s2" "c_str s2 0 = Some ((hd0 @ ''Date: '' @ gmt4http (w_time w) @ CRLF) @ ''Server: '')"
    "length s2 = length sb"
    using strcat_str [OF s1(2), of "''Server: ''"] s1(3) assms(9) g by auto
  obtain s3 where s3: "c_strcat s2 SERVER_HEADER = Some s3"
    "c_str s3 0 = Some (((hd0 @ ''Date: '' @ gmt4http (w_time w) @ CRLF) @ ''Server: '') @ SERVER_HEADER)" "length s3 = length sb"
    using strcat_str [OF s2(2), of SERVER_HEADER] s2(3) assms(9) g by (auto simp: SERVER_HEADER_def)
  obtain s4 where s4: "c_strcat s3 CRLF = Some s4"
    "c_str s4 0 = Some ((((hd0 @ ''Date: '' @ gmt4http (w_time w) @ CRLF) @ ''Server: '') @ SERVER_HEADER) @ CRLF)" "length s4 = length sb"
    using strcat_str [OF s3(2), of CRLF] s3(3) assms(9) g by (auto simp: SERVER_HEADER_def)
  obtain s5 where s5: "c_strcat s4 CRLF = Some s5"
    "c_str s5 0 = Some (((((hd0 @ ''Date: '' @ gmt4http (w_time w) @ CRLF) @ ''Server: '') @ SERVER_HEADER) @ CRLF) @ CRLF)" "length s5 = length sb"
    using strcat_str [OF s4(2), of CRLF] s4(3) assms(9) g by (auto simp: SERVER_HEADER_def)
  have e: "((((hd0 @ ''Date: '' @ gmt4http (w_time w) @ CRLF) @ ''Server: '') @ SERVER_HEADER) @ CRLF) @ CRLF = hd0 @ head_end w"
    by (simp add: head_end_def)
  have w0: "c_wr (sendBuffer (ctxResponse c)) 0 NUL = Some ((sendBuffer (ctxResponse c))[0 := NUL])" using assms(5) by (simp add: c_wr_def)
  have c0: "upd_rsp (\<lambda>r. r\<lparr>sendBuffer := (sendBuffer (ctxResponse c))[0 := NUL]\<rparr>) c = upd_rsp (\<lambda>r. r\<lparr>sendBuffer := (sendBuffer r)[0 := NUL]\<rparr>) c"
    by (simp add: upd_rsp_def)
  have "CGI_SetResponseHeaders info c w = Some (upd_rsp (\<lambda>r. r\<lparr>sendBuffer := s5, bytesLeft := int (length (hd0 @ head_end w))\<rparr>) c, w)"
    unfolding CGI_SetResponseHeaders_def w0 Option.bind.bind_lunit assms(4) if_not_P [OF assms(1)] Let_def c0
    using assms(1-6) x d s1(1) s2(1) s3(1) s4(1) s5(1,2) by (simp add: upd_rsp_def e [symmetric])
  then show ?thesis using s5(2,3) e by (intro exI [of _ s5]) simp
qed

text \<open>The header lines of \<open>WEB_AppendHeaders\<close> for a whole file.\<close>

definition web_header :: "string \<Rightarrow> bool \<Rightarrow> bool \<Rightarrow> string \<Rightarrow> int \<Rightarrow> int \<Rightarrow> string \<Rightarrow> string" where
  "web_header info chunks gz ctype tot tags lm =
     (let t = (if chunks then header_chunked info ctype [] CONNECTION_HEADER else header_generic info ctype tot CONNECTION_HEADER) @
          (if gz then header_gzip else []) @ (if lm \<noteq> [] then lm else header_nocache)
      in t @ (if tags = 0 \<and> c_strstr t ''no-cache'' = None then ''Cache-Control: max-age=3600'' @ CRLF else []))"

lemma fmt_d_text: "0 \<le> i \<Longrightarrow> i < 2 ^ 31 \<Longrightarrow> length (fmt_d i) \<le> 10 \<and> NUL \<notin> set (fmt_d i)"
  using length_fmt_u_le [of "nat i" 10] by (simp add: fmt_d_def fmt_u_def NUL_notin_fmt_nat)

lemma content_type_text: "t \<in> snd ` set contentTypes \<Longrightarrow> length t \<le> 40 \<and> NUL \<notin> set t"
  by (auto simp: contentTypes_def)

lemma web_head:
  assumes "as_ssi (appContext (ctxResponse c)) = Some s" and "c_str (sendBuffer (ctxResponse c)) 0 = Some []"
    and "c_str (extension c) 0 = Some ext" and "c_str (lastModified s) 0 = Some lm" and "length lm < 64"
    and "rangeTo c \<le> rangeFrom c" and "handler c \<noteq> None"
    and "0 \<le> dwTotal (ctxResponse c)" and "dwTotal (ctxResponse c) < 2 ^ 31"
    and "length (sendBuffer (ctxResponse c)) = 1600" and "length info < 100" and "NUL \<notin> set info"
  shows "\<exists>sb ctype. GetContentType ext = Some ctype \<and> WEB_AppendHeaders info c w = Some (upd_rsp (\<lambda>r. r\<lparr>sendBuffer := sb\<rparr>) c, w) \<and>
    c_str sb 0 = Some (web_header info (0 < ssi s \<or> framed c) (opt_set (options c) CGI_OPT_GZIP) ctype (dwTotal (ctxResponse c)) (ssi s) lm) \<and> length sb = 1600 \<and>
    length (web_header info (0 < ssi s \<or> framed c) (opt_set (options c) CGI_OPT_GZIP) ctype (dwTotal (ctxResponse c)) (ssi s) lm) < 1000 \<and>
    web_header info (0 < ssi s \<or> framed c) (opt_set (options c) CGI_OPT_GZIP) ctype (dwTotal (ctxResponse c)) (ssi s) lm \<noteq> []"
proof -
  obtain ctype where ct: "GetContentType ext = Some ctype" "length ctype \<le> 40" "NUL \<notin> set ctype"
    using GetContentType_total [of ext] content_type_text by blast
  note fd = fmt_d_text [OF assms(8,9)]
  define hd where "hd = (if 0 < ssi s \<or> framed c then header_chunked info ctype [] CONNECTION_HEADER
    else header_generic info ctype (dwTotal (ctxResponse c)) CONNECTION_HEADER)"
  define lm' where "lm' = (if lm \<noteq> [] then lm else header_nocache)"
  have hd: "NUL \<notin> set hd" "length hd < 400"
    using ct(2,3) fd assms(11,12) by (simp_all add: hd_def header_chunked_def header_generic_def CONNECTION_HEADER_def)
  have hd0: "hd \<noteq> []" by (simp add: hd_def header_chunked_def header_generic_def)
  have lm': "NUL \<notin> set lm'" "length lm' < 200"
    using assms(5) c_str_Some_no_NUL [OF assms(4)] by (simp_all add: lm'_def header_nocache_def)
  obtain s1 where s1: "c_strcpy (sendBuffer (ctxResponse c)) 0 hd = Some s1" "c_str s1 0 = Some hd" "length s1 = 1600"
    using strcpy_str [OF hd(1), of "sendBuffer (ctxResponse c)"] hd(2) assms(10) by auto
  define gz where "gz = (if opt_set (options c) CGI_OPT_GZIP then header_gzip else [])"
  have gz: "NUL \<notin> set gz" "length gz < 40" by (simp_all add: gz_def header_gzip_def)
  obtain g1 where g1: "(if opt_set (options c) CGI_OPT_GZIP then c_strcat s1 header_gzip else Some s1) = Some g1"
    "c_str g1 0 = Some (hd @ gz)" "length g1 = 1600"
    using strcat_str [OF s1(2) gz(1)] hd(2) gz(2) s1(2,3) by (cases "opt_set (options c) CGI_OPT_GZIP") (auto simp: gz_def)
  obtain s2 where s2: "c_strcat g1 lm' = Some s2" "c_str s2 0 = Some (hd @ gz @ lm')" "length s2 = 1600"
    using strcat_str [OF g1(2) lm'(1)] hd(2) gz(2) lm'(2) g1(3) by auto
  define cc where "cc = (if ssi s = 0 \<and> c_strstr (hd @ gz @ lm') ''no-cache'' = None then ''Cache-Control: max-age=3600'' @ CRLF else [])"
  have cc: "NUL \<notin> set cc" "length cc < 40" by (simp_all add: cc_def)
  have wh: "web_header info (0 < ssi s \<or> framed c) (opt_set (options c) CGI_OPT_GZIP) ctype (dwTotal (ctxResponse c)) (ssi s) lm = (hd @ gz @ lm') @ cc"
    by (simp add: web_header_def Let_def hd_def gz_def lm'_def cc_def)
  obtain s3 where s3: "(if ssi s = 0 \<and> c_strstr (hd @ gz @ lm') ''no-cache'' = None then c_strcat s2 (''Cache-Control: max-age=3600'' @ CRLF)
      else Some s2) = Some s3" "c_str s3 0 = Some ((hd @ gz @ lm') @ cc)" "length s3 = 1600"
    using strcat_str [OF s2(2) cc(1)] hd(2) lm'(2) gz(2) cc(2) s2(2,3)
    by (cases "ssi s = 0 \<and> c_strstr (hd @ gz @ lm') ''no-cache'' = None") (auto simp: cc_def)
  have lmc: "(if lm \<noteq> [] then c_strcat g1 lm else c_strcat g1 header_nocache) = Some s2"
    using s2(1) by (cases "lm = []") (simp_all add: lm'_def)
  have ch: "(0 < ssi s \<or> (handler c \<noteq> None \<and> opt_set (options c) CGI_OPT_CHUNK_ENABLED)) = (0 < ssi s \<or> framed c)"
    using assms(7) by (simp add: framed_def)
  have "WEB_AppendHeaders info c w = Some (upd_rsp (\<lambda>r. r\<lparr>sendBuffer := s3\<rparr>) c, w)"
    unfolding WEB_AppendHeaders_def Let_def assms(1-4) ct(1) Option.bind.bind_lunit ch hd_def [symmetric]
    using assms(6) s1(1) g1(1) lmc s2(2) s3(1) by simp
  then show ?thesis using ct(1) s3(2,3) wh hd0 hd(2) gz(2) lm'(2) cc(2) by (intro exI [of _ s3] exI [of _ ctype]) simp
qed

section \<open>The first call\<close>

text \<open>A connection whose request is complete, before anything of the response is sent, and its state in front of the header.\<close>

definition answers :: "cgi_id \<Rightarrow> REQUEST_CONTEXT \<Rightarrow> world \<Rightarrow> bool" where
  "answers h c w \<longleftrightarrow> state c = HTTP_STATE_BODY_DONE \<and> result c = CODE_OK \<and> sending (ctxResponse c) = 0 \<and>
     bytesLeft (ctxResponse c) = 0 \<and> handler c = Some h \<and> length (sendBuffer (ctxResponse c)) = 1600 \<and>
     NUL \<in> set (responsePath c) \<and> ready w \<and> w_time w < 32503680000"

definition head_ctx :: "u64 \<Rightarrow> REQUEST_CONTEXT \<Rightarrow> REQUEST_CONTEXT" where
  "head_ctx t c = upd_rsp (\<lambda>r. r\<lparr>sendBuffer := (sendBuffer r)[0 := NUL]\<rparr>)
     (upd_rsp (\<lambda>r. r\<lparr>dwOperStage := 0, dwOperIndex := 0, rsp_tLastSent := t, sendMaxBlock := int MAX_SEND_BUF_SIZE\<rparr>) c)"

lemma c_str_take: "c_str b 0 = Some s \<Longrightarrow> take (length s) b = s"
  by (elim c_str_parts) auto

lemma header_sent:
  assumes a: "answers h c w" and f: "SetResponseHeaders h = Some f"
    and hd: "\<And>t w'. \<exists>sb. f ''200 OK'' (head_ctx t c) w' = Some (upd_rsp (\<lambda>r. r\<lparr>sendBuffer := sb\<rparr>) (head_ctx t c), w') \<and>
      c_str sb 0 = Some hd0 \<and> length sb = 1600" and hd0: "hd0 \<noteq> []" "length hd0 < 1000"
  shows "\<exists>c1 w1. HttpRequestProc caller c w = Some (c1, w1) \<and> serves h c1 w1 \<and> fresh_body c1 \<and> options c1 = options c \<and>
    pcb c1 = pcb c \<and> source_part c1 = source_part (head_ctx 0 c) \<and> same_site w w1 \<and>
    wire_bytes (pcb c) w1 = wire_bytes (pcb c) w @ hd0 @ head_end w"
proof -
  obtain t w0 where tw: "tick_stamp w = (t, w0)" by (cases "tick_stamp w")
  have w0: "same_site w w0" "ready w0" "w_time w0 = w_time w" "\<And>p. wire_bytes p w0 = wire_bytes p w"
    using tw a by (auto simp: tick_stamp_def LWIP_GetTickCount_def same_site_def ready_def wire_bytes_def answers_def Let_def)
  have he: "head_end w0 = head_end w" by (simp add: head_end_def w0(3))
  define c0 where "c0 = upd_rsp (\<lambda>r. r\<lparr>dwOperStage := 0, dwOperIndex := 0, rsp_tLastSent := t, sendMaxBlock := int MAX_SEND_BUF_SIZE\<rparr>) c"
  have c0h: "head_ctx t c = upd_rsp (\<lambda>r. r\<lparr>sendBuffer := (sendBuffer r)[0 := NUL]\<rparr>) c0" by (simp add: head_ctx_def c0_def)
  obtain sb where sb: "f ''200 OK'' (head_ctx t c) w0 = Some (upd_rsp (\<lambda>r. r\<lparr>sendBuffer := sb\<rparr>) (head_ctx t c), w0)"
    "c_str sb 0 = Some hd0" "length sb = 1600" using hd by blast
  have sb1: "upd_rsp (\<lambda>r. r\<lparr>sendBuffer := sb\<rparr>) (head_ctx t c) = upd_rsp (\<lambda>r. r\<lparr>sendBuffer := sb\<rparr>) c0" by (simp add: c0h upd_rsp_def)
  obtain rp where rp: "c_str (responsePath c0) 0 = Some rp" using a by (auto simp: answers_def c_str_def c0_def upd_rsp_def)
  have k: "result c0 = CODE_OK" "handler c0 = Some h" "0 < length (sendBuffer (ctxResponse c0))" "w_time w0 < 32503680000"
    using a w0(3) by (simp_all add: answers_def c0_def upd_rsp_def)
  have "result c0 \<noteq> CODE_REDIRECT" "length hd0 + 65 < length sb" using k(1) sb(3) hd0(2) by (simp_all add: CODE_OK_def CODE_REDIRECT_def)
  from response_head [OF this(1) k(2) f rp k(3) sb(1) [unfolded sb1, unfolded c0h] sb(2) hd0(1) this(2) k(4)]
  obtain sb' where s: "CGI_SetResponseHeaders ''200 OK'' c0 w0 =
      Some (upd_rsp (\<lambda>r. r\<lparr>sendBuffer := sb', bytesLeft := int (length (hd0 @ head_end w))\<rparr>) c0, w0)"
    "c_str sb' 0 = Some (hd0 @ head_end w)" "length sb' = 1600" unfolding he using sb(3) by auto
  define c2 where "c2 = upd_rsp (\<lambda>r. r\<lparr>sendBuffer := sb', bytesLeft := int (length (hd0 @ head_end w))\<rparr>) c0"
  have c2: "wf_send c2" "pending c2 = hd0 @ head_end w"
    using c_str_Some_bound [OF s(2)] c_str_take [OF s(2)] by (simp_all add: c2_def wf_send_def pending_def upd_rsp_def nat_add_distrib)
  from sendBuffered_ready [OF c2(1) w0(2)] obtain c3 w3 where r: "sendBuffered c2 w0 = Some (True, c3, w3)" "steady c2 w0 c3 w3"
    "bytesLeft (ctxResponse c3) = 0" "wire_bytes (pcb c2) w3 = wire_bytes (pcb c2) w0 @ hd0 @ head_end w" "ready w3"
    unfolding c2(2) by blast
  have sc: "same_conn c2 c3" "source_part c3 = source_part c2" "same_site w0 w3" using r(2) by (simp_all add: steady_def)
  define c4 where "c4 = (upd_rsp (\<lambda>r. r\<lparr>sending := 1\<rparr>) c3)\<lparr>state := HTTP_STATE_SENDING_HEADER\<rparr>"
  have st: "status_info CODE_OK = ''200 OK''" by code_simp
  have h: "send_header c w = Some (True, c4, w3)"
    using s(1) r(1) a same_conn_fields(4) [OF sc(1)]
    by (simp add: send_header_def tw st c0_def [symmetric] c2_def [symmetric] answers_def k(1)) 
       (simp add: c4_def c2_def c0_def upd_rsp_def answers_def CODE_OK_def CODE_REDIRECT_def)
  have p: "HttpResponseProc caller c w = Some (c4, w3)"
    using a h by (simp add: HttpResponseProc_def answers_def Let_def http_states CODE_OK_def c4_def)
  have "HttpRequestProc caller c w = Some (c4, w3)"
    using a p by (simp add: sending_proc answers_def http_states c4_def)
  moreover have "serves h c4 w3" using same_conn_fields [OF sc(1)] sc(1) r(3,5) a s(3)
    by (simp add: serves_def c4_def upd_rsp_def same_conn_def c2_def c0_def answers_def CODE_OK_def http_states MAX_SEND_BUF_SIZE_def TCP_MSS_def)
  moreover have "source_part c4 = source_part c2" using sc(2) by (simp add: source_part_def c4_def upd_rsp_def)
  then have "source_part c4 = source_part (head_ctx 0 c)" by (simp add: source_part_def c2_def c0_def head_ctx_def upd_rsp_def)
  moreover from this have "fresh_body c4" by (simp add: fresh_body_def source_part_def head_ctx_def upd_rsp_def)
  moreover have "same_site w w3" using w0(1) sc(3) by (simp add: same_site_def)
  moreover have "options c4 = options c" "pcb c4 = pcb c" "pcb c2 = pcb c" using same_conn_fields [OF sc(1)]
    by (simp_all add: c4_def c2_def c0_def upd_rsp_def)
  ultimately show ?thesis using r(4) w0(4) by (intro exI [of _ c4] exI [of _ w3]) simp
qed

text \<open>The whole response: the call that completes the request, and the events that follow.\<close>

definition response_run :: "proc_caller \<Rightarrow> tx_event list \<Rightarrow> REQUEST_CONTEXT \<Rightarrow> world \<Rightarrow> (REQUEST_CONTEXT \<times> world) option" where
  "response_run caller es c w = do { (c, w) \<leftarrow> HttpRequestProc caller c w; tx_run es c w }"

context body_source
begin

lemma plain_response:
  assumes a: "answers h c w" "SetResponseHeaders h = Some f" "hd0 \<noteq> []" "length hd0 < 1000"
    and hd: "\<forall>t w'. \<exists>sb. f ''200 OK'' (head_ctx t c) w' = Some (upd_rsp (\<lambda>r. r\<lparr>sendBuffer := sb\<rparr>) (head_ctx t c), w') \<and>
      c_str sb 0 = Some hd0 \<and> length sb = 1600"
    and s: "src (head_ctx 0 c) w n rest" "n \<le> acks es" "\<not> framed c"
  shows "\<exists>k \<le> length es. \<exists>c' w'. response_run caller (take k es) c w = Some (c', w') \<and> at_end c' \<and>
    wire_bytes (pcb c) w' = wire_bytes (pcb c) w @ (hd0 @ head_end w) @ rest"
proof -
  obtain c1 w1 where r: "HttpRequestProc caller c w = Some (c1, w1)" "serves h c1 w1" "options c1 = options c" "pcb c1 = pcb c"
    "source_part c1 = source_part (head_ctx 0 c)" "same_site w w1" "wire_bytes (pcb c) w1 = wire_bytes (pcb c) w @ hd0 @ head_end w"
    using header_sent [OF a(1,2) _ a(3,4), of caller] hd by blast
  have "\<not> framed c1" using r(3) s(3) by (simp add: framed_def)
  from plain_delivered [OF src_cong [OF s(1) r(5,6)] r(2) s(2) this] show ?thesis
    unfolding response_run_def r(1,4,7) by simp
qed

lemma chunked_response:
  assumes a: "answers h c w" "SetResponseHeaders h = Some f" "hd0 \<noteq> []" "length hd0 < 1000"
    and hd: "\<forall>t w'. \<exists>sb. f ''200 OK'' (head_ctx t c) w' = Some (upd_rsp (\<lambda>r. r\<lparr>sendBuffer := sb\<rparr>) (head_ctx t c), w') \<and>
      c_str sb 0 = Some hd0 \<and> length sb = 1600"
    and s: "src (head_ctx 0 c) w n rest" "n \<le> acks es" "framed c"
  shows "\<exists>k \<le> length es. stops_at_end rd (\<lambda>j. response_run caller (take j es) c w) k rest \<or>
    (\<exists>c' w' t. response_run caller (take k es) c w = Some (c', w') \<and> at_end c' \<and>
       wire_bytes (pcb c) w' = wire_bytes (pcb c) w @ (hd0 @ head_end w) @ (if prompt then [] else CRLF) @ t \<and> decode_chunked t = Some rest)"
proof -
  obtain c1 w1 where r: "HttpRequestProc caller c w = Some (c1, w1)" "serves h c1 w1" "fresh_body c1" "options c1 = options c" "pcb c1 = pcb c"
    "source_part c1 = source_part (head_ctx 0 c)" "same_site w w1" "wire_bytes (pcb c) w1 = wire_bytes (pcb c) w @ hd0 @ head_end w"
    using header_sent [OF a(1,2) _ a(3,4), of caller] hd by blast
  have "framed c1" using r(4) s(3) by (simp add: framed_def)
  from chunks_delivered [OF src_cong [OF s(1) r(6,7)] r(2) s(2) this r(3)] show ?thesis
    unfolding response_run_def r(1,5,8) by simp
qed

end

lemma web_head_ctx:
  assumes "as_ssi (appContext (ctxResponse c)) = Some s" and "c_str (extension c) 0 = Some ext"
    and "c_str (lastModified s) 0 = Some lm" and "length lm < 64" and "rangeTo c \<le> rangeFrom c" and "handler c \<noteq> None"
    and "0 \<le> dwTotal (ctxResponse c)" and "dwTotal (ctxResponse c) < 2 ^ 31" and "length (sendBuffer (ctxResponse c)) = 1600"
  shows "\<exists>ctype hd0. GetContentType ext = Some ctype \<and>
    hd0 = web_header ''200 OK'' (0 < ssi s \<or> framed c) (opt_set (options c) CGI_OPT_GZIP) ctype (dwTotal (ctxResponse c)) (ssi s) lm \<and>
    hd0 \<noteq> [] \<and> length hd0 < 1000 \<and>
    (\<forall>t w'. \<exists>sb. WEB_AppendHeaders ''200 OK'' (head_ctx t c) w' = Some (upd_rsp (\<lambda>r. r\<lparr>sendBuffer := sb\<rparr>) (head_ctx t c), w') \<and>
      c_str sb 0 = Some hd0 \<and> length sb = 1600)"
proof -
  have h: "ctxResponse (head_ctx t c) = (ctxResponse c)\<lparr>dwOperStage := 0, dwOperIndex := 0, rsp_tLastSent := t,
      sendMaxBlock := int MAX_SEND_BUF_SIZE, sendBuffer := (sendBuffer (ctxResponse c))[0 := NUL]\<rparr>"
    "framed (head_ctx t c) = framed c" for t by (simp_all add: head_ctx_def upd_rsp_def framed_def)
  have e: "c_str ((sendBuffer (ctxResponse c))[0 := NUL]) 0 = Some []"
    using assms(9) by (cases "sendBuffer (ctxResponse c)") (simp_all add: c_str_def)
  have f: "extension (head_ctx t c) = extension c" "rangeTo (head_ctx t c) = rangeTo c" "rangeFrom (head_ctx t c) = rangeFrom c"
    "handler (head_ctx t c) = handler c" "options (head_ctx t c) = options c" for t
    by (simp_all add: head_ctx_def upd_rsp_def)
  define H where "H = (\<lambda>ctype. web_header ''200 OK'' (0 < ssi s \<or> framed c) (opt_set (options c) CGI_OPT_GZIP) ctype
    (dwTotal (ctxResponse c)) (ssi s) lm)"
  have w: "\<exists>sb ctype. GetContentType ext = Some ctype \<and>
      WEB_AppendHeaders ''200 OK'' (head_ctx t c) w' = Some (upd_rsp (\<lambda>r. r\<lparr>sendBuffer := sb\<rparr>) (head_ctx t c), w') \<and>
      c_str sb 0 = Some (H ctype) \<and> length sb = 1600 \<and> length (H ctype) < 1000 \<and> H ctype \<noteq> []" for t w'
    unfolding H_def using web_head [of "head_ctx t c" s ext lm "''200 OK''" w'] assms e by (simp add: h f)
  then obtain ctype where ct: "GetContentType ext = Some ctype" by blast
  have w2: "\<exists>sb. WEB_AppendHeaders ''200 OK'' (head_ctx t c) w' = Some (upd_rsp (\<lambda>r. r\<lparr>sendBuffer := sb\<rparr>) (head_ctx t c), w') \<and>
      c_str sb 0 = Some (H ctype) \<and> length sb = 1600" and w3: "H ctype \<noteq> [] \<and> length (H ctype) < 1000" for t w'
    using w [of t w'] ct by auto
  have h0: "H ctype = web_header ''200 OK'' (0 < ssi s \<or> framed c) (opt_set (options c) CGI_OPT_GZIP) ctype
      (dwTotal (ctxResponse c)) (ssi s) lm" by (simp add: H_def)
  show ?thesis by (rule exI [of _ ctype], rule exI [of _ "H ctype"]) (intro conjI allI ct h0 w2 w3 [THEN conjunct1] w3 [THEN conjunct2])
qed

section \<open>Opening a file\<close>

lemma ftime_cong:
  assumes "local_fs fs' = local_fs fs" and "disk fs' = disk fs" and "image fs' = image fs"
  shows "WEB_ftime p fs' = WEB_ftime p fs"
  unfolding WEB_ftime_def LWIP_ftime_def assms ..

lemma fread_ftime: "WEB_fread fo n fs = Some (b, fs') \<Longrightarrow> WEB_ftime p fs' = WEB_ftime p fs"
  by (rule ftime_cong; auto simp: WEB_fread_def LWIP_fread_def bind_eq_Some_conv Let_def split: option.splits if_splits)

lemma fseek_ftime: "WEB_fseek fo i fs = Some (z, fs') \<Longrightarrow> WEB_ftime p fs' = WEB_ftime p fs"
  by (rule ftime_cong; auto simp: WEB_fseek_def LWIP_fseek_def bind_eq_Some_conv Let_def split: option.splits if_splits)

text \<open>The line with the time of a file: without a text when the image does not keep one.\<close>

definition modified_line :: "nat \<Rightarrow> string option \<Rightarrow> string" where
  "modified_line t mt = (if int t mod 2 ^ 32 = 0 then [] else ''Last-Modified: '' @ (case mt of None \<Rightarrow> [] | Some x \<Rightarrow> x) @ CRLF)"

lemma file_opened:
  assumes "c_str (responsePath c) 0 = Some path" and "path \<noteq> ''/''" and "c_str (extension c) 0 = Some ext" and "\<not> is_ssi_extension ext"
    and "WEB_fopen path ''rb'' (w_fs w) = Some (Some f, fs)" and "file_valid f fs" and "file_pos f fs \<le> length (file_content f fs)"
    and "WEB_ftime path fs = Some (t, mt)" and "\<forall>x. mt = Some x \<longrightarrow> NUL \<notin> set x \<and> length x < 40"
    and "ifModified c = 0 \<or> ifModified c < int t mod 2 ^ 32"
  shows "\<exists>s fs2. WEB_RequestReceived c w =
      Some (set_ssi s (upd_rsp (\<lambda>r. r\<lparr>dwTotal := int (length (file_content f fs))\<rparr>)
         (c\<lparr>options := (if take 3 (drop (file_pos f fs) (file_content f fs)) = gzip_magic then or (options c) CGI_OPT_GZIP else options c),
            fileHandle := Some f\<rparr>)), w\<lparr>w_fs := fs2\<rparr>) \<and>
    file_valid f fs2 \<and> file_content f fs2 = file_content f fs \<and> file_pos f fs2 = 0 \<and> ssi s = 0 \<and> ssi_fp s = Some f \<and>
    c_str (lastModified s) 0 = Some (modified_line t mt)"
proof -
  obtain fs1 where r: "WEB_fread (Some f) 3 fs = Some (Some (take 3 (drop (file_pos f fs) (file_content f fs))), fs1)"
    "file_valid f fs1" "file_content f fs1 = file_content f fs"
    using web_file.rd_law [OF assms(6,7), of 3] by blast
  obtain z fs2 where k: "WEB_fseek (Some f) 0 fs1 = Some (z, fs2)" "file_valid f fs2" "file_content f fs2 = file_content f fs"
    "file_pos f fs2 = 0"
    using web_file.seek_law [OF r(2), of 0] r(3) by auto
  have sz: "WEB_fsize (Some f) fs2 = Some (int (length (file_content f fs)))"
    using web_file.size_law [OF k(2)] k(3) by simp
  have ft: "WEB_ftime path fs2 = Some (t, mt)" using fread_ftime [OF r(1)] fseek_ftime [OF k(1)] assms(8) by simp
  let ?z = "replicate 64 NUL"
  obtain lm1 where l1: "c_strcpy ?z 0 ''Last-Modified: '' = Some lm1" "c_str lm1 0 = Some ''Last-Modified: ''" "length lm1 = 64"
    using strcpy_str [of "''Last-Modified: ''" ?z] by auto
  have l15: "0 + length ''Last-Modified: '' = 15" by simp
  have ap: "\<exists>b'. c_strcpy lm1 15 x = Some b' \<and> c_str b' 0 = Some (''Last-Modified: '' @ x) \<and> length b' = 64" if "NUL \<notin> set x" "length x < 40" for x
    using c_strcpy_append [OF l1(2) that(1), unfolded l15] that(2) l1(3) by simp
  obtain lm2 where l2: "(case mt of None \<Rightarrow> Some lm1 | Some x \<Rightarrow> c_strcpy lm1 15 x) = Some lm2"
    "c_str lm2 0 = Some (''Last-Modified: '' @ (case mt of None \<Rightarrow> [] | Some x \<Rightarrow> x))" "length lm2 = 64"
  proof (cases mt)
    case None
    then show ?thesis using l1 that [of lm1] by simp
  next
    case (Some x)
    then show ?thesis using ap [of x] assms(9) that by auto
  qed
  have tx: "length (case mt of None \<Rightarrow> [] | Some x \<Rightarrow> x) < 40" using assms(9) by (cases mt) simp_all
  obtain lm3 where l3: "c_strcat lm2 CRLF = Some lm3" "c_str lm3 0 = Some ((''Last-Modified: '' @ (case mt of None \<Rightarrow> [] | Some x \<Rightarrow> x)) @ CRLF)"
    using strcat_str [OF l2(2), of CRLF] l2(3) tx by auto
  let ?s = "zeroSSI\<lparr>ssi_valid := 1, ssi := 0, ssi_fp := Some f\<rparr>"
  define lm where "lm = (if int t mod 2 ^ 32 = 0 then lm2[0 := NUL] else lm3)"
  have lm: "c_str lm 0 = Some (modified_line t mt)"
  proof (cases "int t mod 2 ^ 32 = 0")
    case True
    then show ?thesis using l2(3) by (cases lm2) (simp_all add: lm_def modified_line_def c_str_def)
  next
    case False
    then have "lm = lm3" "modified_line t mt = (''Last-Modified: '' @ (case mt of None \<Rightarrow> [] | Some x \<Rightarrow> x)) @ CRLF"
      by (simp_all only: lm_def modified_line_def if_False append_assoc)
    then show ?thesis using l3(2) by (simp only:)
  qed
  have w0: "c_wr lm2 0 NUL = Some (lm2[0 := NUL])" using l2(3) by (simp add: c_wr_def)
  have nm: "\<not> (ifModified c \<noteq> 0 \<and> int t mod 2 ^ 32 \<le> ifModified c)" using assms(10) by auto
  have "WEB_RequestReceived c w =
      Some (set_ssi (?s\<lparr>lastModified := lm\<rparr>) (upd_rsp (\<lambda>r. r\<lparr>dwTotal := int (length (file_content f fs))\<rparr>)
         (c\<lparr>options := (if take 3 (drop (file_pos f fs) (file_content f fs)) = gzip_magic then or (options c) CGI_OPT_GZIP else options c),
            fileHandle := Some f\<rparr>)), w\<lparr>w_fs := fs2\<rparr>)"
    using assms(1-5) r(1) k(1) sz ft l1(1) l2(1) l3(1) w0 nm unfolding WEB_RequestReceived_def Let_def
    by (cases "int t mod 2 ^ 32 = 0"; cases "ifModified c = 0") (simp_all add: zeroSSI_def lm_def)
  then show ?thesis using k(2-4) lm
    by (intro exI [of _ "?s\<lparr>lastModified := lm\<rparr>"] exI [of _ fs2]) (simp add: zeroSSI_def)
qed

lemma opt_set_or: "opt_set (or a b) x \<longleftrightarrow> opt_set a x \<or> opt_set b x"
  by (simp add: opt_set_def bit.conj_disj_distrib2 or_eq_0_iff)

lemma answers_opened: "answers h c w \<Longrightarrow> answers h (set_ssi s (upd_rsp (\<lambda>r. r\<lparr>dwTotal := n\<rparr>) (c\<lparr>options := oo, fileHandle := f\<rparr>))) (w\<lparr>w_fs := fs\<rparr>)"
  by (simp add: answers_def set_ssi_def upd_rsp_def ready_def)

text \<open>
  C3. A static file, from its request to its last byte on the wire: after \<open>WEB_RequestReceived\<close> has opened it, the
  call of \<open>HttpRequestProc\<close> that starts the response, and acknowledgements and polls in any order, put on the wire of this
  connection the header, with the length of the file and its type, and then the file byte for byte; as many
  acknowledgements as the file has bytes are always enough.
\<close>

theorem file_on_wire:
  assumes "answers g_cgiWebApp c w" and "c_str (responsePath c) 0 = Some path" and "path \<noteq> ''/''" and "c_str (extension c) 0 = Some ext"
    and "\<not> is_ssi_extension ext" and "WEB_fopen path ''rb'' (w_fs w) = Some (Some f, fs)" and "file_valid f fs"
    and "file_pos f fs \<le> length (file_content f fs)" and "WEB_ftime path fs = Some (t, mt)"
    and "\<forall>x. mt = Some x \<longrightarrow> NUL \<notin> set x \<and> length x < 40" and "ifModified c = 0 \<or> ifModified c < int t mod 2 ^ 32"
    and "requestMethod c \<in> {METHOD_GET, METHOD_POST}" and "rangeTo c \<le> rangeFrom c" and "\<not> framed c"
    and "file_content f fs \<noteq> []" and "length (file_content f fs) < 2 ^ 31" and "length (file_content f fs) \<le> acks es"
  shows "\<exists>c1 w1 k c' w' ctype gz. WEB_RequestReceived c w = Some (c1, w1) \<and> k \<le> length es \<and>
    response_run caller (take k es) c1 w1 = Some (c', w') \<and> at_end c' \<and> GetContentType ext = Some ctype \<and>
    wire_bytes (pcb c) w' = wire_bytes (pcb c) w @
      (web_header ''200 OK'' False gz ctype (int (length (file_content f fs))) 0 (modified_line t mt) @ head_end w) @ file_content f fs"
proof -
  let ?F = "file_content f fs"
  let ?o = "if take 3 (drop (file_pos f fs) ?F) = gzip_magic then or (options c) CGI_OPT_GZIP else options c"
  obtain s fs2 where o: "WEB_RequestReceived c w =
      Some (set_ssi s (upd_rsp (\<lambda>r. r\<lparr>dwTotal := int (length ?F)\<rparr>) (c\<lparr>options := ?o, fileHandle := Some f\<rparr>)), w\<lparr>w_fs := fs2\<rparr>)"
    "file_valid f fs2" "file_content f fs2 = ?F" "file_pos f fs2 = 0" "ssi s = 0" "ssi_fp s = Some f"
    "c_str (lastModified s) 0 = Some (modified_line t mt)" using file_opened [OF assms(2-11)] by blast
  define c1 where "c1 = set_ssi s (upd_rsp (\<lambda>r. r\<lparr>dwTotal := int (length ?F)\<rparr>) (c\<lparr>options := ?o, fileHandle := Some f\<rparr>))"
  define w1 where "w1 = w\<lparr>w_fs := fs2\<rparr>"
  have a: "answers g_cgiWebApp c1 w1" unfolding c1_def w1_def by (rule answers_opened) (rule assms(1))
  have fr: "\<not> framed c1" using assms(14) by (auto simp: c1_def framed_def set_ssi_def upd_rsp_def opt_set_or) (simp add: opt_set_def cgi_opts)
  have l: "length (modified_line t mt) < 64" using assms(10) by (cases mt) (auto simp: modified_line_def)
  obtain ctype hd0 where hd0: "GetContentType ext = Some ctype"
    "hd0 = web_header ''200 OK'' (0 < ssi s \<or> framed c1) (opt_set (options c1) CGI_OPT_GZIP) ctype (dwTotal (ctxResponse c1)) (ssi s) (modified_line t mt)"
    "hd0 \<noteq> []" "length hd0 < 1000"
    "\<forall>t w'. \<exists>sb. WEB_AppendHeaders ''200 OK'' (head_ctx t c1) w' = Some (upd_rsp (\<lambda>r. r\<lparr>sendBuffer := sb\<rparr>) (head_ctx t c1), w') \<and>
      c_str sb 0 = Some hd0 \<and> length sb = 1600"
    using web_head_ctx [of c1 s ext "modified_line t mt"] a o(7) l assms(4,13,16)
    by (auto simp: c1_def set_ssi_def upd_rsp_def as_ssi_def answers_def)
  have fsrc: "file_src (head_ctx 0 c1) w1 (length ?F) ?F"
    using assms(12,15,16) o(2-6) by (auto simp: file_src_def head_ctx_def c1_def w1_def set_ssi_def upd_rsp_def as_ssi_def)
  have sh: "SetResponseHeaders g_cgiWebApp = Some WEB_AppendHeaders" by (simp add: SetResponseHeaders_def)
  from app_file.plain_response [OF a sh hd0(3,4,5) fsrc assms(17) fr, of caller]
  obtain k c' w' where r: "k \<le> length es" "response_run caller (take k es) c1 w1 = Some (c', w')" "at_end c'"
    "wire_bytes (pcb c1) w' = wire_bytes (pcb c1) w1 @ (hd0 @ head_end w1) @ ?F" by blast
  have e: "pcb c1 = pcb c" "wire_bytes (pcb c) w1 = wire_bytes (pcb c) w" "head_end w1 = head_end w" "dwTotal (ctxResponse c1) = int (length ?F)"
    by (simp_all add: c1_def w1_def set_ssi_def upd_rsp_def wire_bytes_def head_end_def)
  show ?thesis using o(1,5) r hd0(1,2) fr unfolding c1_def [symmetric] w1_def [symmetric] e
    by (intro exI [of _ c1] exI [of _ w1] exI [of _ k] exI [of _ c'] exI [of _ w'] exI [of _ ctype]
      exI [of _ "opt_set (options c1) CGI_OPT_GZIP"]) simp
qed

text \<open>
  C2. A page with tags, from its request to its last byte on the wire, for a page of at least 5 bytes whose tags are
  all closed before its last 64 bytes and have names of at most 63 characters (so that \<open>ssi_text\<close> is defined), and a
  transport that has room: the header announces chunks, and what follows it are chunks that decode to the text of
  the page with every tag replaced by its value. Two acknowledgements more than the page has bytes are enough. Two
  things can go wrong, and nothing else: the event that loads a last block of 1584 to 1588 bytes is undefined, since
  the end mark behind it does not fit in the send buffer; and for a page that begins with a tag the first read
  delivers nothing, so that the first chunk no longer counts as the first and an empty line comes before it.
\<close>

theorem page_on_wire:
  assumes "answers g_cgiWebApp c w" and "c_str (responsePath c) 0 = Some path" and "path \<noteq> ''/''" and "c_str (extension c) 0 = Some ext"
    and "is_ssi_extension ext" and "WEB_fopen path ''rb'' (w_fs w) = Some (Some f, fs)" and "file_valid f fs"
    and "file_pos f fs \<le> length (file_content f fs)" and "requestMethod c \<in> {METHOD_GET, METHOD_POST}" and "rangeTo c \<le> rangeFrom c"
    and "5 \<le> length (file_content f fs)" and "length (file_content f fs) < 2 ^ 31"
    and "ssi_text (w_dev w) None (file_content f fs) = Some out" and "length (file_content f fs) + 2 \<le> acks es"
  shows "\<exists>c1 w1 k. WEB_RequestReceived c w = Some (c1, w1) \<and> k \<le> length es \<and>
    (stops_at_end WEB_ReadContent (\<lambda>j. response_run caller (take j es) c1 w1) k out \<or>
     (\<exists>c' w' t ctype gz. response_run caller (take k es) c1 w1 = Some (c', w') \<and> at_end c' \<and> GetContentType ext = Some ctype \<and>
       wire_bytes (pcb c) w' = wire_bytes (pcb c) w @ (web_header ''200 OK'' True gz ctype 0 1 [] @ head_end w) @
         (if prefix tagStart (file_content f fs) then CRLF else []) @ t \<and> decode_chunked t = Some out))"
proof -
  let ?F = "file_content f fs" and ?s = "zeroSSI\<lparr>ssi_valid := 1, ssi := 1, ssi_fp := Some f\<rparr>"
  obtain fs2 oo where o: "WEB_RequestReceived c w =
      Some (set_ssi ?s (upd_rsp (\<lambda>r. r\<lparr>dwTotal := int (length ?F)\<rparr>) (c\<lparr>options := oo, fileHandle := Some f\<rparr>)), w\<lparr>w_fs := fs2\<rparr>)"
    "oo = (let o1 = if handler c = None then options c else or (options c) CGI_OPT_CHUNK_ENABLED
          in if take 3 (drop (file_pos f fs) ?F) = gzip_magic then or o1 CGI_OPT_GZIP else o1)"
    "file_valid f fs2" "file_content f fs2 = ?F" "file_pos f fs2 = 0" using page_opened_form [OF assms(2-8)] by blast
  define c1 where "c1 = set_ssi ?s (upd_rsp (\<lambda>r. r\<lparr>dwTotal := int (length ?F)\<rparr>) (c\<lparr>options := oo, fileHandle := Some f\<rparr>))"
  define w1 where "w1 = w\<lparr>w_fs := fs2\<rparr>"
  have a: "answers g_cgiWebApp c1 w1" unfolding c1_def w1_def by (rule answers_opened) (rule assms(1))
  have "opt_set oo CGI_OPT_CHUNK_ENABLED" using assms(1) unfolding o(2) by (simp add: answers_def Let_def opt_set_or) (simp add: opt_set_def cgi_opts)
  then have fr: "framed c1" by (simp add: c1_def framed_def set_ssi_def upd_rsp_def)
  obtain ctype hd0 where hd0: "GetContentType ext = Some ctype"
    "hd0 = web_header ''200 OK'' (0 < ssi ?s \<or> framed c1) (opt_set (options c1) CGI_OPT_GZIP) ctype (dwTotal (ctxResponse c1)) (ssi ?s) []"
    "hd0 \<noteq> []" "length hd0 < 1000"
    "\<forall>t w'. \<exists>sb. WEB_AppendHeaders ''200 OK'' (head_ctx t c1) w' = Some (upd_rsp (\<lambda>r. r\<lparr>sendBuffer := sb\<rparr>) (head_ctx t c1), w') \<and>
      c_str sb 0 = Some hd0 \<and> length sb = 1600"
    using web_head_ctx [of c1 ?s ext "[]"] a assms(4,10,12)
    by (auto simp: c1_def set_ssi_def upd_rsp_def as_ssi_def answers_def zeroSSI_def c_str_def)
  have s: "ssi_inv ?s" "reading ?s = None" "cacheOffset ?s = 0" by (auto simp: ssi_inv_def reading_def zeroSSI_def)
  have r: "page_ready (head_ctx 0 c1) w1 ?s f ?F 0"
    using assms(9) s(1) o(3-5)
    by (simp add: page_ready_def page_at_def head_ctx_def c1_def w1_def set_ssi_def upd_rsp_def as_ssi_def zeroSSI_def)
  have u: "unsent ?s ?F 0 = ?F" by (simp add: unsent_def s(3))
  have ne: "?F \<noteq> []" using assms(11) by auto
  have st: "dwOperStage (ctxResponse (head_ctx 0 c1)) = 0" by (simp add: head_ctx_def upd_rsp_def)
  have psrc: "page_src (\<not> prefix tagStart ?F) (head_ctx 0 c1) w1 (length ?F + 2) out"
    unfolding page_src_def using r s assms(11-13) u ne st
    by (intro exI [of _ ?s] exI [of _ f] exI [of _ ?F] exI [of _ 0]) (simp add: rest_calls_def w1_def)
  have sh: "SetResponseHeaders g_cgiWebApp = Some WEB_AppendHeaders" by (simp add: SetResponseHeaders_def)
  have e: "pcb c1 = pcb c" "wire_bytes (pcb c) w1 = wire_bytes (pcb c) w" "head_end w1 = head_end w"
    by (simp_all add: c1_def w1_def set_ssi_def upd_rsp_def wire_bytes_def head_end_def)
  have hd1: "hd0 = web_header ''200 OK'' True (opt_set (options c1) CGI_OPT_GZIP) ctype 0 1 []"
    using hd0(2) by (simp add: web_header_def)
  have ni: "(if \<not> b then [] else CRLF) = (if b then CRLF else [])" for b by simp
  from app_page.chunked_response [OF a sh hd0(3,4,5) psrc assms(14) fr, of caller]
  obtain k where k: "k \<le> length es" "stops_at_end WEB_ReadContent (\<lambda>j. response_run caller (take j es) c1 w1) k out \<or>
    (\<exists>c' w' t. response_run caller (take k es) c1 w1 = Some (c', w') \<and> at_end c' \<and>
       wire_bytes (pcb c) w' = wire_bytes (pcb c) w @ (hd0 @ head_end w) @ (if prefix tagStart ?F then CRLF else []) @ t \<and> decode_chunked t = Some out)"
    unfolding e ni by blast
  show ?thesis using o(1) k hd0(1) unfolding c1_def [symmetric] w1_def [symmetric] hd1 by blast
qed

lemma ssdp_total: "length (concat (ssdp_pieces d)) \<le> 1583"
  using length_dotted [of "GetMyIP d"]
  by (simp add: ssdp_pieces_def GetDeviceName_def GetVendor_def GetVendorURL_def GetModel_def
      GetModelURL_def GetDeviceVersion_def GetDeviceSN_def GetDeviceUUID_def Let_def)

definition xml_header :: string where
  "xml_header = header_chunked ''200 OK'' ''text/xml; charset=\"utf-8\"'' header_nocache CONNECTION_HEADER"

lemma xml_head_ctx:
  assumes "requestMethod c = METHOD_GET" and "length (sendBuffer (ctxResponse c)) = 1600"
  shows "\<exists>sb. SSDP_SendHeader info (head_ctx t c) w = Some (upd_rsp (\<lambda>r. r\<lparr>sendBuffer := sb\<rparr>) (head_ctx t c), w) \<and>
    c_str sb 0 = Some xml_header \<and> length sb = 1600"
proof -
  have x: "NUL \<notin> set xml_header" "length xml_header < 400"
    by (simp_all add: xml_header_def header_chunked_def header_nocache_def CONNECTION_HEADER_def)
  have l: "length (sendBuffer (ctxResponse (head_ctx t c))) = 1600" using assms(2) by (simp add: head_ctx_def upd_rsp_def)
  obtain sb where "c_strcpy (sendBuffer (ctxResponse (head_ctx t c))) 0 xml_header = Some sb" "c_str sb 0 = Some xml_header" "length sb = 1600"
    using strcpy_str [OF x(1), of "sendBuffer (ctxResponse (head_ctx t c))"] x(2) l by auto
  moreover have "requestMethod (head_ctx t c) = METHOD_GET" using assms(1) by (simp add: head_ctx_def upd_rsp_def)
  ultimately show ?thesis unfolding SSDP_SendHeader_def xml_header_def by (intro exI [of _ sb]) simp
qed

text \<open>
  C16. The device description on the wire: 17 acknowledgements, with polls anywhere between them, are enough for
  the header and chunks that decode to the whole document, the address of the device in it. Nothing can go wrong: the document
  is so short that the end mark always fits.
\<close>

theorem description_on_wire:
  assumes "answers g_cgiSSDP c w" and "requestMethod c = METHOD_GET" and "framed c" and "17 \<le> acks es"
  shows "\<exists>k c' w' t. k \<le> length es \<and> response_run caller (take k es) c w = Some (c', w') \<and> at_end c' \<and>
    wire_bytes (pcb c) w' = wire_bytes (pcb c) w @ (xml_header @ head_end w) @ t \<and>
    decode_chunked t = Some (concat (ssdp_pieces (w_dev w)))"
proof -
  have sh: "SetResponseHeaders g_cgiSSDP = Some SSDP_SendHeader" by (simp add: SetResponseHeaders_def)
  have x: "xml_header \<noteq> []" "length xml_header < 1000"
    by (simp_all add: xml_header_def header_chunked_def header_nocache_def CONNECTION_HEADER_def)
  have l: "length (sendBuffer (ctxResponse c)) = 1600" using assms(1) by (simp add: answers_def)
  have h: "\<forall>t w'. \<exists>sb. SSDP_SendHeader ''200 OK'' (head_ctx t c) w' = Some (upd_rsp (\<lambda>r. r\<lparr>sendBuffer := sb\<rparr>) (head_ctx t c), w') \<and>
      c_str sb 0 = Some xml_header \<and> length sb = 1600"
    using xml_head_ctx [OF assms(2) l] by blast
  have s: "xml_src (head_ctx 0 c) w 17 (concat (ssdp_pieces (w_dev w)))"
    using assms(2) by (auto simp: xml_src_def head_ctx_def upd_rsp_def intro!: exI [of _ 0])
  have "\<not> stops_at_end SSDP_Sending run k (concat (ssdp_pieces (w_dev w)))" for run k
    using ssdp_total [of "w_dev w"] by (auto simp: stops_at_end_def)
  with description.chunked_response [OF assms(1) sh x h s assms(4,3), of caller] show ?thesis by fastforce
qed

section \<open>Examples\<close>

text \<open>A complete request for \<open>/a.ssi\<close>, \<open>/a.css\<close> or the description, and a site that holds one file.\<close>

definition demo_ask :: "cgi_id \<Rightarrow> string \<Rightarrow> REQUEST_CONTEXT" where
  "demo_ask h ext = demo_ssi\<lparr>responsePath := ''/a.'' @ ext @ [NUL], extension := ext @ [NUL], state := HTTP_STATE_BODY_DONE,
     result := CODE_OK, handler := Some h, pcb := Some 3\<rparr>"

definition demo_site :: "string \<Rightarrow> string \<Rightarrow> file_system" where
  "demo_site ext page = (demo_ssi_fs page)\<lparr>image := [\<lparr>rom_name = ''/a.'' @ ext, rom_data = page, rom_time = 1\<rparr>]\<rparr>"

lemma demo_site_opens: "\<exists>f fs. WEB_fopen (''/a.'' @ ext) ''rb'' (demo_site ext page) = Some (Some f, fs) \<and> file_valid f fs \<and>
    file_pos f fs = 0 \<and> file_content f fs = page \<and> WEB_ftime (''/a.'' @ ext) fs = Some (1, None)"
proof -
  have "replicate 32 (None, 0) = (None, 0) # (replicate 31 (None, 0) :: (file_info option \<times> nat) list)" by (simp add: numeral_eq_Suc)
  then have r: "WEB_fopen (''/a.'' @ ext) ''rb'' (demo_site ext page) =
      Some (Some (Slot 0), (demo_site ext page)\<lparr>g_FileOpened := (Some (ImageFile 0), 0) # replicate 31 (None, 0)\<rparr>)"
    by (simp add: WEB_fopen_def demo_site_def demo_ssi_fs_def demo_fs_def open_slot_def Let_def)
  show ?thesis unfolding r
    by (rule exI, rule exI, rule conjI, rule refl)
      (simp add: demo_site_def demo_ssi_fs_def demo_fs_def file_valid_def slot_of_def file_pos_def file_content_def info_data_def
        info_size_def WEB_ftime_def)
qed

lemma demo_ask_fields: "answers h (demo_ask h ext) (demo_world\<lparr>w_fs := fs\<rparr>)" "requestMethod (demo_ask h ext) = METHOD_GET"
  "options (demo_ask h ext) = 0" "ifModified (demo_ask h ext) = 0" "rangeTo (demo_ask h ext) = 0" "rangeFrom (demo_ask h ext) = 0"
  "pcb (demo_ask h ext) = Some 3" "NUL \<notin> set ext \<Longrightarrow> c_str (responsePath (demo_ask h ext)) 0 = Some (''/a.'' @ ext)"
  "NUL \<notin> set ext \<Longrightarrow> c_str (extension (demo_ask h ext)) 0 = Some ext"
  using c_str_app [of "''/a.'' @ ext" "[]"] c_str_app [of ext "[]"]
  by (simp_all add: demo_ask_def demo_ssi_def answers_def ready_def demo_world_def zeroContext_def zeroResponse_def
      MAX_SEND_BUF_SIZE_def TCP_MSS_def)

lemma demo_wire: "wire_bytes p (demo_world\<lparr>w_fs := fs\<rparr>) = []"
  by (simp add: wire_bytes_def demo_world_def)

theorem file_on_wire_witness:
  "\<exists>c1 w1 k c' w' head. WEB_RequestReceived (demo_ask g_cgiWebApp ''css'') (demo_world\<lparr>w_fs := demo_site ''css'' ''p{color:red}''\<rparr>) = Some (c1, w1) \<and>
     response_run HTTP_PROC_CALLER_RECV (take k (Poll # replicate 12 (Acked 7))) c1 w1 = Some (c', w') \<and>
     wire_bytes (Some 3) w' = head @ ''p{color:red}''"
proof -
  let ?w = "demo_world\<lparr>w_fs := demo_site ''css'' ''p{color:red}''\<rparr>"
  obtain f fs where f: "WEB_fopen (''/a.'' @ ''css'') ''rb'' (demo_site ''css'' ''p{color:red}'') = Some (Some f, fs)" "file_valid f fs"
    "file_pos f fs = 0" "file_content f fs = ''p{color:red}''" "WEB_ftime (''/a.'' @ ''css'') fs = Some (1, None)"
    using demo_site_opens [of "''css''" "''p{color:red}''"] by blast
  have e: "c_str (responsePath (demo_ask g_cgiWebApp ''css'')) 0 = Some (''/a.'' @ ''css'')"
    "c_str (extension (demo_ask g_cgiWebApp ''css'')) 0 = Some ''css''" "\<not> framed (demo_ask g_cgiWebApp ''css'')"
    using demo_ask_fields(8,9) [of "''css''"] by (simp_all add: framed_def demo_ask_fields opt_set_def)
  have n: "\<not> is_ssi_extension ''css''" by code_simp
  have k: "12 \<le> acks (Poll # replicate 12 (Acked 7))" by (simp add: acks_def)
  have "\<exists>c1 w1 k c' w' ctype gz. WEB_RequestReceived (demo_ask g_cgiWebApp ''css'') ?w = Some (c1, w1) \<and> k \<le> length (Poll # replicate 12 (Acked 7)) \<and>
    response_run HTTP_PROC_CALLER_RECV (take k (Poll # replicate 12 (Acked 7))) c1 w1 = Some (c', w') \<and> at_end c' \<and> GetContentType ''css'' = Some ctype \<and>
    wire_bytes (pcb (demo_ask g_cgiWebApp ''css'')) w' = wire_bytes (pcb (demo_ask g_cgiWebApp ''css'')) ?w @
      (web_header ''200 OK'' False gz ctype (int (length (file_content f fs))) 0 (modified_line 1 None) @ head_end ?w) @ file_content f fs"
    by (rule file_on_wire [OF demo_ask_fields(1) e(1) _ e(2) n _ f(2) _ f(5)]) (use f e(3) k in \<open>simp_all add: demo_ask_fields\<close>)
  then show ?thesis unfolding demo_wire demo_ask_fields(7) f(4) by (metis append_assoc append_Nil)
qed

theorem page_on_wire_witness:
  "\<exists>c1 w1 k c' w' head t. WEB_RequestReceived (demo_ask g_cgiWebApp ''ssi'') (demo_world\<lparr>w_fs := demo_site ''ssi'' demo_vendor_page\<rparr>) = Some (c1, w1) \<and>
     response_run HTTP_PROC_CALLER_RECV (take k (replicate 88 (Acked 9))) c1 w1 = Some (c', w') \<and>
     wire_bytes (Some 3) w' = head @ t \<and> decode_chunked t = Some (''By Straight.'' @ replicate 64 CHR ''!'')"
proof -
  let ?w = "demo_world\<lparr>w_fs := demo_site ''ssi'' demo_vendor_page\<rparr>" and ?c = "demo_ask g_cgiWebApp ''ssi''" and ?es = "replicate 88 (Acked 9)"
  let ?out = "''By Straight.'' @ replicate 64 CHR ''!''"
  obtain f fs where f: "WEB_fopen (''/a.'' @ ''ssi'') ''rb'' (demo_site ''ssi'' demo_vendor_page) = Some (Some f, fs)" "file_valid f fs"
    "file_pos f fs = 0" "file_content f fs = demo_vendor_page" using demo_site_opens [of "''ssi''" demo_vendor_page] by blast
  have e: "c_str (responsePath ?c) 0 = Some (''/a.'' @ ''ssi'')" "c_str (extension ?c) 0 = Some ''ssi''" "is_ssi_extension ''ssi''"
    using demo_ask_fields(8,9) [of "''ssi''"] by (simp_all add: is_ssi_extension_def Strnicmp_zero_iff)
  have p: "length demo_vendor_page = 86" "\<not> prefix tagStart demo_vendor_page" by (simp_all add: demo_vendor_page_def tagStart_def)
  have k: "88 \<le> acks ?es" by (simp add: acks_def)
  have "\<exists>c1 w1 k. WEB_RequestReceived ?c ?w = Some (c1, w1) \<and> k \<le> length ?es \<and>
    (stops_at_end WEB_ReadContent (\<lambda>j. response_run HTTP_PROC_CALLER_RECV (take j ?es) c1 w1) k ?out \<or>
     (\<exists>c' w' t ctype gz. response_run HTTP_PROC_CALLER_RECV (take k ?es) c1 w1 = Some (c', w') \<and> at_end c' \<and> GetContentType ''ssi'' = Some ctype \<and>
       wire_bytes (pcb ?c) w' = wire_bytes (pcb ?c) ?w @ (web_header ''200 OK'' True gz ctype 0 1 [] @ head_end ?w) @
         (if prefix tagStart (file_content f fs) then CRLF else []) @ t \<and> decode_chunked t = Some ?out))"
    by (rule page_on_wire [OF demo_ask_fields(1) e(1) _ e(2,3) _ f(2)])
      (use f p k demo_vendor_text in \<open>simp_all add: demo_ask_fields\<close>)
  moreover have "\<not> stops_at_end WEB_ReadContent run k ?out" for run k
    using length_append by (auto simp: stops_at_end_def dest!: arg_cong [where f = length])
  ultimately show ?thesis unfolding demo_wire demo_ask_fields(7) f(4) if_not_P [OF p(2)] append_Nil by blast
qed

theorem description_on_wire_witness:
  "\<exists>k c' w' t. response_run HTTP_PROC_CALLER_RECV (take k (concat (replicate 17 [Poll, Acked 1])))
       ((demo_ask g_cgiSSDP ''xml'')\<lparr>options := CGI_OPT_CHUNK_ENABLED\<rparr>) demo_world = Some (c', w') \<and>
     wire_bytes (Some 3) w' = (xml_header @ head_end demo_world) @ t \<and> decode_chunked t = Some (concat (ssdp_pieces (w_dev demo_world)))"
proof -
  let ?c = "(demo_ask g_cgiSSDP ''xml'')\<lparr>options := CGI_OPT_CHUNK_ENABLED\<rparr>" and ?es = "concat (replicate 17 [Poll, Acked 1])"
  have "demo_world = demo_world\<lparr>w_fs := w_fs demo_world\<rparr>" by simp
  then have "answers g_cgiSSDP ?c demo_world" using demo_ask_fields(1) [of g_cgiSSDP "''xml''" "w_fs demo_world"] by (simp add: answers_def)
  moreover have "framed ?c" by (simp add: framed_def opt_set_def cgi_opts)
  moreover have "17 \<le> acks ?es" by (simp add: acks_def numeral_eq_Suc)
  moreover have "requestMethod ?c = METHOD_GET" "pcb ?c = Some 3" by (simp_all add: demo_ask_fields)
  moreover have "wire_bytes (Some 3) demo_world = []" by (simp add: wire_bytes_def demo_world_def)
  ultimately show ?thesis using description_on_wire [of ?c demo_world ?es HTTP_PROC_CALLER_RECV] by (simp only:) (metis append_Nil)
qed

section \<open>A block that is not sent\<close>

text \<open>
  C37. When the transport does not take a nearly full block (1590 bytes or more are left) and has room again at the next
  event, the next piece of a page is loaded behind what is left, with a negative room for it: its first byte is written
  behind the end of the send buffer. There is no test in between.
\<close>

theorem unsent_block_overrun:
  assumes "handler c = Some g_cgiWebApp" and "framed c" and "state c = HTTP_STATE_SENDING_BODY" and "result c \<noteq> 0"
    and "sending (ctxResponse c) \<noteq> 0" and "\<not> at_end c" and "length (sendBuffer (ctxResponse c)) = 1600"
    and "sendMaxBlock (ctxResponse c) = 1600" and "1590 \<le> bytesLeft (ctxResponse c)" and "bytesLeft (ctxResponse c) < fst (altcp_sndbuf w)"
    and "page_ready c w s f page i" and "i < length page" and "unsent s page i = x # rest" and "x \<noteq> CHR ''<''" and "ssiState s \<noteq> 2"
  shows "HttpResponseProc caller c w = None"
proof -
  let ?r = "ctxResponse c" and ?b = "bytesLeft (ctxResponse c)" and ?n = "min (length page - i) (64 - cacheOffset s)"
  define w1 where "w1 = snd (altcp_sndbuf w)"
  have w1: "altcp_sndbuf w = (fst (altcp_sndbuf w), w1)" "w_fs w1 = w_fs w" by (simp_all add: w1_def altcp_sndbuf_def)
  have pr: "requestMethod c = METHOD_GET \<or> requestMethod c = METHOD_POST" "as_ssi (appContext ?r) = Some s" "page_at s f page i (w_fs w)"
    "cacheOffset s < 64" "dwOperIndex ?r = int i" "dwTotal ?r = int (length page)"
    using assms(11) by (simp_all add: page_ready_def)
  have inv: "ssi_inv s" "ssi_fp s = Some f" "0 < ssi s" using pr(3) by (simp_all add: page_at_def)
  obtain fs1 where rd: "WEB_fread (Some f) ?n (w_fs w) = Some (Some (take ?n (drop i page)), fs1)"
    "c_cpy (cache s) (cacheOffset s) (take ?n (drop i page)) =
       Some (take (cacheOffset s) (cache s) @ take ?n (drop i page) @ drop (cacheOffset s + ?n) (cache s))"
    using read_step [OF pr(3) assms(12) pr(4)] by blast
  have n: "length (take ?n (drop i page)) = ?n" "0 < ?n" using assms(12) pr(4) by simp_all
  let ?ca = "take (cacheOffset s) (cache s) @ take ?n (drop i page) @ drop (cacheOffset s + ?n) (cache s)"
  let ?s1 = "s\<lparr>cache := ?ca, cacheOffset := cacheOffset s + ?n\<rparr>"
  have "c_rd ?ca 0 = Some x"
  proof (cases "cacheOffset s")
    case 0
    then have "drop i page = x # rest" using assms(13) by (simp add: unsent_def)
    then show ?thesis using 0 n(2) by (cases ?n) (simp_all add: c_rd_def)
  next
    case (Suc k)
    then have "take (cacheOffset s) (cache s) = x # take k (drop 1 (cache s))"
      using assms(13) inv(1) pr(4) by (cases "cache s") (simp_all add: unsent_def ssi_inv_def)
    then show ?thesis by (simp add: c_rd_def)
  qed
  then have sc: "ssi_scan d (nat ?b + 10) m ?s1 (sendBuffer ?r) 0 0 = None" for d m
    using assms(7,9,14,15) n(2) inv(1) by (subst ssi_scan.simps) (auto simp: Let_def c_wr_def ssi_inv_def)
  have "min (int (length page) - int i) (64 - int (cacheOffset s)) = int ?n" using assms(12) pr(4) by linarith
  then have lp: "ssi_loop d (nat ?b + 10) m s (sendBuffer ?r) 0 (int i) (int (length page)) (w_fs w) = None" for d m
    using sc rd n inv(2) assms(12) by (subst ssi_loop.simps) (simp add: Let_def)
  have rc: "WEB_ReadContent (nat ?b + 10) m c w1 = None" for m
    using pr inv(3) lp assms(12) by (auto simp: WEB_ReadContent_def Let_def w1(2))
  have "ReadContent g_cgiWebApp = Some WEB_ReadContent" by (simp add: ReadContent_def)
  then have "CGI_LoadContentToSend caller c w1 = None"
    using assms(1,2,6,9) rc by (simp add: CGI_LoadContentToSend_def Let_def at_end_def framed_def)
  then show ?thesis using assms(3-6,9,10) w1(1)
    by (auto simp: HttpResponseProc_def send_body_def Let_def at_end_def http_states split: prod.split)
qed

theorem unsent_block_overrun_witness:
  "\<exists>c w. state c = HTTP_STATE_SENDING_BODY \<and> bytesLeft (ctxResponse c) = 1595 \<and> length (sendBuffer (ctxResponse c)) = 1600 \<and>
     HttpResponseProc HTTP_PROC_CALLER_SENT c w = None"
proof -
  let ?w = "demo_world\<lparr>w_fs := demo_site ''ssi'' demo_vendor_page\<rparr>" and ?c = "demo_ask g_cgiWebApp ''ssi''"
  obtain f fs where f: "WEB_fopen (''/a.'' @ ''ssi'') ''rb'' (demo_site ''ssi'' demo_vendor_page) = Some (Some f, fs)" "file_valid f fs"
    "file_pos f fs = 0" "file_content f fs = demo_vendor_page" using demo_site_opens [of "''ssi''" demo_vendor_page] by blast
  have e: "c_str (responsePath ?c) 0 = Some (''/a.'' @ ''ssi'')" "c_str (extension ?c) 0 = Some ''ssi''" "is_ssi_extension ''ssi''"
    using demo_ask_fields(8,9) [of "''ssi''"] by (simp_all add: is_ssi_extension_def Strnicmp_zero_iff)
  obtain fs2 oo where o: "WEB_RequestReceived ?c ?w = Some (set_ssi (zeroSSI\<lparr>ssi_valid := 1, ssi := 1, ssi_fp := Some f\<rparr>)
      (upd_rsp (\<lambda>r. r\<lparr>dwTotal := int (length demo_vendor_page)\<rparr>) (?c\<lparr>options := oo, fileHandle := Some f\<rparr>)), ?w\<lparr>w_fs := fs2\<rparr>)"
    "file_valid f fs2" "file_content f fs2 = demo_vendor_page" "file_pos f fs2 = 0"
    using page_opened_form [OF e(1) _ e(2,3), of ?w f fs] f by auto
  let ?s = "zeroSSI\<lparr>ssi_valid := 1, ssi := 1, ssi_fp := Some f\<rparr>"
  let ?d = "(set_ssi ?s (upd_rsp (\<lambda>r. r\<lparr>dwTotal := 86, bytesLeft := 1595, sending := 1, sendMaxBlock := 1600\<rparr>) ?c))
    \<lparr>options := CGI_OPT_CHUNK_ENABLED, state := HTTP_STATE_SENDING_BODY\<rparr>" and ?w2 = "?w\<lparr>w_fs := fs2\<rparr>"
  have l: "length demo_vendor_page = 86" "demo_vendor_page = CHR ''B'' # tl demo_vendor_page" by (simp_all add: demo_vendor_page_def)
  have z: "dwOperStage (ctxResponse ?c) = 0" "dwOperIndex (ctxResponse ?c) = 0" "handler ?c = Some g_cgiWebApp" "result ?c = CODE_OK"
    "length (sendBuffer (ctxResponse ?c)) = 1600"
    using demo_ssi_fields by (simp_all add: demo_ask_def)
  have s: "ssi_inv ?s" "unsent ?s demo_vendor_page 0 = CHR ''B'' # tl demo_vendor_page" "ssiState ?s \<noteq> 2"
    using l(2) by (auto simp: ssi_inv_def unsent_def zeroSSI_def)
  have p: "page_ready ?d ?w2 ?s f demo_vendor_page 0" using s(1) o(2-4) l(1) z demo_ask_fields(2) [of g_cgiWebApp "''ssi''"]
    by (simp add: page_ready_def page_at_def set_ssi_def upd_rsp_def as_ssi_def zeroSSI_def)
  have "HttpResponseProc HTTP_PROC_CALLER_SENT ?d ?w2 = None"
    by (rule unsent_block_overrun [OF _ _ _ _ _ _ _ _ _ _ p _ s(2) _ s(3)])
      (use l(1) z in \<open>simp_all add: set_ssi_def upd_rsp_def framed_def opt_set_def cgi_opts at_end_def STAGE_END_def CODE_OK_def
        altcp_sndbuf_def demo_world_def\<close>)
  then show ?thesis using z(5) by (intro exI [of _ ?d] exI [of _ ?w2]) (simp add: set_ssi_def upd_rsp_def)
qed

end
