(* ===== verification/Access.thy ===== *)
theory Access
  imports Bodies
begin

text \<open>
  Requests without a login, followed beyond the header: \<open>after_header\<close> turns the answer into a redirection,
  but the functions of the handler for the body and for the complete request run all the same. For the form of the
  settings (\<^verbatim>\<open>httpd/cgi/cgi_form.c\<close>) they store the fields and put them into force.
\<close>

section \<open>A field that needs no decoding\<close>

definition plain_field :: "string \<Rightarrow> bool" where
  "plain_field s \<longleftrightarrow> list_all (\<lambda>x. x \<noteq> NUL \<and> x \<noteq> CHR ''='' \<and> x \<noteq> CHR ''&'' \<and> x \<noteq> CHR ''%'') s"

lemma plain_fieldD:
  assumes "plain_field s"
  shows "NUL \<notin> set s" "CHR ''='' \<notin> set s" "CHR ''&'' \<notin> set s" "CHR ''%'' \<notin> set s"
  using assms by (auto simp: plain_field_def list_all_iff)

lemma URLDecode_loop_plain:
  "CHR ''%'' \<notin> set s \<Longrightarrow> NUL \<notin> set s \<Longrightarrow> i \<le> length s \<Longrightarrow> URLDecode_loop (s @ r) (length s) i = Some (length s, s @ r)"
proof (induction "length s - i" arbitrary: i)
  case 0
  then show ?case by (simp add: URLDecode_loop.simps)
next
  case (Suc k)
  then have "i < length s" "s ! i \<noteq> CHR ''%''" "s ! i \<noteq> NUL" by (auto simp: in_set_conv_nth)
  with Suc show ?case by (subst URLDecode_loop.simps) (simp add: c_rd_def nth_append)
qed

lemma url_decode_at_plain:
  assumes "plain_field s"
  shows "url_decode_at (length a) (a @ s @ NUL # r) = Some (a @ s @ NUL # r)"
  using plain_fieldD [OF assms] URLDecode_loop_plain [of s "length s" "NUL # r"] URLDecode_loop_plain [of s 0 "NUL # r"]
  by (simp add: url_decode_at_def URLDecode_def c_str_app)

lemma set_field_plain:
  assumes "plain_field name" and "plain_field v" and "TAG_Setter name v d = Some d'"
  shows "set_field 0 (length name + 1) (name @ NUL # v @ NUL # r) d = Some (name @ NUL # v @ NUL # r, d')"
proof -
  have 1: "url_decode_at 0 (name @ NUL # v @ NUL # r) = Some (name @ NUL # v @ NUL # r)"
    using url_decode_at_plain [OF assms(1), of "[]"] by simp
  have 2: "url_decode_at (length name + 1) (name @ NUL # v @ NUL # r) = Some (name @ NUL # v @ NUL # r)"
    using url_decode_at_plain [OF assms(2), of "name @ [NUL]"] by simp
  have 3: "c_str (name @ NUL # v @ NUL # r) 0 = Some name" "c_str (name @ NUL # v @ NUL # r) (length name + 1) = Some v"
    using c_str_app [of name] c_str_mid [of v "name @ [NUL]"] plain_fieldD(1) assms(1,2) by simp_all
  show ?thesis using assms(3) by (simp add: set_field_def 1 2 [simplified] 3 [simplified])
qed

lemma c_strstr_at: "x \<notin> set s \<Longrightarrow> c_strstr (s @ x # t) [x] = Some (length s)"
  by (induction s) auto

lemma c_strstr_absent: "x \<notin> set s \<Longrightarrow> c_strstr s [x] = None"
  using c_strstr_iff_sublist [of s "[x]"] set_mono_sublist [of "[x]" s] by auto

text \<open>A form with one field: the setter for its name is called with its value.\<close>

lemma form_one_field:
  assumes "plain_field name" and "plain_field v" and "TAG_Setter name v d = Some d'"
  shows "ExtractFormData (name @ CHR ''='' # v @ NUL # r) (length name + 1 + length v) 0 d =
    Some (length name + 1 + length v, name @ NUL # v @ NUL # r, d')"
proof -
  let ?b = "name @ CHR ''='' # v @ NUL # r" and ?s = "name @ CHR ''='' # v"
  have n: "NUL \<notin> set ?s" "CHR ''&'' \<notin> set ?s" using plain_fieldD assms(1,2) by auto
  have s: "c_str ?b 0 = Some ?s" using c_str_app [OF n(1), of r] by simp
  obtain x where x: "c_rd ?b 0 = Some x" "x \<noteq> NUL"
    using plain_fieldD(1) [OF assms(1)] by (cases name) (auto simp: c_rd_def)
  have l: "extract_loop ?b (length name + 1 + length v) 0 None d = Some (0, Some (length name), ?b, d)"
    using x s c_strstr_at [OF plain_fieldD(2) [OF assms(1)], of v] c_strstr_absent [OF n(2)]
    by (subst extract_loop.simps) (simp add: Let_def)
  have w: "c_wr ?b (length name) NUL = Some (name @ NUL # v @ NUL # r)" by (simp add: c_wr_def list_update_append)
  show ?thesis using l w set_field_plain [OF assms, of r] by (simp add: ExtractFormData_def)
qed

section \<open>A form without a login\<close>

lemma WEB_OnFormReceived_whole:
  assumes "requestMethod c = METHOD_POST" and "contentLength c = int n" and "contentReceived c = 0" and "0 < n" and "n \<le> 1568"
    and "killing c = 0" and "bytesLeft (ctxResponse c) = 0" and "length (sendBuffer (ctxResponse c)) = 1600"
    and "length body = n" and "take n buffer = body"
    and "ExtractFormData (body @ drop n (sendBuffer (ctxResponse c))) n 0 (w_dev w) = Some (n, sb, d)"
  shows "\<exists>t k. WEB_OnFormReceived buffer (int n) c w =
    Some (int n, upd_rsp (\<lambda>r. r\<lparr>sendBuffer := sb, bytesLeft := 0\<rparr>) (c\<lparr>req_tLastReceived := t\<rparr>), w\<lparr>w_ticks := k, w_dev := d\<rparr>)"
proof -
  have "length buffer \<ge> n" using assms(9,10) by (metis length_take min.absorb_iff2 min.commute)
  then have b: "c_bytes buffer 0 n = Some body" using assms(10) by (simp add: c_bytes_def)
  have s: "c_cpy (sendBuffer (ctxResponse c)) 0 body = Some (body @ drop n (sendBuffer (ctxResponse c)))"
    using assms(5,8,9) by (simp add: c_cpy_def)
  have k: "IsKilling 1 c = (0, c)" using assms(6) by (cases c) (simp add: IsKilling_def)
  show ?thesis using assms(1-8,11) b s k
    by (auto simp: WEB_OnFormReceived_def Let_def tick_stamp_def LWIP_GetTickCount_def)
qed

text \<open>
  C36. The form of the settings needs no login: a \<^verbatim>\<open>POST\<close> with one field, the whole body in the receive buffer, on a
  connection whose send buffer is empty, from a client without a session is redirected to the login page by the step
  behind the header; but then its field is stored by the setter for its name, and the edited settings become the
  settings of the device.
\<close>

theorem form_posted_without_login:
  assumes token: "c_str (rsp_token (ctxResponse c)) 0 = Some token"
    and sess: "GetSession (Some token) (w_sessions w) = Some s" and out: "\<not> logged_in c w"
    and req: "handler c = Some g_cgiForm" "opt_set (options c) CGI_OPT_AUTH_REQUIRED" "requestMethod c = METHOD_POST"
      "c_str (extension c) 0 = Some ''shtml''" "length (responsePath c) = 128"
    and body: "take n (http_request_buffer c) = name @ ''='' @ v" "n = length (name @ ''='' @ v)" "n \<le> 1568"
      "plain_field name" "plain_field v" "TAG_Setter name v (w_dev w) = Some d"
    and conn: "chunked c \<le> 0" "contentLength c = int n" "contentReceived c = 0" "request_length c = int n" "killing c = 0"
      "bytesLeft (ctxResponse c) = 0" "sendBuffer (ctxResponse c) = replicate 1600 NUL"
    and page: "WEB_fopen WEB_DEFAULT_PAGE ''rb'' (w_fs w) = Some (Some f, fs)" "file_valid f fs"
      "file_pos f fs \<le> length (file_content f fs)"
  shows "\<exists>c1 w1 c2 w2. after_header c w = Some (c1, w1) \<and> result c1 = CODE_REDIRECT \<and> w_dev w1 = w_dev w \<and>
    receive_body (int n) c1 w1 = Some (Leave, c2, w2) \<and> result c2 = CODE_REDIRECT \<and>
    c_str (responsePath c2) 0 = Some WEB_DEFAULT_PAGE \<and> w_dev w2 = AppyConfig d"
proof -
  have st: "SessionTypes ''shtml''" "is_ssi_extension ''shtml''" by code_simp+
  have n: "0 < n" using body(2) by simp
  obtain rp where rp: "c_str rp 0 = Some WEB_DEFAULT_PAGE"
    "after_header c w = Some ((sent_to_login c s rp)\<lparr>state := HTTP_STATE_BODY_RECEIVING\<rparr>, w)"
    using after_header_redirects [OF token sess req(4) st(1) req(2,1) out req(5)] conn(1,2) n by auto
  define c1 where "c1 = (sent_to_login c s rp)\<lparr>state := HTTP_STATE_BODY_RECEIVING\<rparr>"
  have c1: "handler c1 = Some g_cgiForm" "state c1 = HTTP_STATE_BODY_RECEIVING" "requestMethod c1 = METHOD_POST"
    "contentLength c1 = int n" "contentReceived c1 = 0" "request_length c1 = int n" "chunked c1 \<le> 0" "killing c1 = 0"
    "bytesLeft (ctxResponse c1) = 0" "sendBuffer (ctxResponse c1) = replicate 1600 NUL" "result c1 = CODE_REDIRECT"
    "responsePath c1 = rp" "extension c1 = extension c" "http_request_buffer c1 = http_request_buffer c"
    using req conn by (simp_all add: c1_def sent_to_login_def upd_rsp_def)
  have "drop n (replicate 1600 NUL) = NUL # replicate (1599 - n) NUL"
    using body(3) Suc_diff_le [of n 1599] by (simp add: drop_replicate flip: replicate_Suc)
  then have x: "ExtractFormData ((name @ ''='' @ v) @ drop n (sendBuffer (ctxResponse c1))) n 0 (w_dev w) =
      Some (n, name @ NUL # v @ NUL # replicate (1599 - n) NUL, d)"
    using form_one_field [OF body(4-6), of "replicate (1599 - n) NUL"] body(2) c1(10) by simp
  obtain t k where r: "WEB_OnFormReceived (http_request_buffer c) (int n) c1 w =
    Some (int n, upd_rsp (\<lambda>r. r\<lparr>sendBuffer := name @ NUL # v @ NUL # replicate (1599 - n) NUL, bytesLeft := 0\<rparr>)
      (c1\<lparr>req_tLastReceived := t\<rparr>), w\<lparr>w_ticks := k, w_dev := d\<rparr>)"
    using WEB_OnFormReceived_whole [OF c1(3-5) n body(3) c1(8,9) _ body(2) [symmetric] body(1) x] c1(10) by auto
  define c2 where "c2 = upd_rsp (\<lambda>r. r\<lparr>sendBuffer := name @ NUL # v @ NUL # replicate (1599 - n) NUL, bytesLeft := 0\<rparr>)
      (c1\<lparr>req_tLastReceived := t, request_length := 0, contentReceived := int n\<rparr>)"
  obtain c3 w3 where bd: "body_done c2 (w\<lparr>w_ticks := k, w_dev := d\<rparr>) = (c3, w3)" by (cases "body_done c2 (w\<lparr>w_ticks := k, w_dev := d\<rparr>)")
  then have c3: "handler c3 = Some g_cgiForm" "state c3 = HTTP_STATE_BODY_DONE" "requestMethod c3 = METHOD_POST"
    "result c3 = CODE_REDIRECT" "responsePath c3 = rp" "extension c3 = extension c" "w_dev w3 = d" "w_fs w3 = w_fs w"
    using c1 by (auto simp: body_done_def tick_stamp_def LWIP_GetTickCount_def c2_def upd_rsp_def Let_def)
  obtain fs2 oo where o: "WEB_RequestReceived c3 w3 =
      Some (set_ssi (zeroSSI\<lparr>ssi_valid := 1, ssi := 1, ssi_fp := Some f\<rparr>)
         (upd_rsp (\<lambda>r. r\<lparr>dwTotal := int (length (file_content f fs))\<rparr>) (c3\<lparr>options := oo, fileHandle := Some f\<rparr>)), w3\<lparr>w_fs := fs2\<rparr>)"
    using page_opened_form [of c3 WEB_DEFAULT_PAGE "''shtml''" w3 f fs] rp(1) c3 st(2) req(4) page
    by (auto simp: WEB_DEFAULT_PAGE_def)
  have e: "OnContentReceived g_cgiForm = Some WEB_OnFormReceived" "OnRequestReceived g_cgiForm = Some Form_OnRequestReceived"
    by (simp_all add: OnContentReceived_def OnRequestReceived_def)
  have f: "\<exists>c4 w4. finish_request c3 w3 = Some (Leave, c4, w4) \<and> result c4 = CODE_REDIRECT \<and> responsePath c4 = rp \<and> w_dev w4 = AppyConfig d"
    using o c3 by (simp add: finish_request_def CGI_RequestReceived_def e Form_OnRequestReceived_def set_ssi_def upd_rsp_def CODE_REDIRECT_def)
  let ?c = "upd_rsp (\<lambda>r. r\<lparr>sendBuffer := name @ NUL # v @ NUL # replicate (1599 - n) NUL, bytesLeft := 0\<rparr>) (c1\<lparr>req_tLastReceived := t\<rparr>)"
  have cr: "CGI_ContentReceived (http_request_buffer c1) (int n) c1 w = Some (int n, ?c, w\<lparr>w_ticks := k, w_dev := d\<rparr>)"
    using r c1(1,14) by (simp add: CGI_ContentReceived_def e)
  have sh: "shift_out n ?c = Some (?c\<lparr>request_length := 0\<rparr>)" using c1(6) by (simp add: shift_out_def upd_rsp_def)
  have c2: "?c\<lparr>request_length := 0, contentReceived := contentReceived ?c + int n\<rparr> = c2"
    using c1(5) by (simp add: c2_def upd_rsp_def)
  have cd: "content_done c2 (w\<lparr>w_ticks := k, w_dev := d\<rparr>) = (c3, w3)"
    using c1(4,7) bd by (simp add: content_done_def c2_def upd_rsp_def)
  have "chunk_length (int n) c1 = Some c1" "\<not> result ?c \<le> -500"
    using c1(2,11) by (simp_all add: chunk_length_def http_states upd_rsp_def CODE_REDIRECT_def)
  then have "receive_body (int n) c1 w = finish_request c3 w3"
    unfolding receive_body_def using c1(2) cr n sh cd c3(2) by (simp add: c2)
  with f show ?thesis using rp c1(11) unfolding c1_def by auto
qed

definition demo_form :: REQUEST_CONTEXT where
  "demo_form = (zeroContext 0)\<lparr>extension := ''shtml'' @ replicate 3 NUL, requestMethod := METHOD_POST,
     options := or CGI_OPT_AUTH_REQUIRED (or CGI_OPT_GET_ENABLED CGI_OPT_POST_ENABLED), handler := Some g_cgiForm,
     contentLength := 13, request_length := 13, http_request_buffer := ''VAR_COLOR=red'' @ replicate 791 NUL\<rparr>"

definition demo_login_site :: world where
  "demo_login_site = demo_world\<lparr>w_fs := (demo_fs False)\<lparr>image := [\<lparr>rom_name = WEB_DEFAULT_PAGE, rom_data = ''login'', rom_time = 1\<rparr>],
     g_FileOpened := replicate 32 (None, 0)\<rparr>\<rparr>"

lemma demo_login_opens: "\<exists>f fs. WEB_fopen WEB_DEFAULT_PAGE ''rb'' (w_fs demo_login_site) = Some (Some f, fs) \<and> file_valid f fs \<and>
    file_pos f fs \<le> length (file_content f fs)"
proof -
  have "replicate 32 (None, 0) = (None, 0) # (replicate 31 (None, 0) :: (file_info option \<times> nat) list)" by (simp add: numeral_eq_Suc)
  then have r: "WEB_fopen WEB_DEFAULT_PAGE ''rb'' (w_fs demo_login_site) =
      Some (Some (Slot 0), (w_fs demo_login_site)\<lparr>g_FileOpened := (Some (ImageFile 0), 0) # replicate 31 (None, 0)\<rparr>)"
    by (simp add: WEB_fopen_def demo_login_site_def demo_fs_def open_slot_def WEB_DEFAULT_PAGE_def Let_def)
  show ?thesis unfolding r
    by (rule exI, rule exI, rule conjI, rule refl)
      (simp add: demo_login_site_def demo_fs_def file_valid_def slot_of_def file_pos_def file_content_def info_data_def info_size_def)
qed

theorem form_posted_without_login_witness:
  "take 4 (szColor (g_WorkConfig (w_dev demo_login_site))) \<noteq> ''red'' @ [NUL] \<and>
   (\<exists>c1 w1 c2 w2. after_header demo_form demo_login_site = Some (c1, w1) \<and> result c1 = CODE_REDIRECT \<and>
     receive_body 13 c1 w1 = Some (Leave, c2, w2) \<and> result c2 = CODE_REDIRECT \<and>
     take 4 (szColor (g_WorkConfig (w_dev w2))) = ''red'' @ [NUL])"
proof -
  have dev: "w_dev demo_login_site = InitDevInfo \<lparr>g_WorkConfig = zeroConfig, g_TempConfig = zeroConfig, g_ipIsReady = 1\<rparr>"
    "w_sessions demo_login_site = SetupSession" by (simp_all add: demo_login_site_def demo_world_def)
  have k: "case TAG_Setter ''VAR_COLOR'' ''red'' (InitDevInfo \<lparr>g_WorkConfig = zeroConfig, g_TempConfig = zeroConfig, g_ipIsReady = 1\<rparr>) of
      None \<Rightarrow> False | Some d \<Rightarrow> take 4 (szColor (g_TempConfig d)) = ''red'' @ [NUL]"
    "take 4 (szColor (g_WorkConfig (InitDevInfo \<lparr>g_WorkConfig = zeroConfig, g_TempConfig = zeroConfig, g_ipIsReady = 1\<rparr>))) \<noteq> ''red'' @ [NUL]"
    by code_simp+
  obtain d where d: "TAG_Setter ''VAR_COLOR'' ''red'' (w_dev demo_login_site) = Some d" "take 4 (szColor (g_TempConfig d)) = ''red'' @ [NUL]"
    using k(1) dev(1) by (auto split: option.splits)
  obtain f fs where f: "WEB_fopen WEB_DEFAULT_PAGE ''rb'' (w_fs demo_login_site) = Some (Some f, fs)" "file_valid f fs"
    "file_pos f fs \<le> length (file_content f fs)" using demo_login_opens by blast
  have t: "c_str (rsp_token (ctxResponse demo_form)) 0 = Some []" "c_str (extension demo_form) 0 = Some ''shtml''"
    by (simp_all add: demo_form_def zeroContext_def zeroResponse_def c_str_def)
  have s: "GetSession (Some []) (w_sessions demo_login_site) = Some None" by (simp add: GetSession_def)
  have o: "\<not> logged_in demo_form demo_login_site" using t(1) by (simp add: logged_in_def GetSession_def)
  have p: "plain_field ''VAR_COLOR''" "plain_field ''red''" by code_simp+
  have x: "\<exists>c1 w1 c2 w2. after_header demo_form demo_login_site = Some (c1, w1) \<and> result c1 = CODE_REDIRECT \<and> w_dev w1 = w_dev demo_login_site \<and>
    receive_body (int 13) c1 w1 = Some (Leave, c2, w2) \<and> result c2 = CODE_REDIRECT \<and>
    c_str (responsePath c2) 0 = Some WEB_DEFAULT_PAGE \<and> w_dev w2 = AppyConfig d"
    by (rule form_posted_without_login [OF t(1) s o _ _ _ t(2) _ _ _ _ p d(1) _ _ _ _ _ _ _ f])
      (simp_all add: demo_form_def zeroContext_def zeroResponse_def opt_set_def cgi_opts MAX_SEND_BUF_SIZE_def TCP_MSS_def)
  have "take 4 (szColor (g_WorkConfig (AppyConfig d))) = ''red'' @ [NUL]" using d(2) by (simp add: AppyConfig_def Let_def)
  with x k(2) show ?thesis unfolding dev(1) by (metis of_nat_numeral)
qed

end
